(* ===== verification/Easy_Prelude.thy ===== *)
theory Easy_Prelude
  imports Main "HOL-Library.Word" "HOL-Library.Multiset"
begin

text \<open>
  Shared vocabulary of the development: machine integers, the outcome type of fallible Rust code
  (a value, an error, or a panic), Rust's slicing and indexing with their panics, the operations of
  \<^verbatim>\<open>std::collections::VecDeque\<close> that the library uses, and the generic lemmas about them.

  \<^verbatim>\<open>usize\<close> offsets into slices are \<^typ>\<open>nat\<close>: a slice is never longer than \<^verbatim>\<open>isize::MAX\<close> bytes, so
  the sums of offsets and lengths the code forms cannot overflow.  Strings (\<^verbatim>\<open>&str\<close>, \<^verbatim>\<open>String\<close>) are
  their UTF-8 bytes.
\<close>

section \<open>Machine integers and collections of proof rules\<close>

type_synonym u8 = "8 word"
type_synonym u16 = "16 word"
type_synonym u32 = "32 word"
type_synonym usize = "64 word"
type_synonym bytes = "u8 list"

named_theorems outcome_simps \<open>rewriting of outcomes and their sequencing\<close>
named_theorems slice_simps \<open>rewriting of slicing and indexing inside the bounds\<close>
named_theorems no_panic \<open>operations that never panic\<close>

section \<open>Outcomes: value, error or panic\<close>

datatype ('e, 'a) res = Ok 'a | Err 'e | Panic

text \<open>The \<^verbatim>\<open>?\<close> operator and \<^verbatim>\<open>try!\<close>: the first error or panic ends the computation.\<close>

fun bindR :: "('e, 'a) res \<Rightarrow> ('a \<Rightarrow> ('e, 'b) res) \<Rightarrow> ('e, 'b) res" where
  "bindR (Ok a) f = f a"
| "bindR (Err e) f = Err e"
| "bindR Panic f = Panic"

text \<open>\<^verbatim>\<open>Result::unwrap\<close>, \<^verbatim>\<open>Option::unwrap\<close>: anything but a value panics.\<close>

fun unwrapR :: "('e, 'a) res \<Rightarrow> ('f, 'a) res" where
  "unwrapR (Ok a) = Ok a"
| "unwrapR _ = Panic"

fun unwrapO :: "'a option \<Rightarrow> ('f, 'a) res" where
  "unwrapO (Some a) = Ok a"
| "unwrapO None = Panic"

lemma bindR_cong [fundef_cong]:
  "m = m' \<Longrightarrow> (\<And>x. m' = Ok x \<Longrightarrow> f x = g x) \<Longrightarrow> bindR m f = bindR m' g"
  by (cases m') auto

lemma bindR_Ok_iff [outcome_simps]: "bindR m f = Ok b \<longleftrightarrow> (\<exists>a. m = Ok a \<and> f a = Ok b)"
  by (cases m) auto

lemma bindR_Panic_iff [outcome_simps]: "bindR m f = Panic \<longleftrightarrow> m = Panic \<or> (\<exists>a. m = Ok a \<and> f a = Panic)"
  by (cases m) auto

lemma bindR_Err_iff [outcome_simps]:
  "bindR m f = Err e \<longleftrightarrow> m = Err e \<or> (\<exists>a. m = Ok a \<and> f a = Err e)"
  by (cases m) auto

lemma bindR_assoc: "bindR (bindR m f) g = bindR m (\<lambda>x. bindR (f x) g)"
  by (cases m) auto

lemma bindR_Ok_right [simp]: "bindR m Ok = m"
  by (cases m) auto

lemma bindR_no_panic [no_panic]: "m \<noteq> Panic \<Longrightarrow> (\<And>a. m = Ok a \<Longrightarrow> f a \<noteq> Panic) \<Longrightarrow> bindR m f \<noteq> Panic"
  by (cases m) auto

lemma unwrapO_Ok_iff [outcome_simps]: "unwrapO x = Ok a \<longleftrightarrow> x = Some a"
  by (cases x) auto

lemma unwrapO_not_Err [simp]: "unwrapO x \<noteq> Err e"
  by (cases x) auto

lemma unwrapR_Ok_iff [outcome_simps]: "unwrapR x = Ok a \<longleftrightarrow> x = Ok a"
  by (cases x) auto

lemma unwrapR_Panic_iff [outcome_simps]: "unwrapR x = Panic \<longleftrightarrow> (\<forall>a. x \<noteq> Ok a)"
  by (cases x) auto

text \<open>
  Code that updates a state and may fail on the way: the state reached is kept together with the
  outcome, since callers that ignore an error go on with it.
\<close>

fun bindS :: "'s \<times> ('e, 'a) res \<Rightarrow> ('s \<Rightarrow> 'a \<Rightarrow> 's \<times> ('e, 'b) res) \<Rightarrow> 's \<times> ('e, 'b) res" where
  "bindS (s, Ok a) f = f s a"
| "bindS (s, Err e) f = (s, Err e)"
| "bindS (s, Panic) f = (s, Panic)"

text \<open>An outcome that replaces the state (\<open>put\<close>) or only yields a value (\<open>lift\<close>).\<close>

fun put :: "'s \<Rightarrow> ('e, 's) res \<Rightarrow> 's \<times> ('e, unit) res" where
  "put s (Ok s') = (s', Ok ())"
| "put s (Err e) = (s, Err e)"
| "put s Panic = (s, Panic)"

definition lift :: "'s \<Rightarrow> ('e, 'a) res \<Rightarrow> 's \<times> ('e, 'a) res" where
  "lift s m = (s, m)"

text \<open>Rewriting the first step only: the continuation is left alone until its argument is known.\<close>

lemma bindS_weak_cong: "m = m' \<Longrightarrow> bindS m f = bindS m' f"
  by simp

lemma bindS_assoc: "bindS (bindS m f) g = bindS m (\<lambda>s a. bindS (f s a) g)"
  by (cases m; cases "snd m") auto

lemma bindS_Ok_iff: "bindS m f = (s, Ok b) \<longleftrightarrow> (\<exists>s' a. m = (s', Ok a) \<and> f s' a = (s, Ok b))"
  by (cases m; cases "snd m") auto

lemma bindS_lift_Ok [simp]: "bindS (lift s (Ok a)) f = f s a"
  by (simp add: lift_def)

text \<open>Induction on two measures, the first one leading.\<close>

lemma lex_measure_induct:
  fixes f g :: "'a \<Rightarrow> nat"
  assumes step: "\<And>x. (\<And>y. f y < f x \<or> f y = f x \<and> g y < g x \<Longrightarrow> P y) \<Longrightarrow> P x"
  shows "P x"
proof -
  have "\<forall>x. f x = m \<longrightarrow> P x" for m
  proof (induction m rule: less_induct)
    case (less m)
    have "\<forall>x. f x = m \<and> g x = n \<longrightarrow> P x" for n
      by (induction n rule: less_induct) (use less step in blast)
    then show ?case by blast
  qed
  then show ?thesis by blast
qed

section \<open>Slices\<close>

text \<open>\<^verbatim>\<open>xs[i]\<close>, \<^verbatim>\<open>&xs[a..]\<close>, \<^verbatim>\<open>&xs[..b]\<close> and \<^verbatim>\<open>&xs[a..b]\<close>: out of range they panic.\<close>

definition index :: "'a list \<Rightarrow> nat \<Rightarrow> ('e, 'a) res" where
  "index xs i = (if i < length xs then Ok (xs ! i) else Panic)"

definition slice_from :: "'a list \<Rightarrow> nat \<Rightarrow> ('e, 'a list) res" where
  "slice_from xs a = (if a \<le> length xs then Ok (drop a xs) else Panic)"

definition slice_to :: "'a list \<Rightarrow> nat \<Rightarrow> ('e, 'a list) res" where
  "slice_to xs b = (if b \<le> length xs then Ok (take b xs) else Panic)"

definition slice_range :: "'a list \<Rightarrow> nat \<Rightarrow> nat \<Rightarrow> ('e, 'a list) res" where
  "slice_range xs a b = (if a \<le> b \<and> b \<le> length xs then Ok (take (b - a) (drop a xs)) else Panic)"

text \<open>\<^verbatim>\<open>xs[i] = v\<close> and \<^verbatim>\<open>xs[a..b].copy_from_slice(ys)\<close>: a length mismatch panics as well.\<close>

definition store :: "'a list \<Rightarrow> nat \<Rightarrow> 'a \<Rightarrow> ('e, 'a list) res" where
  "store xs i v = (if i < length xs then Ok (xs[i := v]) else Panic)"

definition copy_into :: "'a list \<Rightarrow> nat \<Rightarrow> nat \<Rightarrow> 'a list \<Rightarrow> ('e, 'a list) res" where
  "copy_into xs a b ys =
     (if a \<le> b \<and> b \<le> length xs \<and> length ys = b - a
      then Ok (take a xs @ ys @ drop b xs) else Panic)"

lemma index_in [slice_simps]: "i < length xs \<Longrightarrow> index xs i = Ok (xs ! i)"
  by (simp add: index_def)

lemma slice_from_in [slice_simps]: "a \<le> length xs \<Longrightarrow> slice_from xs a = Ok (drop a xs)"
  by (simp add: slice_from_def)

lemma slice_to_in [slice_simps]: "b \<le> length xs \<Longrightarrow> slice_to xs b = Ok (take b xs)"
  by (simp add: slice_to_def)

lemma slice_in [slice_simps]:
  "a \<le> b \<Longrightarrow> b \<le> length xs \<Longrightarrow> slice_range xs a b = Ok (take (b - a) (drop a xs))"
  by (simp add: slice_range_def)

lemma store_in [slice_simps]: "i < length xs \<Longrightarrow> store xs i v = Ok (xs[i := v])"
  by (simp add: store_def)

lemma copy_into_in [slice_simps]:
  "a \<le> b \<Longrightarrow> b \<le> length xs \<Longrightarrow> length ys = b - a \<Longrightarrow>
   copy_into xs a b ys = Ok (take a xs @ ys @ drop b xs)"
  by (simp add: copy_into_def)

lemma take_drop_nth2: "Suc i < length xs \<Longrightarrow> take 2 (drop i xs) = [xs ! i, xs ! Suc i]"
  by (simp add: numeral_2_eq_2 Cons_nth_drop_Suc [symmetric])

section \<open>String literals\<close>

text \<open>The bytes of a literal of ASCII characters (\<^verbatim>\<open>b"..."\<close>, \<^verbatim>\<open>"..."\<close>).\<close>

definition ascii :: "string \<Rightarrow> bytes" where
  "ascii s = map of_char s"

section \<open>Double-ended queues\<close>

text \<open>
  A \<^verbatim>\<open>VecDeque\<close> is the list of its elements, front first.  \<^verbatim>\<open>swap_remove_front(i)\<close> swaps
  element \<open>i\<close> with the front and pops the front; out of range it does nothing.
\<close>

type_synonym 'a deque = "'a list"

definition push_back :: "'a deque \<Rightarrow> 'a \<Rightarrow> 'a deque" where
  "push_back q x = q @ [x]"

definition push_front :: "'a deque \<Rightarrow> 'a \<Rightarrow> 'a deque" where
  "push_front q x = x # q"

definition pop_front :: "'a deque \<Rightarrow> 'a option \<times> 'a deque" where
  "pop_front q = (case q of [] \<Rightarrow> (None, []) | x # xs \<Rightarrow> (Some x, xs))"

definition pop_back :: "'a deque \<Rightarrow> 'a option \<times> 'a deque" where
  "pop_back q = (if q = [] then (None, []) else (Some (last q), butlast q))"

definition swap_remove_front :: "'a deque \<Rightarrow> nat \<Rightarrow> 'a deque" where
  "swap_remove_front q i = (if i < length q then tl (q[i := hd q]) else q)"

lemma pop_front_Cons [simp]: "pop_front (x # xs) = (Some x, xs)"
  by (simp add: pop_front_def)

lemma pop_front_Nil [simp]: "pop_front [] = (None, [])"
  by (simp add: pop_front_def)

text \<open>A queue interface: what is pushed comes out in order, and nothing else does.\<close>

locale fifo =
  fixes emp :: "'q" and push :: "'q \<Rightarrow> 'a \<Rightarrow> 'q" and pop :: "'q \<Rightarrow> 'a option \<times> 'q"
    and contents :: "'q \<Rightarrow> 'a list"
  assumes contents_emp: "contents emp = []"
    and contents_push: "contents (push q x) = contents q @ [x]"
    and pop_empty: "contents q = [] \<Longrightarrow> fst (pop q) = None \<and> contents (snd (pop q)) = []"
    and pop_nonempty: "contents q = x # xs \<Longrightarrow> fst (pop q) = Some x \<and> contents (snd (pop q)) = xs"
begin

primrec push_all :: "'q \<Rightarrow> 'a list \<Rightarrow> 'q" where
  "push_all q [] = q"
| "push_all q (x # xs) = push_all (push q x) xs"

primrec pop_n :: "nat \<Rightarrow> 'q \<Rightarrow> 'a option list \<times> 'q" where
  "pop_n 0 q = ([], q)"
| "pop_n (Suc n) q = (let (x, q') = pop q; (xs, q'') = pop_n n q' in (x # xs, q''))"

lemma contents_push_all: "contents (push_all q xs) = contents q @ xs"
  by (induction xs arbitrary: q) (auto simp: contents_push)

lemma pop_n_contents: "contents q = xs @ ys \<Longrightarrow>
    fst (pop_n (length xs) q) = map Some xs \<and> contents (snd (pop_n (length xs) q)) = ys"
proof (induction xs arbitrary: q)
  case (Cons x xs)
  obtain q' where q': "pop q = (Some x, q')" "contents q' = xs @ ys"
    using pop_nonempty [of q x "xs @ ys"] Cons.prems by (cases "pop q") auto
  from Cons.IH [OF q'(2)] show ?case by (auto simp: q'(1) Let_def split: prod.splits)
qed simp

lemma fifo_order: "fst (pop_n (length xs) (push_all emp xs)) = map Some xs"
  using pop_n_contents [of "push_all emp xs" xs "[]"] by (simp add: contents_push_all contents_emp)

end

interpretation vec_deque: fifo "[]" push_back pop_front "\<lambda>q. q"
  by unfold_locales (simp_all add: push_back_def)

lemma mset_swap_remove_front:
  "i < length q \<Longrightarrow> mset (swap_remove_front q i) = mset q - {#q ! i#}"
proof (cases q)
  case (Cons x xs)
  assume i: "i < length q"
  show ?thesis
  proof (cases i)
    case 0
    then show ?thesis using Cons by (simp add: swap_remove_front_def)
  next
    case (Suc j)
    then have "j < length xs" using i Cons by simp
    then have "mset (xs[j := x]) = add_mset x (mset xs - {#xs ! j#})"
      by (rule mset_update)
    moreover have "xs ! j \<in># mset xs" using \<open>j < length xs\<close> by simp
    ultimately show ?thesis using Cons Suc i by (simp add: swap_remove_front_def)
  qed
qed simp

section \<open>Bytes\<close>

text \<open>\<^verbatim>\<open>[u8]::is_ascii\<close>.\<close>

definition is_ascii :: "bytes \<Rightarrow> bool" where
  "is_ascii bs \<longleftrightarrow> list_all (\<lambda>b. b < 128) bs"

lemma is_ascii_simps [simp]:
  "is_ascii []" "is_ascii (b # bs) \<longleftrightarrow> b < 128 \<and> is_ascii bs"
  "is_ascii (xs @ ys) \<longleftrightarrow> is_ascii xs \<and> is_ascii ys"
  by (simp_all add: is_ascii_def)

text \<open>
  \<^verbatim>\<open>str::from_utf8\<close>: the width announced by a first byte (\<open>0\<close> for a byte that starts no sequence),
  the range of a second byte, the length of the well-formed sequence at the head of a byte string,
  and the validation loop, whose error carries \<^verbatim>\<open>valid_up_to\<close>.
\<close>

definition utf8_width :: "u8 \<Rightarrow> nat" where
  "utf8_width a =
     (if a < 0x80 then 1 else if a < 0xC2 then 0 else if a < 0xE0 then 2
      else if a < 0xF0 then 3 else if a < 0xF5 then 4 else 0)"

definition within :: "u8 \<Rightarrow> u8 \<Rightarrow> u8 \<Rightarrow> bool" where
  "within lo hi b \<longleftrightarrow> lo \<le> b \<and> b \<le> hi"

definition utf8_second :: "u8 \<Rightarrow> u8 \<Rightarrow> bool" where
  "utf8_second a b =
     (if a = 0xE0 then within 0xA0 0xBF b
      else if a = 0xED then within 0x80 0x9F b
      else if a = 0xF0 then within 0x90 0xBF b
      else if a = 0xF4 then within 0x80 0x8F b
      else within 0x80 0xBF b)"

definition utf8_head :: "bytes \<Rightarrow> nat option" where
  "utf8_head bs =
     (case bs of
        [] \<Rightarrow> None
      | a # r \<Rightarrow>
         (let w = utf8_width a in
          if w = 0 \<or> length bs < w then None
          else if w = 1 then Some 1
          else if utf8_second a (r ! 0) \<and> list_all (within 0x80 0xBF) (take (w - 2) (drop 1 r))
            then Some w else None))"

lemma utf8_head_bounds: "utf8_head bs = Some n \<Longrightarrow> 0 < n \<and> n \<le> length bs"
  by (auto simp: utf8_head_def Let_def split: list.splits if_splits)

function utf8_run :: "bytes \<Rightarrow> nat \<Rightarrow> (nat, nat) res" where
  "utf8_run bs pos =
     (if bs = [] then Ok pos
      else case utf8_head bs of
        None \<Rightarrow> Err pos
      | Some n \<Rightarrow> utf8_run (drop n bs) (pos + n))"
  by pat_completeness auto
termination
  by (relation "measure (\<lambda>(bs, pos). length bs)") (auto dest: utf8_head_bounds)

declare utf8_run.simps [simp del]

definition from_utf8 :: "bytes \<Rightarrow> (nat, bytes) res" where
  "from_utf8 bs = bindR (utf8_run bs 0) (\<lambda>_. Ok bs)"

inductive utf8 :: "bytes \<Rightarrow> bool" where
  utf8_Nil: "utf8 []"
| utf8_step: "utf8_head bs = Some n \<Longrightarrow> utf8 (drop n bs) \<Longrightarrow> utf8 bs"

lemma utf8_run_Ok_iff: "(\<exists>n. utf8_run bs pos = Ok n) \<longleftrightarrow> utf8 bs"
proof (induction bs pos rule: utf8_run.induct)
  case (1 bs pos)
  show ?case
  proof (cases "bs = []")
    case True
    then show ?thesis by (simp add: utf8_run.simps utf8.intros)
  next
    case False
    note nonempty = this
    show ?thesis
    proof (cases "utf8_head bs")
      case None
      with nonempty show ?thesis
        by (subst utf8_run.simps) (auto elim: utf8.cases)
    next
      case (Some n)
      have "utf8 bs \<longleftrightarrow> utf8 (drop n bs)"
        using Some nonempty by (auto intro: utf8.intros elim: utf8.cases)
      with "1" nonempty Some show ?thesis by (subst utf8_run.simps) simp
    qed
  qed
qed

lemma utf8_run_no_panic: "utf8_run bs pos \<noteq> Panic"
  by (induction bs pos rule: utf8_run.induct) (subst utf8_run.simps, auto split: option.splits)

lemma from_utf8_Ok: "from_utf8 bs = Ok s \<Longrightarrow> s = bs \<and> utf8 bs"
  using utf8_run_Ok_iff [of bs 0] by (auto simp: from_utf8_def outcome_simps)

lemma from_utf8_no_panic [no_panic]: "from_utf8 bs \<noteq> Panic"
  using utf8_run_no_panic [of bs 0] by (auto simp: from_utf8_def outcome_simps)

lemma from_utf8_valid: "utf8 bs \<Longrightarrow> from_utf8 bs = Ok bs"
  using utf8_run_Ok_iff [of bs 0] by (auto simp: from_utf8_def)

lemma utf8_ascii: "is_ascii bs \<Longrightarrow> utf8 bs"
proof (induction bs)
  case (Cons b bs)
  then have "utf8_head (b # bs) = Some 1" by (simp add: utf8_head_def utf8_width_def)
  then show ?case using Cons by (auto intro: utf8_step)
qed (rule utf8_Nil)

lemma utf8_head_append: "utf8_head bs = Some n \<Longrightarrow> utf8_head (bs @ cs) = Some n"
proof (cases bs)
  case (Cons a r)
  assume "utf8_head bs = Some n"
  then show ?thesis using Cons by (auto simp: utf8_head_def Let_def nth_append split: if_splits)
qed (simp add: utf8_head_def)

lemma utf8_append: "utf8 xs \<Longrightarrow> utf8 ys \<Longrightarrow> utf8 (xs @ ys)"
proof (induction rule: utf8.induct)
  case (utf8_step bs n)
  then have "utf8_head (bs @ ys) = Some n" by (simp add: utf8_head_append)
  moreover have "drop n (bs @ ys) = drop n bs @ ys"
    using utf8_head_bounds [OF utf8_step(1)] by simp
  ultimately show ?case using utf8_step by (auto intro: utf8.utf8_step)
qed simp

end
