(* ===== verification/Byte_Order.thy ===== *)
theory Byte_Order
  imports Easy_Prelude
begin

text \<open>
  The interface of the \<^verbatim>\<open>byteorder\<close> crate as the DNS code uses it: \<^verbatim>\<open>BigEndian::read_u16\<close>,
  \<^verbatim>\<open>read_u32\<close> and \<^verbatim>\<open>write_u16\<close>.  The crate is not part of the repository, so its operations are a
  parameter of the model (a record of functions, \<^const>\<open>None\<close> standing for a panic); the locale
  \<open>big_endian\<close> states its documented behaviour: network byte order, and a panic on a buffer that is
  too short.
\<close>

unbundle bit_operations_syntax

record byteorder =
  bo_read_u16 :: "bytes \<Rightarrow> u16 option"
  bo_read_u32 :: "bytes \<Rightarrow> u32 option"
  bo_write_u16 :: "bytes \<Rightarrow> u16 \<Rightarrow> bytes option"

definition read_u16 :: "byteorder \<Rightarrow> bytes \<Rightarrow> ('e, u16) res" where
  "read_u16 bo bs = unwrapO (bo_read_u16 bo bs)"

definition read_u32 :: "byteorder \<Rightarrow> bytes \<Rightarrow> ('e, u32) res" where
  "read_u32 bo bs = unwrapO (bo_read_u32 bo bs)"

text \<open>\<^verbatim>\<open>BigEndian::write_u16(&mut buf[a..b], v)\<close> on the buffer \<open>buf\<close>: only the sub-slice changes.\<close>

definition write_u16 :: "byteorder \<Rightarrow> bytes \<Rightarrow> nat \<Rightarrow> nat \<Rightarrow> u16 \<Rightarrow> ('e, bytes) res" where
  "write_u16 bo buf a b v =
     bindR (slice_range buf a b) (\<lambda>s.
     bindR (unwrapO (bo_write_u16 bo s v)) (\<lambda>s'. copy_into buf a b s'))"

section \<open>Network byte order\<close>

definition hi8 :: "u16 \<Rightarrow> u8" where "hi8 v = ucast (drop_bit 8 v)"
definition lo8 :: "u16 \<Rightarrow> u8" where "lo8 v = ucast v"

definition be16 :: "u8 \<Rightarrow> u8 \<Rightarrow> u16" where
  "be16 a b = push_bit 8 (ucast a) OR ucast b"

definition be32 :: "u8 \<Rightarrow> u8 \<Rightarrow> u8 \<Rightarrow> u8 \<Rightarrow> u32" where
  "be32 a b c d =
     push_bit 24 (ucast a) OR push_bit 16 (ucast b) OR push_bit 8 (ucast c) OR ucast d"

lemma bit_be16: "bit (be16 a b) n \<longleftrightarrow> (if n < 8 then bit b n else n < 16 \<and> bit a (n - 8))"
proof (cases "n < 8")
  case True
  then show ?thesis by (simp add: be16_def bit_simps)
next
  case False
  then have "\<not> bit b n" using bit_imp_le_length [of b n] by auto
  with False show ?thesis by (auto simp: be16_def bit_simps dest: bit_imp_le_length)
qed

lemma bit_hi8: "bit (hi8 v) n \<longleftrightarrow> n < 8 \<and> bit v (n + 8)"
  by (auto simp: hi8_def bit_simps add.commute)

lemma bit_lo8: "bit (lo8 v) n \<longleftrightarrow> n < 8 \<and> bit v n"
  by (auto simp: lo8_def bit_simps)

lemma be16_hi_lo [simp]: "be16 (hi8 v) (lo8 v) = v"
  by (rule bit_word_eqI) (auto simp: bit_be16 bit_hi8 bit_lo8)

lemma hi8_be16 [simp]: "hi8 (be16 a b) = a"
  by (rule bit_word_eqI) (auto simp: bit_be16 bit_hi8)

lemma lo8_be16 [simp]: "lo8 (be16 a b) = b"
  by (rule bit_word_eqI) (auto simp: bit_be16 bit_lo8)

lemma splice2:
  assumes "a + 2 \<le> b" "b \<le> length xs"
  shows "take a xs @ (x # y # drop 2 (take (b - a) (drop a xs))) @ drop b xs = xs[a := x, Suc a := y]"
proof -
  have b: "Suc (Suc (b - 2)) = b" using assms by simp
  have "drop 2 (take (b - a) (drop a xs)) @ drop b xs
      = take (b - a - 2) (drop (Suc (Suc a)) xs) @ drop (b - a - 2) (drop (Suc (Suc a)) xs)"
    using assms by (simp add: drop_take) (simp add: b)
  then have rest: "drop 2 (take (b - a) (drop a xs)) @ drop b xs = drop (Suc (Suc a)) xs"
    by (simp only: append_take_drop_id)
  have "xs[a := x, Suc a := y] = take a xs @ x # y # drop (Suc (Suc a)) xs"
    using assms by (simp add: upd_conv_take_nth_drop take_Suc_conv_app_nth list_update_append)
  with rest show ?thesis by simp
qed

locale big_endian =
  fixes bo :: byteorder
  assumes short_read_u16: "length bs < 2 \<Longrightarrow> bo_read_u16 bo bs = None"
    and long_read_u16: "2 \<le> length bs \<Longrightarrow> bo_read_u16 bo bs = Some (be16 (bs ! 0) (bs ! 1))"
    and short_read_u32: "length bs < 4 \<Longrightarrow> bo_read_u32 bo bs = None"
    and long_read_u32: "4 \<le> length bs \<Longrightarrow>
          bo_read_u32 bo bs = Some (be32 (bs ! 0) (bs ! 1) (bs ! 2) (bs ! 3))"
    and short_write_u16: "length bs < 2 \<Longrightarrow> bo_write_u16 bo bs v = None"
    and long_write_u16: "2 \<le> length bs \<Longrightarrow> bo_write_u16 bo bs v = Some (hi8 v # lo8 v # drop 2 bs)"
begin

lemma read_u16_in [slice_simps]: "2 \<le> length bs \<Longrightarrow> read_u16 bo bs = Ok (be16 (bs ! 0) (bs ! 1))"
  by (simp add: read_u16_def long_read_u16)

lemma read_u32_in [slice_simps]:
  "4 \<le> length bs \<Longrightarrow> read_u32 bo bs = Ok (be32 (bs ! 0) (bs ! 1) (bs ! 2) (bs ! 3))"
  by (simp add: read_u32_def long_read_u32)

lemma read_u16_short: "length bs < 2 \<Longrightarrow> read_u16 bo bs = Panic"
  by (simp add: read_u16_def short_read_u16)

lemma write_u16_in [slice_simps]:
  assumes "a + 2 \<le> b" "b \<le> length buf"
  shows "write_u16 bo buf a b v = Ok (buf[a := hi8 v, Suc a := lo8 v])"
proof -
  let ?s = "take (b - a) (drop a buf)"
  have s: "slice_range buf a b = Ok ?s" using assms by (simp add: slice_in)
  have len: "length ?s = b - a" using assms by simp
  have w: "bo_write_u16 bo ?s v = Some (hi8 v # lo8 v # drop 2 ?s)"
    using assms by (intro long_write_u16) simp
  have "write_u16 bo buf a b v = copy_into buf a b (hi8 v # lo8 v # drop 2 ?s)"
    by (simp add: write_u16_def s w)
  also have "\<dots> = Ok (take a buf @ (hi8 v # lo8 v # drop 2 ?s) @ drop b buf)"
    using assms by (intro copy_into_in) auto
  also have "take a buf @ (hi8 v # lo8 v # drop 2 ?s) @ drop b buf = buf[a := hi8 v, Suc a := lo8 v]"
    using assms by (intro splice2) auto
  finally show ?thesis .
qed

lemma write_u16_short: "b \<le> length buf \<Longrightarrow> b < a + 2 \<Longrightarrow> write_u16 bo buf a b v = Panic"
  by (cases "a \<le> b") (auto simp: write_u16_def slice_range_def short_write_u16)

end

text \<open>Network byte order itself, the instance on which evaluation runs.\<close>

definition network :: byteorder where
  "network =
    \<lparr>bo_read_u16 = (\<lambda>bs. case bs of a # b # _ \<Rightarrow> Some (be16 a b) | _ \<Rightarrow> None),
     bo_read_u32 = (\<lambda>bs. case bs of a # b # c # d # _ \<Rightarrow> Some (be32 a b c d) | _ \<Rightarrow> None),
     bo_write_u16 = (\<lambda>bs v. case bs of a # b # r \<Rightarrow> Some (hi8 v # lo8 v # r) | _ \<Rightarrow> None)\<rparr>"

lemma length_ge_2_conv: "2 \<le> length xs \<longleftrightarrow> (\<exists>a b r. xs = a # b # r)"
  by (cases xs; cases "tl xs") auto

lemma length_ge_4_conv: "4 \<le> length xs \<longleftrightarrow> (\<exists>a b c d r. xs = a # b # c # d # r)"
  by (cases xs; cases "tl xs"; cases "tl (tl xs)"; cases "tl (tl (tl xs))") auto

interpretation network: big_endian network
proof unfold_locales
  fix bs :: bytes and v :: u16
  show "length bs < 2 \<Longrightarrow> bo_read_u16 network bs = None"
    "length bs < 2 \<Longrightarrow> bo_write_u16 network bs v = None"
    by (auto simp: network_def split: list.splits)
  show "length bs < 4 \<Longrightarrow> bo_read_u32 network bs = None"
    by (auto simp: network_def split: list.splits)
  show "2 \<le> length bs \<Longrightarrow> bo_read_u16 network bs = Some (be16 (bs ! 0) (bs ! 1))"
    "2 \<le> length bs \<Longrightarrow> bo_write_u16 network bs v = Some (hi8 v # lo8 v # drop 2 bs)"
    by (auto simp: network_def length_ge_2_conv)
  show "4 \<le> length bs \<Longrightarrow>
      bo_read_u32 network bs = Some (be32 (bs ! 0) (bs ! 1) (bs ! 2) (bs ! 3))"
    by (auto simp: network_def length_ge_4_conv)
qed

end
