(* ===== verification/Dns_Enums.thy ===== *)
theory Dns_Enums
  imports Easy_Prelude
begin

text \<open>
  \<^verbatim>\<open>dns_parser/error.rs\<close> and \<^verbatim>\<open>dns_parser/enums.rs\<close>: the error type, the numbered enumerations with
  their discriminants (\<^verbatim>\<open>x as u16\<close>), and the conversions from and to wire codes.
\<close>

section \<open>Errors\<close>

datatype dns_error =
    BadPointer
  | HeaderTooShort
  | UnexpectedEOF
  | WrongRdataLength
  | ReservedBitsAreNonZero
  | UnknownLabelFormat
  | InvalidQueryType u16
  | InvalidQueryClass u16
  | InvalidType u16
  | InvalidClass u16
  | LabelIsNotAscii
  | TxtDataIsNotUTF8 nat
  | WrongState
  | AdditionalOPT

text \<open>The descriptions; of the \<^verbatim>\<open>Utf8Error\<close> the model keeps how many bytes were valid.\<close>

fun error_description :: "dns_error \<Rightarrow> string" where
  "error_description BadPointer = ''invalid compression pointer not pointing backwards when parsing label''"
| "error_description HeaderTooShort = ''packet is smaller than header size''"
| "error_description UnexpectedEOF = ''packet is has incomplete data''"
| "error_description WrongRdataLength = ''wrong (too short or too long) size of RDATA''"
| "error_description ReservedBitsAreNonZero = ''packet has non-zero reserved bits''"
| "error_description UnknownLabelFormat = ''label in domain name has unknown label format''"
| "error_description (InvalidQueryType _) = ''query type code is invalid''"
| "error_description (InvalidQueryClass _) = ''query class code is invalid''"
| "error_description (InvalidType _) = ''type code is invalid''"
| "error_description (InvalidClass _) = ''class code is invalid''"
| "error_description LabelIsNotAscii = ''invalid characters encountered while reading label''"
| "error_description (TxtDataIsNotUTF8 _) = ''invalid characters encountered while reading TXT''"
| "error_description WrongState = ''parser is in the wrong state''"
| "error_description AdditionalOPT = ''additional OPT record found''"

section \<open>Enumerations\<close>

datatype dns_type =
    T_A | T_NS | T_MF | T_CNAME | T_SOA | T_MB | T_MG | T_MR | T_NULL | T_WKS | T_PTR | T_HINFO
  | T_MINFO | T_MX | T_TXT | T_AAAA | T_SRV | T_OPT

fun type_code :: "dns_type \<Rightarrow> u16" where
  "type_code T_A = 1" | "type_code T_NS = 2" | "type_code T_MF = 4" | "type_code T_CNAME = 5"
| "type_code T_SOA = 6" | "type_code T_MB = 7" | "type_code T_MG = 8" | "type_code T_MR = 9"
| "type_code T_NULL = 10" | "type_code T_WKS = 11" | "type_code T_PTR = 12"
| "type_code T_HINFO = 13" | "type_code T_MINFO = 14" | "type_code T_MX = 15"
| "type_code T_TXT = 16" | "type_code T_AAAA = 28" | "type_code T_SRV = 33"
| "type_code T_OPT = 41"

datatype query_type =
    Q_A | Q_NS | Q_MF | Q_CNAME | Q_SOA | Q_MB | Q_MG | Q_MR | Q_NULL | Q_WKS | Q_PTR | Q_HINFO
  | Q_MINFO | Q_MX | Q_TXT | Q_AAAA | Q_SRV | Q_AXFR | Q_MAILB | Q_MAILA | Q_All

fun query_type_code :: "query_type \<Rightarrow> u16" where
  "query_type_code Q_A = 1" | "query_type_code Q_NS = 2" | "query_type_code Q_MF = 4"
| "query_type_code Q_CNAME = 5" | "query_type_code Q_SOA = 6" | "query_type_code Q_MB = 7"
| "query_type_code Q_MG = 8" | "query_type_code Q_MR = 9" | "query_type_code Q_NULL = 10"
| "query_type_code Q_WKS = 11" | "query_type_code Q_PTR = 12" | "query_type_code Q_HINFO = 13"
| "query_type_code Q_MINFO = 14" | "query_type_code Q_MX = 15" | "query_type_code Q_TXT = 16"
| "query_type_code Q_AAAA = 28" | "query_type_code Q_SRV = 33" | "query_type_code Q_AXFR = 252"
| "query_type_code Q_MAILB = 253" | "query_type_code Q_MAILA = 254"
| "query_type_code Q_All = 255"

datatype dns_class = C_IN | C_CS | C_CH | C_HS

fun class_code :: "dns_class \<Rightarrow> u16" where
  "class_code C_IN = 1" | "class_code C_CS = 2" | "class_code C_CH = 3" | "class_code C_HS = 4"

datatype query_class = QC_IN | QC_CS | QC_CH | QC_HS | QC_Any

fun query_class_code :: "query_class \<Rightarrow> u16" where
  "query_class_code QC_IN = 1" | "query_class_code QC_CS = 2" | "query_class_code QC_CH = 3"
| "query_class_code QC_HS = 4" | "query_class_code QC_Any = 255"

datatype opcode = StandardQuery | InverseQuery | ServerStatusRequest | OpReserved u16

datatype response_code =
  NoError | FormatError | ServerFailure | NameError | NotImplemented | Refused | RcReserved u8

section \<open>Conversions\<close>

definition opcode_from :: "u16 \<Rightarrow> opcode" where
  "opcode_from code =
     (if code = 0 then StandardQuery
      else if code = 1 then InverseQuery
      else if code = 2 then ServerStatusRequest
      else OpReserved code)"

fun opcode_into :: "opcode \<Rightarrow> u16" where
  "opcode_into StandardQuery = 0"
| "opcode_into InverseQuery = 1"
| "opcode_into ServerStatusRequest = 2"
| "opcode_into (OpReserved x) = x"

definition response_code_from :: "u8 \<Rightarrow> ('e, response_code) res" where
  "response_code_from code =
     (if code = 0 then Ok NoError
      else if code = 1 then Ok FormatError
      else if code = 2 then Ok ServerFailure
      else if code = 3 then Ok NameError
      else if code = 4 then Ok NotImplemented
      else if code = 5 then Ok Refused
      else if 6 \<le> code \<and> code \<le> 15 then Ok (RcReserved code)
      else Panic)"

fun response_code_into :: "response_code \<Rightarrow> u8" where
  "response_code_into NoError = 0"
| "response_code_into FormatError = 1"
| "response_code_into ServerFailure = 2"
| "response_code_into NameError = 3"
| "response_code_into NotImplemented = 4"
| "response_code_into Refused = 5"
| "response_code_into (RcReserved code) = code"

definition query_type_parse :: "u16 \<Rightarrow> (dns_error, query_type) res" where
  "query_type_parse code =
     (if code = 1 then Ok Q_A else if code = 2 then Ok Q_NS else if code = 4 then Ok Q_MF
      else if code = 5 then Ok Q_CNAME else if code = 6 then Ok Q_SOA else if code = 7 then Ok Q_MB
      else if code = 8 then Ok Q_MG else if code = 9 then Ok Q_MR else if code = 10 then Ok Q_NULL
      else if code = 11 then Ok Q_WKS else if code = 12 then Ok Q_PTR
      else if code = 13 then Ok Q_HINFO else if code = 14 then Ok Q_MINFO
      else if code = 15 then Ok Q_MX else if code = 16 then Ok Q_TXT
      else if code = 28 then Ok Q_AAAA else if code = 33 then Ok Q_SRV
      else if code = 252 then Ok Q_AXFR else if code = 253 then Ok Q_MAILB
      else if code = 254 then Ok Q_MAILA else if code = 255 then Ok Q_All
      else Err (InvalidQueryType code))"

definition query_class_parse :: "u16 \<Rightarrow> (dns_error, query_class) res" where
  "query_class_parse code =
     (if code = 1 then Ok QC_IN else if code = 2 then Ok QC_CS else if code = 3 then Ok QC_CH
      else if code = 4 then Ok QC_HS else if code = 255 then Ok QC_Any
      else Err (InvalidQueryClass code))"

definition type_parse :: "u16 \<Rightarrow> (dns_error, dns_type) res" where
  "type_parse code =
     (if code = 1 then Ok T_A else if code = 2 then Ok T_NS else if code = 4 then Ok T_MF
      else if code = 5 then Ok T_CNAME else if code = 6 then Ok T_SOA else if code = 7 then Ok T_MB
      else if code = 8 then Ok T_MG else if code = 9 then Ok T_MR else if code = 10 then Ok T_NULL
      else if code = 11 then Ok T_WKS else if code = 12 then Ok T_PTR
      else if code = 13 then Ok T_HINFO else if code = 14 then Ok T_MINFO
      else if code = 15 then Ok T_MX else if code = 16 then Ok T_TXT
      else if code = 28 then Ok T_AAAA else if code = 33 then Ok T_SRV
      else if code = 41 then Ok T_OPT
      else Err (InvalidType code))"

definition class_parse :: "u16 \<Rightarrow> (dns_error, dns_class) res" where
  "class_parse code =
     (if code = 1 then Ok C_IN else if code = 2 then Ok C_CS else if code = 3 then Ok C_CH
      else if code = 4 then Ok C_HS
      else Err (InvalidClass code))"

section \<open>Wire codes and enumerations correspond\<close>

text \<open>
  Each pair of a parser and a discriminant function is a wire-code interface: the parser inverts the
  discriminants, rejects every other code with an error that names the code, and never panics.
\<close>

locale wire_code =
  fixes parse :: "u16 \<Rightarrow> (dns_error, 'a) res" and code :: "'a \<Rightarrow> u16" and invalid :: "u16 \<Rightarrow> dns_error"
  assumes parse_code: "parse (code x) = Ok x"
    and code_parse: "parse c = Ok x \<Longrightarrow> code x = c"
    and parse_error: "parse c = Err e \<Longrightarrow> e = invalid c"
    and parse_not_panic: "parse c \<noteq> Panic"
begin

lemma parse_Ok_iff: "parse c = Ok x \<longleftrightarrow> c = code x"
  using parse_code code_parse by metis

lemma code_inj: "code x = code y \<Longrightarrow> x = y"
  by (metis parse_code res.inject(1))

lemma parse_Err_iff: "parse c = Err e \<longleftrightarrow> e = invalid c \<and> (\<forall>x. code x \<noteq> c)"
  by (cases "parse c") (auto dest: code_parse parse_error simp: parse_not_panic parse_code)

end

interpretation query_type_wire: wire_code query_type_parse query_type_code InvalidQueryType
proof unfold_locales
  fix x c e
  show "query_type_parse (query_type_code x) = Ok x"
    by (cases x) (simp_all add: query_type_parse_def)
  show "query_type_parse c = Ok x \<Longrightarrow> query_type_code x = c"
    by (auto simp: query_type_parse_def split: if_splits)
  show "query_type_parse c = Err e \<Longrightarrow> e = InvalidQueryType c"
    by (auto simp: query_type_parse_def split: if_splits)
  show "query_type_parse c \<noteq> Panic"
    by (auto simp: query_type_parse_def split: if_splits)
qed

interpretation query_class_wire: wire_code query_class_parse query_class_code InvalidQueryClass
proof unfold_locales
  fix x c e
  show "query_class_parse (query_class_code x) = Ok x"
    by (cases x) (simp_all add: query_class_parse_def)
  show "query_class_parse c = Ok x \<Longrightarrow> query_class_code x = c"
    by (auto simp: query_class_parse_def split: if_splits)
  show "query_class_parse c = Err e \<Longrightarrow> e = InvalidQueryClass c"
    by (auto simp: query_class_parse_def split: if_splits)
  show "query_class_parse c \<noteq> Panic"
    by (auto simp: query_class_parse_def split: if_splits)
qed

interpretation type_wire: wire_code type_parse type_code InvalidType
proof unfold_locales
  fix x c e
  show "type_parse (type_code x) = Ok x"
    by (cases x) (simp_all add: type_parse_def)
  show "type_parse c = Ok x \<Longrightarrow> type_code x = c"
    by (auto simp: type_parse_def split: if_splits)
  show "type_parse c = Err e \<Longrightarrow> e = InvalidType c"
    by (auto simp: type_parse_def split: if_splits)
  show "type_parse c \<noteq> Panic"
    by (auto simp: type_parse_def split: if_splits)
qed

interpretation class_wire: wire_code class_parse class_code InvalidClass
proof unfold_locales
  fix x c e
  show "class_parse (class_code x) = Ok x"
    by (cases x) (simp_all add: class_parse_def)
  show "class_parse c = Ok x \<Longrightarrow> class_code x = c"
    by (auto simp: class_parse_def split: if_splits)
  show "class_parse c = Err e \<Longrightarrow> e = InvalidClass c"
    by (auto simp: class_parse_def split: if_splits)
  show "class_parse c \<noteq> Panic"
    by (auto simp: class_parse_def split: if_splits)
qed

lemmas wire_no_panic [no_panic] =
  query_type_wire.parse_not_panic query_class_wire.parse_not_panic
  type_wire.parse_not_panic class_wire.parse_not_panic

section \<open>Operation and response codes\<close>

text \<open>The codes a well-formed value can carry: the four-bit range of the wire.\<close>

fun wf_opcode :: "opcode \<Rightarrow> bool" where
  "wf_opcode (OpReserved x) \<longleftrightarrow> 3 \<le> x \<and> x < 16"
| "wf_opcode _ \<longleftrightarrow> True"

fun wf_response_code :: "response_code \<Rightarrow> bool" where
  "wf_response_code (RcReserved x) \<longleftrightarrow> 6 \<le> x \<and> x \<le> 15"
| "wf_response_code _ \<longleftrightarrow> True"

lemma opcode_into_from [simp]: "opcode_into (opcode_from c) = c"
  by (simp add: opcode_from_def)

lemma opcode_from_into: "wf_opcode oc \<Longrightarrow> opcode_from (opcode_into oc) = oc"
  by (cases oc) (auto simp: opcode_from_def word_le_nat_alt)

lemma opcode_into_less: "wf_opcode oc \<Longrightarrow> opcode_into oc < 16"
  by (cases oc) auto

lemma response_code_from_into:
  "wf_response_code rc \<Longrightarrow> response_code_from (response_code_into rc) = Ok rc"
  by (cases rc) (auto simp: response_code_from_def word_le_nat_alt)

lemma response_code_into_less: "wf_response_code rc \<Longrightarrow> response_code_into rc < 16"
  by (cases rc) (auto simp: word_le_nat_alt word_less_nat_alt)

lemma response_code_from_Ok_iff:
  "response_code_from c = Ok rc \<longleftrightarrow> wf_response_code rc \<and> c = response_code_into rc"
proof
  assume "response_code_from c = Ok rc"
  then show "wf_response_code rc \<and> c = response_code_into rc"
    by (auto simp: response_code_from_def split: if_splits)
qed (auto simp: response_code_from_into)

lemma not_small_u8: "(c::u8) \<noteq> 0 \<Longrightarrow> c \<noteq> 1 \<Longrightarrow> c \<noteq> 2 \<Longrightarrow> c \<noteq> 3 \<Longrightarrow> c \<noteq> 4 \<Longrightarrow> c \<noteq> 5 \<Longrightarrow> 6 \<le> c"
  by (simp add: word_le_nat_alt word_unat_eq_iff)

lemma response_code_from_nibble: "c < 16 \<Longrightarrow> \<exists>rc. response_code_from c = Ok rc \<and> wf_response_code rc"
  using not_small_u8 [of c]
  by (auto simp: response_code_from_def word_le_nat_alt word_less_nat_alt)

end
