(* ===== verification/Dns_Header.thy ===== *)
theory Dns_Header
  imports Byte_Order Dns_Enums
begin

text \<open>
  \<^verbatim>\<open>dns_parser/header.rs\<close>: the twelve-byte packet header, its parser, its writer and
  \<^verbatim>\<open>set_truncated\<close>.  The lemmas relate the two directions bit by bit: what survives
  writing and parsing, and which bits \<^verbatim>\<open>write\<close> loses.
\<close>

section \<open>Flags\<close>

definition flag_QUERY :: u16 where "flag_QUERY = 0b1000000000000000"
definition flag_OPCODE_MASK :: u16 where "flag_OPCODE_MASK = 0b0111100000000000"
definition flag_AUTHORITATIVE :: u16 where "flag_AUTHORITATIVE = 0b0000010000000000"
definition flag_TRUNCATED :: u16 where "flag_TRUNCATED = 0b0000001000000000"
definition flag_RECURSION_DESIRED :: u16 where "flag_RECURSION_DESIRED = 0b0000000100000000"
definition flag_RECURSION_AVAILABLE :: u16 where "flag_RECURSION_AVAILABLE = 0b0000000010000000"
definition flag_AUTHENTICATED_DATA :: u16 where "flag_AUTHENTICATED_DATA = 0b0000000000100000"
definition flag_CHECKING_DISABLED :: u16 where "flag_CHECKING_DISABLED = 0b0000000000010000"
definition flag_RESERVED_MASK :: u16 where "flag_RESERVED_MASK = 0b0000000001000000"
definition flag_RESPONSE_CODE_MASK :: u16 where "flag_RESPONSE_CODE_MASK = 0b0000000000001111"

lemmas flag_defs =
  flag_QUERY_def flag_OPCODE_MASK_def flag_AUTHORITATIVE_def flag_TRUNCATED_def
  flag_RECURSION_DESIRED_def flag_RECURSION_AVAILABLE_def flag_AUTHENTICATED_DATA_def
  flag_CHECKING_DISABLED_def flag_RESERVED_MASK_def flag_RESPONSE_CODE_MASK_def

text \<open>The shift by \<open>11\<close> below is \<^verbatim>\<open>flag::OPCODE_MASK.trailing_zeros()\<close>.\<close>

section \<open>The header and its operations\<close>

record header =
  h_id :: u16
  h_query :: bool
  h_opcode :: opcode
  h_authoritative :: bool
  h_truncated :: bool
  h_recursion_desired :: bool
  h_recursion_available :: bool
  h_authenticated_data :: bool
  h_checking_disabled :: bool
  h_response_code :: response_code
  h_questions :: u16
  h_answers :: u16
  h_nameservers :: u16
  h_additional :: u16

text \<open>\<^verbatim>\<open>BigEndian::read_u16(&data[a..b])\<close>.\<close>

definition read_u16_at :: "byteorder \<Rightarrow> bytes \<Rightarrow> nat \<Rightarrow> nat \<Rightarrow> ('e, u16) res" where
  "read_u16_at bo data a b = bindR (slice_range data a b) (read_u16 bo)"

definition read_u32_at :: "byteorder \<Rightarrow> bytes \<Rightarrow> nat \<Rightarrow> nat \<Rightarrow> ('e, u32) res" where
  "read_u32_at bo data a b = bindR (slice_range data a b) (read_u32 bo)"

definition header_size :: nat where "header_size = 12"

definition header_parse :: "byteorder \<Rightarrow> bytes \<Rightarrow> (dns_error, header) res" where
  "header_parse bo data =
    (if length data < 12 then Err HeaderTooShort
     else
       bindR (read_u16_at bo data 2 4) (\<lambda>flags.
       if flags AND flag_RESERVED_MASK \<noteq> 0 then Err ReservedBitsAreNonZero
       else
       bindR (bindR (slice_to data 2) (read_u16 bo)) (\<lambda>i.
       bindR (response_code_from (ucast (flags AND flag_RESPONSE_CODE_MASK))) (\<lambda>rc.
       bindR (read_u16_at bo data 4 6) (\<lambda>qd.
       bindR (read_u16_at bo data 6 8) (\<lambda>an.
       bindR (read_u16_at bo data 8 10) (\<lambda>ns.
       bindR (read_u16_at bo data 10 12) (\<lambda>ar.
       Ok \<lparr>h_id = i,
           h_query = (flags AND flag_QUERY = 0),
           h_opcode = opcode_from (drop_bit 11 (flags AND flag_OPCODE_MASK)),
           h_authoritative = (flags AND flag_AUTHORITATIVE \<noteq> 0),
           h_truncated = (flags AND flag_TRUNCATED \<noteq> 0),
           h_recursion_desired = (flags AND flag_RECURSION_DESIRED \<noteq> 0),
           h_recursion_available = (flags AND flag_RECURSION_AVAILABLE \<noteq> 0),
           h_authenticated_data = (flags AND flag_AUTHENTICATED_DATA \<noteq> 0),
           h_checking_disabled = (flags AND flag_CHECKING_DISABLED \<noteq> 0),
           h_response_code = rc,
           h_questions = qd, h_answers = an, h_nameservers = ns, h_additional = ar\<rparr>))))))))"

text \<open>The flag word that \<^verbatim>\<open>write\<close> assembles.\<close>

definition header_flags :: "header \<Rightarrow> u16" where
  "header_flags h =
    (let f0 = 0 OR push_bit 11 (opcode_into (h_opcode h));
         f1 = f0 OR ucast (response_code_into (h_response_code h));
         f2 = (if \<not> h_query h then f1 OR flag_QUERY else f1);
         f3 = (if h_authoritative h then f2 OR flag_AUTHORITATIVE else f2);
         f4 = (if h_recursion_desired h then f3 OR flag_RECURSION_DESIRED else f3);
         f5 = (if h_recursion_available h then f4 OR flag_RECURSION_AVAILABLE else f4)
     in (if h_truncated h then f5 OR flag_TRUNCATED else f5))"

definition header_write :: "byteorder \<Rightarrow> header \<Rightarrow> bytes \<Rightarrow> (dns_error, bytes) res" where
  "header_write bo h data =
    (if length data \<noteq> 12 then Panic
     else
       bindR (write_u16 bo data 0 2 (h_id h)) (\<lambda>d.
       bindR (write_u16 bo d 2 4 (header_flags h)) (\<lambda>d.
       bindR (write_u16 bo d 4 6 (h_questions h)) (\<lambda>d.
       bindR (write_u16 bo d 6 8 (h_answers h)) (\<lambda>d.
       bindR (write_u16 bo d 8 10 (h_nameservers h)) (\<lambda>d.
       write_u16 bo d 10 12 (h_additional h)))))))"

definition set_truncated :: "byteorder \<Rightarrow> bytes \<Rightarrow> (dns_error, bytes) res" where
  "set_truncated bo data =
     bindR (read_u16_at bo data 2 4) (\<lambda>oldflags.
     write_u16 bo data 2 4 (oldflags AND flag_TRUNCATED))"

section \<open>Bits of the flag word\<close>

lemma bit_small_nat: "(m::nat) < 2 ^ k \<Longrightarrow> bit m n \<Longrightarrow> n < k"
proof (rule ccontr)
  assume m: "m < 2 ^ k" and b: "bit m n" and "\<not> n < k"
  then have "m < 2 ^ n" using power_increasing [of k n "2::nat"] by linarith
  then show False using b by (simp add: bit_iff_odd)
qed

lemma bit_small_u16: "(w::u16) < 16 \<Longrightarrow> bit w n \<Longrightarrow> n < 4"
  by (rule bit_small_nat [of "unat w"]) (auto simp: word_less_nat_alt bit_unsigned_iff)

lemma bit_small_u8: "(w::u8) < 16 \<Longrightarrow> bit w n \<Longrightarrow> n < 4"
  by (rule bit_small_nat [of "unat w"]) (auto simp: word_less_nat_alt bit_unsigned_iff)

lemma and_single_bit: "(w::'a::len word) AND 2 ^ k \<noteq> 0 \<longleftrightarrow> bit w k"
  by (simp add: and_exp_eq_0_iff_not_bit)

lemma flag_powers:
  "flag_QUERY = 2 ^ 15" "flag_AUTHORITATIVE = 2 ^ 10" "flag_TRUNCATED = 2 ^ 9"
  "flag_RECURSION_DESIRED = 2 ^ 8" "flag_RECURSION_AVAILABLE = 2 ^ 7"
  "flag_RESERVED_MASK = 2 ^ 6" "flag_AUTHENTICATED_DATA = 2 ^ 5" "flag_CHECKING_DISABLED = 2 ^ 4"
  "flag_OPCODE_MASK = push_bit 11 (mask 4)" "flag_RESPONSE_CODE_MASK = mask 4"
  by (simp_all add: flag_defs mask_eq_exp_minus_1 push_bit_eq_mult)

lemma flag_tests:
  fixes w :: u16
  shows "w AND flag_QUERY = 0 \<longleftrightarrow> \<not> bit w 15" "w AND flag_AUTHORITATIVE = 0 \<longleftrightarrow> \<not> bit w 10"
    "w AND flag_TRUNCATED = 0 \<longleftrightarrow> \<not> bit w 9" "w AND flag_RECURSION_DESIRED = 0 \<longleftrightarrow> \<not> bit w 8"
    "w AND flag_RECURSION_AVAILABLE = 0 \<longleftrightarrow> \<not> bit w 7" "w AND flag_RESERVED_MASK = 0 \<longleftrightarrow> \<not> bit w 6"
    "w AND flag_AUTHENTICATED_DATA = 0 \<longleftrightarrow> \<not> bit w 5" "w AND flag_CHECKING_DISABLED = 0 \<longleftrightarrow> \<not> bit w 4"
  using and_single_bit [of w 15] and_single_bit [of w 10] and_single_bit [of w 9]
    and_single_bit [of w 8] and_single_bit [of w 7] and_single_bit [of w 6] and_single_bit [of w 5]
    and_single_bit [of w 4]
  unfolding flag_powers by auto

lemma opcode_field: "drop_bit 11 (w AND flag_OPCODE_MASK) = take_bit 4 (drop_bit 11 (w::u16))"
  unfolding flag_powers by (rule bit_word_eqI) (auto simp: bit_simps)

lemmas opcode_field' = opcode_field [unfolded drop_bit_and]

lemma response_field: "ucast (w AND flag_RESPONSE_CODE_MASK) = (take_bit 4 (ucast (w::u16)) :: u8)"
  unfolding flag_powers by (rule bit_word_eqI) (auto simp: bit_simps)

lemma take_bit_4_less: "take_bit 4 (b::u8) < 16"
  by (simp add: word_less_nat_alt unsigned_take_bit_eq take_bit_nat_less_exp [where n = 4, simplified])

definition wf_header :: "header \<Rightarrow> bool" where
  "wf_header h \<longleftrightarrow> wf_opcode (h_opcode h) \<and> wf_response_code (h_response_code h)"

lemma bit_or_if: "bit (if c then x OR y else x) n \<longleftrightarrow> bit x n \<or> c \<and> bit (y :: u16) n"
  by (simp add: bit_or_iff)

lemma bit_header_flags:
  "bit (header_flags h) n \<longleftrightarrow>
     11 \<le> n \<and> n < 16 \<and> bit (opcode_into (h_opcode h)) (n - 11)
     \<or> n < 8 \<and> bit (response_code_into (h_response_code h)) n
     \<or> \<not> h_query h \<and> n = 15 \<or> h_authoritative h \<and> n = 10 \<or> h_recursion_desired h \<and> n = 8
     \<or> h_recursion_available h \<and> n = 7 \<or> h_truncated h \<and> n = 9"
proof -
  have rc: "bit (ucast (response_code_into (h_response_code h)) :: u16) n
      \<longleftrightarrow> n < 8 \<and> bit (response_code_into (h_response_code h)) n"
    by (auto simp: bit_simps dest: bit_imp_le_length)
  have oc: "bit (push_bit 11 (opcode_into (h_opcode h))) n
      \<longleftrightarrow> 11 \<le> n \<and> n < 16 \<and> bit (opcode_into (h_opcode h)) (n - 11)"
    by (auto simp: bit_simps)
  have single: "bit (2 ^ 15 :: u16) n \<longleftrightarrow> n = 15" "bit (2 ^ 10 :: u16) n \<longleftrightarrow> n = 10"
    "bit (2 ^ 8 :: u16) n \<longleftrightarrow> n = 8" "bit (2 ^ 7 :: u16) n \<longleftrightarrow> n = 7" "bit (2 ^ 9 :: u16) n \<longleftrightarrow> n = 9"
    by (auto simp only: bit_exp_iff possible_bit_word) simp_all
  show ?thesis
    unfolding header_flags_def Let_def flag_powers bit_or_if or.left_neutral bit_or_iff rc oc single
    by (simp add: disj_assoc)
qed

lemma opcode_bits: "wf_header h \<Longrightarrow> bit (opcode_into (h_opcode h)) n \<Longrightarrow> n < 4"
  using bit_small_u16 opcode_into_less unfolding wf_header_def by blast

lemma response_bits: "wf_header h \<Longrightarrow> bit (response_code_into (h_response_code h)) n \<Longrightarrow> n < 4"
  using bit_small_u8 response_code_into_less unfolding wf_header_def by blast

lemma flags_opcode:
  assumes "wf_header h"
  shows "take_bit 4 (drop_bit 11 (header_flags h)) = opcode_into (h_opcode h)"
proof (rule bit_word_eqI)
  fix n assume n: "n < LENGTH(16)"
  show "bit (take_bit 4 (drop_bit 11 (header_flags h))) n = bit (opcode_into (h_opcode h)) n"
  proof (cases "n < 4")
    case True
    then have "bit (header_flags h) (11 + n) \<longleftrightarrow> bit (opcode_into (h_opcode h)) n \<or> \<not> h_query h \<and> n = 4"
      by (simp add: bit_header_flags)
    with True show ?thesis by (simp add: bit_simps)
  next
    case False
    then show ?thesis using opcode_bits [OF assms] by (auto simp: bit_simps)
  qed
qed

lemma flags_response:
  assumes "wf_header h"
  shows "take_bit 4 (ucast (header_flags h)) = response_code_into (h_response_code h)"
proof (rule bit_word_eqI)
  fix n assume n: "n < LENGTH(8)"
  show "bit (take_bit 4 (ucast (header_flags h)) :: u8) n = bit (response_code_into (h_response_code h)) n"
  proof (cases "n < 4")
    case True
    then show ?thesis by (simp add: bit_simps bit_header_flags)
  next
    case False
    then show ?thesis using response_bits [OF assms] by (auto simp: bit_simps)
  qed
qed

lemma flags_single:
  assumes "wf_header h"
  shows "bit (header_flags h) 15 \<longleftrightarrow> \<not> h_query h" "bit (header_flags h) 10 \<longleftrightarrow> h_authoritative h"
    "bit (header_flags h) 9 \<longleftrightarrow> h_truncated h" "bit (header_flags h) 8 \<longleftrightarrow> h_recursion_desired h"
    "bit (header_flags h) 7 \<longleftrightarrow> h_recursion_available h" "\<not> bit (header_flags h) 6"
    "\<not> bit (header_flags h) 5" "\<not> bit (header_flags h) 4"
  using opcode_bits [OF assms, of 4] response_bits [OF assms, of 4] response_bits [OF assms, of 5]
    response_bits [OF assms, of 6] response_bits [OF assms, of 7]
  by (auto simp: bit_header_flags)

section \<open>Parsing and writing\<close>

text \<open>The header that a flag word and the five other fields denote.\<close>

definition header_of :: "u16 \<Rightarrow> response_code \<Rightarrow> u16 \<Rightarrow> u16 \<Rightarrow> u16 \<Rightarrow> u16 \<Rightarrow> u16 \<Rightarrow> header" where
  "header_of flags rc i qd an ns ar =
     \<lparr>h_id = i, h_query = (\<not> bit flags 15), h_opcode = opcode_from (take_bit 4 (drop_bit 11 flags)),
      h_authoritative = bit flags 10, h_truncated = bit flags 9, h_recursion_desired = bit flags 8,
      h_recursion_available = bit flags 7, h_authenticated_data = bit flags 5,
      h_checking_disabled = bit flags 4, h_response_code = rc,
      h_questions = qd, h_answers = an, h_nameservers = ns, h_additional = ar\<rparr>"

definition flags_of :: "bytes \<Rightarrow> u16" where
  "flags_of data = be16 (data ! 2) (data ! 3)"

context big_endian
begin

lemma read_u16_at_in [slice_simps]:
  "b = a + 2 \<Longrightarrow> b \<le> length data \<Longrightarrow> read_u16_at bo data a b = Ok (be16 (data ! a) (data ! Suc a))"
  by (simp add: read_u16_at_def slice_simps take_drop_nth2)

lemma read_u32_at_in [slice_simps]:
  "b = a + 4 \<Longrightarrow> b \<le> length data \<Longrightarrow>
   read_u32_at bo data a b = Ok (be32 (data ! a) (data ! (a + 1)) (data ! (a + 2)) (data ! (a + 3)))"
  by (simp add: read_u32_at_def slice_in read_u32_in)

lemma read_u16_at_lit:
  assumes "12 \<le> length data"
  shows "read_u16_at bo data 2 4 = Ok (flags_of data)"
    "bindR (slice_to data 2) (read_u16 bo) = Ok (be16 (data ! 0) (data ! 1))"
    "read_u16_at bo data 4 6 = Ok (be16 (data ! 4) (data ! 5))"
    "read_u16_at bo data 6 8 = Ok (be16 (data ! 6) (data ! 7))"
    "read_u16_at bo data 8 10 = Ok (be16 (data ! 8) (data ! 9))"
    "read_u16_at bo data 10 12 = Ok (be16 (data ! 10) (data ! 11))"
  using assms by (simp_all add: slice_simps flags_of_def)

lemma header_parse_eq:
  assumes "12 \<le> length data"
  shows "header_parse bo data =
    (if bit (flags_of data) 6 then Err ReservedBitsAreNonZero
     else bindR (response_code_from (take_bit 4 (ucast (flags_of data)))) (\<lambda>rc.
       Ok (header_of (flags_of data) rc (be16 (data ! 0) (data ! 1)) (be16 (data ! 4) (data ! 5))
         (be16 (data ! 6) (data ! 7)) (be16 (data ! 8) (data ! 9)) (be16 (data ! 10) (data ! 11)))))"
  using assms
  by (simp add: header_parse_def read_u16_at_lit flag_tests opcode_field' response_field header_of_def)

lemma header_parse_no_panic [no_panic]: "header_parse bo data \<noteq> Panic"
proof (cases "length data < 12")
  case False
  obtain rc where
    "(response_code_from (take_bit 4 (ucast (flags_of data))) :: (dns_error, response_code) res) = Ok rc"
    using response_code_from_nibble [OF take_bit_4_less] by blast
  with False show ?thesis by (simp add: header_parse_eq)
qed (simp add: header_parse_def)

lemma header_parse_Ok_D:
  assumes "header_parse bo data = Ok h"
  shows "12 \<le> length data" "wf_header h" "\<not> bit (flags_of data) 6"
    "h_questions h = be16 (data ! 4) (data ! 5)" "h_answers h = be16 (data ! 6) (data ! 7)"
    "h_nameservers h = be16 (data ! 8) (data ! 9)" "h_additional h = be16 (data ! 10) (data ! 11)"
proof -
  show len: "12 \<le> length data"
    using assms by (auto simp: header_parse_def split: if_splits)
  have op: "wf_opcode (opcode_from (take_bit 4 w))" for w :: u16
  proof -
    have "take_bit 4 w < 16"
      by (simp add: word_less_nat_alt unsigned_take_bit_eq take_bit_nat_less_exp [where n = 4, simplified])
    then show ?thesis by (auto simp: opcode_from_def word_le_nat_alt word_less_nat_alt word_unat_eq_iff)
  qed
  from assms len show "wf_header h" "\<not> bit (flags_of data) 6"
    "h_questions h = be16 (data ! 4) (data ! 5)" "h_answers h = be16 (data ! 6) (data ! 7)"
    "h_nameservers h = be16 (data ! 8) (data ! 9)" "h_additional h = be16 (data ! 10) (data ! 11)"
    by (auto simp: header_parse_eq header_of_def outcome_simps wf_header_def op
        response_code_from_Ok_iff split: if_splits)
qed

end

definition header_bytes :: "header \<Rightarrow> bytes" where
  "header_bytes h =
     [hi8 (h_id h), lo8 (h_id h), hi8 (header_flags h), lo8 (header_flags h),
      hi8 (h_questions h), lo8 (h_questions h), hi8 (h_answers h), lo8 (h_answers h),
      hi8 (h_nameservers h), lo8 (h_nameservers h), hi8 (h_additional h), lo8 (h_additional h)]"

definition wire_header :: "header \<Rightarrow> header" where
  "wire_header h = h\<lparr>h_authenticated_data := False, h_checking_disabled := False\<rparr>"

lemma flags_of_header_bytes [simp]: "flags_of (header_bytes h @ rest) = header_flags h"
  by (simp add: flags_of_def header_bytes_def)

lemma length_header_bytes [simp]: "length (header_bytes h) = 12"
  by (simp add: header_bytes_def)

lemma header_of_flags: "wf_header h \<Longrightarrow>
    header_of (header_flags h) (h_response_code h) (h_id h) (h_questions h) (h_answers h)
      (h_nameservers h) (h_additional h) = wire_header h"
  by (simp add: header_of_def wire_header_def flags_single flags_opcode opcode_from_into wf_header_def)

context big_endian
begin

lemma header_write_eq: "length data = 12 \<Longrightarrow> header_write bo h data = Ok (header_bytes h)"
proof -
  assume "length data = 12"
  then obtain a0 a1 a2 a3 a4 a5 a6 a7 a8 a9 a10 a11 where
    "data = [a0, a1, a2, a3, a4, a5, a6, a7, a8, a9, a10, a11]"
    by (auto simp: eval_nat_numeral length_Suc_conv)
  then show ?thesis by (simp add: header_write_def write_u16_in header_bytes_def)
qed

lemma header_parse_bytes:
  assumes "wf_header h"
  shows "header_parse bo (header_bytes h @ rest) = Ok (wire_header h)"
proof -
  have fields: "be16 ((header_bytes h @ rest) ! 0) ((header_bytes h @ rest) ! 1) = h_id h"
    "be16 ((header_bytes h @ rest) ! 4) ((header_bytes h @ rest) ! 5) = h_questions h"
    "be16 ((header_bytes h @ rest) ! 6) ((header_bytes h @ rest) ! 7) = h_answers h"
    "be16 ((header_bytes h @ rest) ! 8) ((header_bytes h @ rest) ! 9) = h_nameservers h"
    "be16 ((header_bytes h @ rest) ! 10) ((header_bytes h @ rest) ! 11) = h_additional h"
    by (simp_all add: header_bytes_def)
  have rc: "response_code_from (response_code_into (h_response_code h)) = Ok (h_response_code h)"
    using assms by (simp add: wf_header_def response_code_from_into)
  show ?thesis
    by (simp add: header_parse_eq fields flags_single [OF assms] flags_response [OF assms] rc
        header_of_flags [OF assms] del: One_nat_def)
qed

lemma header_round_trip:
  "wf_header h \<Longrightarrow> length data = 12 \<Longrightarrow>
   bindR (header_write bo h data) (header_parse bo) = Ok (wire_header h)"
  using header_parse_bytes [of h "[]"] by (simp add: header_write_eq)

end

section \<open>Properties\<close>

text \<open>
  C40: writing a well-formed header into twelve bytes and parsing them gives the header back,
  except that the bits \<^verbatim>\<open>authenticated_data\<close> and \<^verbatim>\<open>checking_disabled\<close> come back cleared.
\<close>

theorem header_write_parse:
  assumes "big_endian bo" "wf_header h" "length data = 12"
  shows "bindR (header_write bo h data) (header_parse bo)
    = Ok (h\<lparr>h_authenticated_data := False, h_checking_disabled := False\<rparr>)"
  using big_endian.header_round_trip [OF assms] by (simp add: wire_header_def)

definition example_header :: header where
  "example_header =
     \<lparr>h_id = 0x1234, h_query = False, h_opcode = ServerStatusRequest, h_authoritative = True,
      h_truncated = False, h_recursion_desired = True, h_recursion_available = True,
      h_authenticated_data = True, h_checking_disabled = False, h_response_code = NameError,
      h_questions = 1, h_answers = 2, h_nameservers = 3, h_additional = 4\<rparr>"

theorem header_write_parse_witness:
  "bindR (header_write network example_header (replicate 12 7)) (header_parse network)
    = Ok (example_header\<lparr>h_authenticated_data := False, h_checking_disabled := False\<rparr>)"
  by (rule header_write_parse) (simp_all add: network.big_endian_axioms wf_header_def example_header_def)

text \<open>
  \<^verbatim>\<open>set_truncated\<close> does not set the truncation flag.  On any header it leaves the id and the
  counts alone, keeps the flag as it was, and erases every other flag, so that a header without the
  flag is still not marked as truncated afterwards.
\<close>

theorem set_truncated_only_masks:
  assumes "big_endian bo" "12 \<le> length data"
  shows "\<exists>data'. set_truncated bo data = Ok data' \<and> length data' = length data \<and>
    flags_of data' = flags_of data AND flag_TRUNCATED \<and>
    (\<forall>i. i \<noteq> 2 \<and> i \<noteq> 3 \<longrightarrow> data' ! i = data ! i)"
proof (intro exI conjI)
  let ?v = "flags_of data AND flag_TRUNCATED"
  let ?d = "data[2 := hi8 ?v, 3 := lo8 ?v]"
  show "set_truncated bo data = Ok ?d"
    using assms(2)
    by (simp add: set_truncated_def big_endian.read_u16_at_in [OF assms(1)]
        big_endian.write_u16_in [OF assms(1)] flags_of_def)
  show "flags_of ?d = ?v" using assms(2) by (simp add: flags_of_def)
  show "\<forall>i. i \<noteq> 2 \<and> i \<noteq> 3 \<longrightarrow> ?d ! i = data ! i" by simp
qed simp

theorem set_truncated_only_masks_witness:
  "\<exists>data'. set_truncated network (header_bytes example_header) = Ok data' \<and>
    length data' = length (header_bytes example_header) \<and>
    flags_of data' = flags_of (header_bytes example_header) AND flag_TRUNCATED \<and>
    (\<forall>i. i \<noteq> 2 \<and> i \<noteq> 3 \<longrightarrow> data' ! i = header_bytes example_header ! i)"
  by (rule set_truncated_only_masks) (simp_all add: network.big_endian_axioms)

end
