(* ===== verification/Dns_Name.thy ===== *)
theory Dns_Name
  imports Dns_Header
begin

text \<open>
  \<^verbatim>\<open>dns_parser/name.rs\<close>: validation of a possibly compressed domain name (\<^verbatim>\<open>Name::scan\<close>) and its
  display.  The abstract specification is the syntax tree of a name on the wire (\<open>wire_name\<close>) and
  the relation \<open>decodes\<close> of byte strings to trees; \<^verbatim>\<open>scan\<close> is shown to accept exactly the byte
  strings that decode, to return exactly the bytes the name occupies, never to panic and (its
  pointers move strictly backwards) always to stop; displaying a scanned name terminates without a
  panic and prints the labels of the tree.
\<close>

section \<open>Scanning\<close>

record name =
  labels :: bytes
  original :: bytes

definition byte_len :: "name \<Rightarrow> nat" where
  "byte_len n = length (labels n)"

text \<open>
  The loop of \<^verbatim>\<open>scan\<close>.  Its variables are \<open>parse_data\<close>, \<open>return_pos\<close>, \<open>pos\<close>, \<open>largest_pos\<close> and
  \<open>byte\<close>; \<open>data\<close> and \<open>original\<close> are the arguments of \<^verbatim>\<open>scan\<close>.
\<close>

function scan_loop ::
  "byteorder \<Rightarrow> bytes \<Rightarrow> bytes \<Rightarrow> bytes \<Rightarrow> nat option \<Rightarrow> nat \<Rightarrow> nat \<Rightarrow> u8 \<Rightarrow> (dns_error, name) res"
where
  "scan_loop bo data orig parse_data return_pos pos largest_pos byte =
    (if byte \<noteq> 0 then
       (if length parse_data \<le> pos then Err UnexpectedEOF
        else if byte AND 0b11000000 = 0b11000000 then
          (if length parse_data < pos + 2 then Err UnexpectedEOF
           else bindR (read_u16_at bo parse_data pos (pos + 2)) (\<lambda>w.
             let off = unat (w AND NOT 0b1100000000000000) in
             if length orig \<le> off then Err UnexpectedEOF
             else
               let return_pos' = (case return_pos of None \<Rightarrow> Some pos | Some r \<Rightarrow> Some r) in
               if largest_pos \<le> off then Err BadPointer
               else bindR (slice_from orig off) (\<lambda>parse_data'.
                    bindR (index parse_data' 0) (\<lambda>byte'.
                    scan_loop bo data orig parse_data' return_pos' 0 off byte'))))
        else if byte AND 0b11000000 = 0 then
          (let stop = pos + unat byte + 1 in
           if length parse_data < stop then Err UnexpectedEOF
           else bindR (slice_range parse_data (pos + 1) stop) (\<lambda>l.
             if \<not> is_ascii l then Err LabelIsNotAscii
             else if length parse_data \<le> stop then Err UnexpectedEOF
             else bindR (index parse_data stop) (\<lambda>byte'.
                  scan_loop bo data orig parse_data return_pos stop largest_pos byte')))
        else Err UnknownLabelFormat)
     else
       (case return_pos of
          Some r \<Rightarrow> bindR (slice_to data (r + 2)) (\<lambda>l. Ok \<lparr>labels = l, original = orig\<rparr>)
        | None \<Rightarrow> bindR (slice_to data (pos + 1)) (\<lambda>l. Ok \<lparr>labels = l, original = orig\<rparr>)))"
  by pat_completeness auto
termination
  by (relation "measures [\<lambda>(bo, data, orig, pd, rp, pos, largest, b). largest,
                          \<lambda>(bo, data, orig, pd, rp, pos, largest, b). length pd - pos]")
     (auto simp: Let_def)

declare scan_loop.simps [simp del]

definition name_scan :: "byteorder \<Rightarrow> bytes \<Rightarrow> bytes \<Rightarrow> (dns_error, name) res" where
  "name_scan bo data orig =
    (if length data \<le> 0 then Err UnexpectedEOF
     else bindR (index data 0) (\<lambda>byte. scan_loop bo data orig data None 0 (length orig) byte))"

section \<open>Display\<close>

text \<open>
  \<^verbatim>\<open>fmt::Display for Name\<close>, on a formatter that accepts every write; \<open>out\<close> is what has been written.
  A pointer scans the name it points to again and displays that.  \<^const>\<open>None\<close> would mean that the
  loop does not return, \<^const>\<open>Panic\<close> a failing \<^verbatim>\<open>unwrap\<close>, an index out of range or \<^verbatim>\<open>unreachable!()\<close>.
\<close>

partial_function (option) display_loop ::
  "byteorder \<Rightarrow> bytes \<Rightarrow> bytes \<Rightarrow> nat \<Rightarrow> bytes \<Rightarrow> (dns_error, bytes) res option"
where
  "display_loop bo data orig pos out =
    (case index data pos of
       Panic \<Rightarrow> Some Panic | Err e \<Rightarrow> Some (Err e)
     | Ok byte \<Rightarrow>
        if byte = 0 then Some (Ok out)
        else if byte AND 0b11000000 = 0b11000000 then
          (case read_u16_at bo data pos (pos + 2) of
             Panic \<Rightarrow> Some Panic | Err e \<Rightarrow> Some (Err e)
           | Ok w \<Rightarrow>
              (let off = unat (w AND NOT 0b1100000000000000);
                   out' = (if pos \<noteq> 0 then out @ [0x2E] else out) in
               case bindR (slice_from orig off) (\<lambda>d. unwrapR (name_scan bo d orig)) of
                 Panic \<Rightarrow> Some Panic | Err e \<Rightarrow> Some (Err e)
               | Ok n \<Rightarrow> display_loop bo (labels n) (original n) 0 out'))
        else if byte AND 0b11000000 = 0 then
          (let out' = (if pos \<noteq> 0 then out @ [0x2E] else out);
               stop = pos + unat byte + 1 in
           case bindR (slice_range data (pos + 1) stop) (\<lambda>l. unwrapR (from_utf8 l)) of
             Panic \<Rightarrow> Some Panic | Err e \<Rightarrow> Some (Err e)
           | Ok l \<Rightarrow> display_loop bo data orig stop (out' @ l))
        else Some Panic)"

declare display_loop.simps [code]

definition name_to_string :: "byteorder \<Rightarrow> name \<Rightarrow> (dns_error, bytes) res option" where
  "name_to_string bo n = display_loop bo (labels n) (original n) 0 []"

section \<open>Names on the wire\<close>

datatype wire_name = Root | Label bytes wire_name | Pointer wire_name

definition pointer_offset :: "u8 \<Rightarrow> u8 \<Rightarrow> nat" where
  "pointer_offset b c = unat (be16 b c AND NOT 0b1100000000000000)"

lemma pointer_offset_fold: "unat (be16 b c AND - 49153) = pointer_offset b c"
  by (simp add: pointer_offset_def)

text \<open>
  \<open>decodes orig m bs t\<close>: the bytes \<open>bs\<close> start with a name whose syntax tree is \<open>t\<close>; every pointer
  leads into \<open>orig\<close>, to an offset below \<open>m\<close> and below that of the pointer before it.
\<close>

inductive decodes :: "bytes \<Rightarrow> nat \<Rightarrow> bytes \<Rightarrow> wire_name \<Rightarrow> bool" for orig where
  decodes_Root: "decodes orig m (0 # r) Root"
| decodes_Label: "b \<noteq> 0 \<Longrightarrow> b AND 0b11000000 = 0 \<Longrightarrow> length l = unat b \<Longrightarrow> is_ascii l \<Longrightarrow>
    decodes orig m r t \<Longrightarrow> decodes orig m (b # l @ r) (Label l t)"
| decodes_Pointer: "b AND 0b11000000 = 0b11000000 \<Longrightarrow> pointer_offset b c < length orig \<Longrightarrow>
    pointer_offset b c < m \<Longrightarrow> decodes orig (pointer_offset b c) (drop (pointer_offset b c) orig) t \<Longrightarrow>
    decodes orig m (b # c # r) (Pointer t)"

inductive_cases decodes_RootE: "decodes orig m bs Root"
inductive_cases decodes_LabelE: "decodes orig m bs (Label l t)"
inductive_cases decodes_PointerE: "decodes orig m bs (Pointer t)"

text \<open>The bytes a name occupies, its labels, and the text it displays as.\<close>

fun wire_len :: "wire_name \<Rightarrow> nat" where
  "wire_len Root = 1"
| "wire_len (Label l t) = 1 + length l + wire_len t"
| "wire_len (Pointer t) = 2"

fun wire_labels :: "wire_name \<Rightarrow> bytes list" where
  "wire_labels Root = []"
| "wire_labels (Label l t) = l # wire_labels t"
| "wire_labels (Pointer t) = wire_labels t"

fun wire_text :: "bool \<Rightarrow> wire_name \<Rightarrow> bytes" where
  "wire_text dot Root = []"
| "wire_text dot (Label l t) = (if dot then [0x2E] else []) @ l @ wire_text True t"
| "wire_text dot (Pointer t) = (if dot then [0x2E] else []) @ wire_text False t"

lemma decodes_mono: "decodes orig m bs t \<Longrightarrow> m \<le> m' \<Longrightarrow> decodes orig m' bs t"
  by (induction arbitrary: m' rule: decodes.induct) (auto intro: decodes.intros)

lemma decodes_wire_len: "decodes orig m bs t \<Longrightarrow> 0 < wire_len t \<and> wire_len t \<le> length bs"
  by (induction rule: decodes.induct) auto

lemma drop_eq_ConsD: "drop n xs = y # ys \<Longrightarrow> n < length xs \<and> xs ! n = y \<and> drop (Suc n) xs = ys"
  by (metis Cons_nth_drop_Suc drop_all list.distinct(1) list.inject not_le)

lemma drop_append_step: "drop (Suc a) xs = l @ r \<Longrightarrow> drop (a + length l + 1) xs = r"
proof -
  assume "drop (Suc a) xs = l @ r"
  then have "drop (length l) (drop (Suc a) xs) = r" by simp
  then show ?thesis by (simp add: add.commute)
qed

lemma slice_prefix: "a \<le> length xs \<Longrightarrow> drop a xs = l @ r \<Longrightarrow> slice_range xs a (a + length l) = Ok l"
proof -
  assume a: "a \<le> length xs" and d: "drop a xs = l @ r"
  from a arg_cong [OF d, of length] have "a + length l \<le> length xs" by simp
  then show ?thesis by (simp add: slice_in d)
qed


context big_endian
begin

lemma read_pointer: "drop a xs = b # c # r \<Longrightarrow> read_u16_at bo xs a (a + 2) = Ok (be16 b c)"
proof -
  assume d: "drop a xs = b # c # r"
  have "xs ! a = b" "xs ! Suc a = c" "Suc a < length xs"
    using drop_eq_ConsD [OF d] drop_eq_ConsD [of "Suc a" xs c r] by auto
  then show ?thesis by (simp add: read_u16_at_in)
qed

lemma scan_loop_complete:
  "decodes orig m bs t \<Longrightarrow> drop pos pd = bs \<Longrightarrow>
   scan_loop bo data orig pd rp pos m (pd ! pos) =
     bindR (slice_to data (case rp of Some r \<Rightarrow> r + 2 | None \<Rightarrow> pos + wire_len t))
       (\<lambda>l. Ok \<lparr>labels = l, original = orig\<rparr>)"
proof (induction arbitrary: pd rp pos rule: decodes.induct)
  case (decodes_Root m r)
  then have "pd ! pos = 0" using drop_eq_ConsD by metis
  then show ?case by (subst scan_loop.simps) (simp split: option.split)
next
  case (decodes_Label b l m r t)
  note d = drop_eq_ConsD [OF decodes_Label.prems]
  have sl: "(slice_range pd (pos + 1) (pos + unat b + 1) :: (dns_error, bytes) res) = Ok l"
    using slice_prefix [of "Suc pos" pd l r] d decodes_Label.hyps(3) by (simp add: add.commute add.left_commute)
  have dr: "drop (pos + unat b + 1) pd = r"
    using drop_append_step [of pos _ l] d decodes_Label.hyps(3) by auto
  have "r \<noteq> []" using decodes_wire_len [OF decodes_Label.hyps(5)] by auto
  then have lt: "pos + unat b + 1 < length pd" using dr by (metis drop_all not_le)
  have "scan_loop bo data orig pd rp pos m (pd ! pos)
      = scan_loop bo data orig pd rp (pos + unat b + 1) m (pd ! (pos + unat b + 1))"
    using d decodes_Label.hyps lt sl by (subst scan_loop.simps) (simp add: index_in Let_def)
  also have "\<dots> = bindR (slice_to data (case rp of Some r \<Rightarrow> r + 2 | None \<Rightarrow> pos + unat b + 1 + wire_len t))
       (\<lambda>l. Ok \<lparr>labels = l, original = orig\<rparr>)"
    by (rule decodes_Label.IH [OF dr])
  finally show ?case using decodes_Label.hyps(3) by (simp add: add.commute add.left_commute split: option.split)
next
  case (decodes_Pointer b c m t r)
  note d = drop_eq_ConsD [OF decodes_Pointer.prems]
  note d2 = drop_eq_ConsD [of "Suc pos" pd c r]
  have b0: "b \<noteq> 0" using decodes_Pointer.hyps(1) by auto
  have ne: "drop (pointer_offset b c) orig \<noteq> []" using decodes_Pointer.hyps(2) by simp
  have rd: "(read_u16_at bo pd pos (pos + 2) :: (dns_error, u16) res) = Ok (be16 b c)"
    by (rule read_pointer [OF decodes_Pointer.prems])
  have "scan_loop bo data orig pd rp pos m (pd ! pos)
      = scan_loop bo data orig (drop (pointer_offset b c) orig)
          (case rp of None \<Rightarrow> Some pos | Some r \<Rightarrow> Some r) 0 (pointer_offset b c)
          (drop (pointer_offset b c) orig ! 0)"
    using d d2 b0 ne rd decodes_Pointer.hyps
    by (subst scan_loop.simps) (simp add: index_in slice_from_in Let_def pointer_offset_fold)
  also have "\<dots> = bindR (slice_to data (case (case rp of None \<Rightarrow> Some pos | Some r \<Rightarrow> Some r) of
        Some r \<Rightarrow> r + 2 | None \<Rightarrow> 0 + wire_len t)) (\<lambda>l. Ok \<lparr>labels = l, original = orig\<rparr>)"
    by (rule decodes_Pointer.IH) simp
  finally show ?case by (simp split: option.split)
qed

lemma scan_loop_label_step:
  assumes "pos < length pd" "pd ! pos \<noteq> 0" "pd ! pos AND 0b11000000 = 0"
  shows "(\<exists>e. scan_loop bo data orig pd rp pos m (pd ! pos) = Err e) \<or>
    (\<exists>l. length l = unat (pd ! pos) \<and> is_ascii l \<and> pos + unat (pd ! pos) + 1 < length pd \<and>
      drop pos pd = pd ! pos # l @ drop (pos + unat (pd ! pos) + 1) pd \<and>
      scan_loop bo data orig pd rp pos m (pd ! pos) =
        scan_loop bo data orig pd rp (pos + unat (pd ! pos) + 1) m (pd ! (pos + unat (pd ! pos) + 1)))"
proof -
  define l where "l = take (unat (pd ! pos)) (drop (Suc pos) pd)"
  let ?stop = "pos + unat (pd ! pos) + 1"
  have split: "drop pos pd = pd ! pos # l @ drop ?stop pd"
    using Cons_nth_drop_Suc [OF assms(1)] append_take_drop_id [of "unat (pd ! pos)" "drop (Suc pos) pd"]
    by (simp add: l_def add.commute)
  show ?thesis
  proof (cases "?stop < length pd \<and> is_ascii l")
    case True
    then have "(slice_range pd (pos + 1) ?stop :: (dns_error, bytes) res) = Ok l"
      by (simp add: slice_in l_def)
    with True assms have "scan_loop bo data orig pd rp pos m (pd ! pos) =
        scan_loop bo data orig pd rp ?stop m (pd ! ?stop)"
      by (subst scan_loop.simps) (simp add: index_in Let_def)
    moreover have "length l = unat (pd ! pos)" using True by (auto simp: l_def)
    ultimately show ?thesis using True split by blast
  next
    case False
    have "\<exists>e. scan_loop bo data orig pd rp pos m (pd ! pos) = Err e"
    proof (cases "length pd < ?stop")
      case True
      then show ?thesis using assms by (subst scan_loop.simps) (simp add: Let_def)
    next
      case False
      then have "(slice_range pd (pos + 1) ?stop :: (dns_error, bytes) res) = Ok l"
        by (simp add: slice_in l_def)
      with False \<open>\<not> (?stop < length pd \<and> is_ascii l)\<close> assms show ?thesis
        by (subst scan_loop.simps) (auto simp add: Let_def)
    qed
    then show ?thesis ..
  qed
qed

lemma scan_loop_pointer_step:
  assumes "pos < length pd" "pd ! pos AND 0b11000000 = 0b11000000"
  shows "(\<exists>e. scan_loop bo data orig pd rp pos m (pd ! pos) = Err e) \<or>
    (\<exists>c r. drop pos pd = pd ! pos # c # r \<and> pointer_offset (pd ! pos) c < length orig \<and>
      pointer_offset (pd ! pos) c < m \<and>
      scan_loop bo data orig pd rp pos m (pd ! pos) =
        scan_loop bo data orig (drop (pointer_offset (pd ! pos) c) orig)
          (case rp of None \<Rightarrow> Some pos | Some r \<Rightarrow> Some r) 0 (pointer_offset (pd ! pos) c)
          (drop (pointer_offset (pd ! pos) c) orig ! 0))"
proof (cases "Suc pos < length pd")
  case True
  define c where "c = pd ! Suc pos"
  let ?off = "pointer_offset (pd ! pos) c"
  have b0: "pd ! pos \<noteq> 0" using assms(2) by auto
  have split: "drop pos pd = pd ! pos # c # drop (Suc (Suc pos)) pd"
    using True unfolding c_def by (metis Cons_nth_drop_Suc Suc_lessD)
  have rd: "(read_u16_at bo pd pos (pos + 2) :: (dns_error, u16) res) = Ok (be16 (pd ! pos) c)"
    by (rule read_pointer [OF split])
  show ?thesis
  proof (cases "?off < length orig \<and> ?off < m")
    case off: True
    then have "scan_loop bo data orig pd rp pos m (pd ! pos) =
        scan_loop bo data orig (drop ?off orig)
          (case rp of None \<Rightarrow> Some pos | Some r \<Rightarrow> Some r) 0 ?off (drop ?off orig ! 0)"
      using True assms b0 rd
      by (subst scan_loop.simps) (simp add: index_in slice_from_in Let_def pointer_offset_fold)
    with off split show ?thesis by blast
  next
    case False
    then have "\<exists>e. scan_loop bo data orig pd rp pos m (pd ! pos) = Err e"
      using True assms b0 rd
      by (subst scan_loop.simps) (auto simp add: Let_def pointer_offset_fold)
    then show ?thesis ..
  qed
next
  case False
  then have "scan_loop bo data orig pd rp pos m (pd ! pos) = Err UnexpectedEOF"
    using assms by (subst scan_loop.simps) auto
  then show ?thesis by blast
qed

lemma scan_loop_cases:
  "pos < length pd \<Longrightarrow>
   (\<exists>t. decodes orig m (drop pos pd) t) \<or> (\<exists>e. scan_loop bo data orig pd rp pos m (pd ! pos) = Err e)"
proof (induction m arbitrary: pd rp pos rule: less_induct)
  case (less m)
  note outer = less.IH
  from less.prems show ?case
  proof (induction "length pd - pos" arbitrary: pos rule: less_induct)
    case less
    let ?b = "pd ! pos"
    consider (root) "?b = 0" | (ptr) "?b AND 0b11000000 = 0b11000000"
      | (label) "?b \<noteq> 0" "?b AND 0b11000000 = 0"
      | (bad) "?b \<noteq> 0" "?b AND 0b11000000 \<noteq> 0b11000000" "?b AND 0b11000000 \<noteq> 0" by blast
    then show ?case
    proof cases
      case root
      then show ?thesis using less.prems Cons_nth_drop_Suc [of pos pd] by (metis decodes_Root)
    next
      case ptr
      from scan_loop_pointer_step [OF less.prems ptr, of data orig rp m] show ?thesis
      proof (elim disjE exE conjE)
        fix c r
        let ?off = "pointer_offset ?b c"
        assume c: "drop pos pd = ?b # c # r" "?off < length orig" "?off < m"
          "scan_loop bo data orig pd rp pos m ?b = scan_loop bo data orig (drop ?off orig)
             (case rp of None \<Rightarrow> Some pos | Some r \<Rightarrow> Some r) 0 ?off (drop ?off orig ! 0)"
        have "0 < length (drop ?off orig)" using c(2) by simp
        from outer [OF c(3) this, where rp = "case rp of None \<Rightarrow> Some pos | Some r \<Rightarrow> Some r"] show ?thesis
        proof (elim disjE exE)
          fix t assume "decodes orig ?off (drop 0 (drop ?off orig)) t"
          then have "decodes orig m (drop pos pd) (Pointer t)"
            unfolding c(1) using decodes_Pointer [OF ptr c(2,3)] by simp
          then show ?thesis by blast
        qed (use c(4) in auto)
      qed blast
    next
      case label
      from scan_loop_label_step [OF less.prems label, of data orig rp m] show ?thesis
      proof (elim disjE exE conjE)
        fix l
        let ?stop = "pos + unat ?b + 1"
        assume l: "length l = unat ?b" "is_ascii l" "?stop < length pd"
          "drop pos pd = ?b # l @ drop ?stop pd"
          "scan_loop bo data orig pd rp pos m ?b = scan_loop bo data orig pd rp ?stop m (pd ! ?stop)"
        have "length pd - ?stop < length pd - pos" using l(3) by simp
        from less.hyps [OF this l(3)] show ?thesis
        proof (elim disjE exE)
          fix t assume "decodes orig m (drop ?stop pd) t"
          then have "decodes orig m (drop pos pd) (Label l t)"
            unfolding l(4) using decodes_Label [OF label l(1,2)] by simp
          then show ?thesis by blast
        qed (use l(5) in auto)
      qed blast
    next
      case bad
      then have "scan_loop bo data orig pd rp pos m ?b = Err UnknownLabelFormat"
        using less.prems by (subst scan_loop.simps) simp
      then show ?thesis by blast
    qed
  qed
qed

lemma name_scan_Ok_iff:
  "name_scan bo data orig = Ok n \<longleftrightarrow>
   (\<exists>t. decodes orig (length orig) data t \<and> n = \<lparr>labels = take (wire_len t) data, original = orig\<rparr>)"
proof (cases "data = []")
  case True
  then show ?thesis by (auto simp: name_scan_def dest: decodes_wire_len)
next
  case False
  have eq: "name_scan bo data orig = scan_loop bo data orig data None 0 (length orig) (data ! 0)"
    using False by (simp add: name_scan_def index_in)
  have val: "name_scan bo data orig = Ok \<lparr>labels = take (wire_len t) data, original = orig\<rparr>"
    if "decodes orig (length orig) data t" for t
    using scan_loop_complete [OF that, of 0 data data None] decodes_wire_len [OF that]
    by (simp add: eq slice_to_in)
  have "(\<exists>t. decodes orig (length orig) data t) \<or> (\<exists>e. name_scan bo data orig = Err e)"
    using scan_loop_cases [of 0 data orig "length orig" data None] False by (simp add: eq)
  with val show ?thesis by fastforce
qed

lemma name_scan_no_panic [no_panic]: "name_scan bo data orig \<noteq> Panic"
proof (cases "data = []")
  case False
  have eq: "name_scan bo data orig = scan_loop bo data orig data None 0 (length orig) (data ! 0)"
    using False by (simp add: name_scan_def index_in)
  have "(\<exists>t. decodes orig (length orig) data t) \<or> (\<exists>e. name_scan bo data orig = Err e)"
    using scan_loop_cases [of 0 data orig "length orig" data None] False by (simp add: eq)
  then show ?thesis
  proof (elim disjE exE)
    fix t assume "decodes orig (length orig) data t"
    then have "\<exists>n. name_scan bo data orig = Ok n" using name_scan_Ok_iff by blast
    then show ?thesis by auto
  qed simp
qed (simp add: name_scan_def)

lemma name_scan_byte_len: "name_scan bo data orig = Ok n \<Longrightarrow> 0 < byte_len n \<and> byte_len n \<le> length data"
  by (auto simp: name_scan_Ok_iff byte_len_def dest: decodes_wire_len)

lemma display_decodes:
  "decodes orig m bs t \<Longrightarrow> m \<le> length orig \<Longrightarrow> drop pos data = take (wire_len t) bs \<Longrightarrow>
   display_loop bo data orig pos out = Some (Ok (out @ wire_text (pos \<noteq> 0) t))"
proof (induction arbitrary: data pos out rule: decodes.induct)
  case (decodes_Root m r)
  then have "drop pos data = [0]" by simp
  then show ?case
    by (subst display_loop.simps) (auto dest: drop_eq_ConsD simp: index_in)
next
  case (decodes_Label b l m r t)
  have dd: "drop pos data = b # l @ take (wire_len t) r" using decodes_Label.prems by simp
  note d = drop_eq_ConsD [OF dd]
  have sl': "bindR (slice_range data (pos + 1) (pos + unat b + 1)) (\<lambda>l. unwrapR (from_utf8 l)) = (Ok l :: (dns_error, bytes) res)"
    using slice_prefix [of "Suc pos" data l "take (wire_len t) r", where ?'b = dns_error] d decodes_Label.hyps(3,4)
    by (simp add: add.commute add.left_commute from_utf8_valid utf8_ascii)
  have dr: "drop (pos + unat b + 1) data = take (wire_len t) r"
    using drop_append_step [of pos _ l] d decodes_Label.hyps(3) by auto
  have b3: "b AND 0b11000000 \<noteq> 0b11000000" using decodes_Label.hyps(2) by simp
  have "display_loop bo data orig pos out = display_loop bo data orig (pos + unat b + 1)
      ((if pos \<noteq> 0 then out @ [0x2E] else out) @ l)"
    using d b3 decodes_Label.hyps sl'
    by (subst display_loop.simps) (simp add: index_in Let_def)
  then show ?case
    using decodes_Label.IH [OF decodes_Label.prems(1) dr] by (simp split: if_splits)
next
  case (decodes_Pointer b c m t r)
  have dd: "drop pos data = b # c # []" using decodes_Pointer.prems by simp
  note d = drop_eq_ConsD [OF dd]
  let ?off = "pointer_offset b c"
  have b0: "b \<noteq> 0" using decodes_Pointer.hyps(1) by auto
  have rd: "(read_u16_at bo data pos (pos + 2) :: (dns_error, u16) res) = Ok (be16 b c)"
    by (rule read_pointer [OF dd])
  have sc: "name_scan bo (drop ?off orig) orig
      = Ok \<lparr>labels = take (wire_len t) (drop ?off orig), original = orig\<rparr>"
    using decodes_mono [OF decodes_Pointer.hyps(4), of "length orig"] decodes_Pointer.hyps(2)
    by (auto simp: name_scan_Ok_iff)
  have "display_loop bo data orig pos out = display_loop bo (take (wire_len t) (drop ?off orig)) orig 0
      (if pos \<noteq> 0 then out @ [0x2E] else out)"
    using d b0 rd sc decodes_Pointer.hyps
    by (subst display_loop.simps) (simp add: index_in slice_from_in Let_def pointer_offset_fold)
  moreover have "?off \<le> length orig" using decodes_Pointer.hyps(2) by simp
  ultimately show ?case using decodes_Pointer.IH [of 0] by (simp split: if_splits)
qed

lemma display_scanned:
  assumes "name_scan bo data orig = Ok n"
  shows "\<exists>t. decodes orig (length orig) data t \<and> byte_len n = wire_len t \<and>
    name_to_string bo n = Some (Ok (wire_text False t))"
proof -
  obtain t where t: "decodes orig (length orig) data t"
    "n = \<lparr>labels = take (wire_len t) data, original = orig\<rparr>"
    using assms by (auto simp: name_scan_Ok_iff)
  with display_decodes [OF t(1), of 0 "labels n" "[]"] decodes_wire_len [OF t(1)] show ?thesis
    by (auto simp: name_to_string_def byte_len_def)
qed

end

section \<open>Labels and text\<close>

text \<open>Labels joined by dots, and trees in which no pointer leads straight to the root.\<close>

fun join_dots :: "bytes list \<Rightarrow> bytes" where
  "join_dots [] = []"
| "join_dots [l] = l"
| "join_dots (l # m # ls) = l @ 0x2E # join_dots (m # ls)"

fun no_root_pointer :: "wire_name \<Rightarrow> bool" where
  "no_root_pointer Root \<longleftrightarrow> True"
| "no_root_pointer (Label l t) \<longleftrightarrow> no_root_pointer t"
| "no_root_pointer (Pointer t) \<longleftrightarrow> wire_labels t \<noteq> [] \<and> no_root_pointer t"

lemma wire_text_join:
  "no_root_pointer t \<Longrightarrow>
   wire_text dot t = (if wire_labels t = [] then [] else (if dot then [0x2E] else []) @ join_dots (wire_labels t))"
proof (induction dot t rule: wire_text.induct)
  case (2 dot l t)
  then show ?case by (cases "wire_labels t") auto
qed auto

section \<open>Properties\<close>

text \<open>
  C34: \<^verbatim>\<open>Name::scan\<close> accepts exactly the byte strings that start with a name (labels of at most
  63 ASCII bytes, pointers strictly backwards after the first) and returns exactly the
  bytes the name occupies.
\<close>

theorem name_scan_spec:
  assumes "big_endian bo"
  shows "name_scan bo data orig = Ok n \<longleftrightarrow>
    (\<exists>t. decodes orig (length orig) data t \<and> n = \<lparr>labels = take (wire_len t) data, original = orig\<rparr>)"
  by (rule big_endian.name_scan_Ok_iff [OF assms])

theorem name_scan_spec_witness:
  "name_scan network [2,120,120,0] [2,120,120,0] = Ok \<lparr>labels = [2,120,120,0], original = [2,120,120,0]\<rparr>
     \<longleftrightarrow> (\<exists>t. decodes [2,120,120,0] (length [2,120,120,0::u8]) [2,120,120,0] t \<and>
          \<lparr>labels = [2,120,120,0], original = [2,120,120,0]\<rparr>
          = \<lparr>labels = take (wire_len t) [2,120,120,0], original = [2,120,120,0]\<rparr>)"
  by (rule name_scan_spec [OF network.big_endian_axioms])

text \<open>
  C35: displaying a name that \<^verbatim>\<open>Name::scan\<close> returned terminates, never panics (neither the
  \<^verbatim>\<open>unwrap\<close> of the scan behind a pointer nor the one of \<^verbatim>\<open>from_utf8\<close> fails, and \<^verbatim>\<open>unreachable!()\<close> is
  not reached), and prints the labels of the name joined by dots when no pointer of it leads
  straight to the root.
\<close>

theorem name_display_total:
  assumes "big_endian bo" "name_scan bo data orig = Ok n"
  shows "\<exists>t. decodes orig (length orig) data t \<and>
    name_to_string bo n = Some (Ok (wire_text False t)) \<and>
    (no_root_pointer t \<longrightarrow> name_to_string bo n = Some (Ok (join_dots (wire_labels t))))"
proof -
  obtain t where t: "decodes orig (length orig) data t"
    "name_to_string bo n = Some (Ok (wire_text False t))"
    using big_endian.display_scanned [OF assms] by blast
  moreover have "no_root_pointer t \<Longrightarrow> wire_text False t = join_dots (wire_labels t)"
    using wire_text_join [of t False] by auto
  ultimately show ?thesis by auto
qed

abbreviation nested_names :: bytes where
  "nested_names \<equiv> [2,120,120,0, 2,121,121,0xC0,0, 2,122,122,0xC0,4]"

lemma nested_names_scan:
  "name_scan network (drop 9 nested_names) nested_names
    = Ok \<lparr>labels = [2,122,122,0xC0,4], original = nested_names\<rparr>"
  by code_simp

theorem name_display_total_witness:
  "\<exists>t. decodes nested_names (length nested_names) (drop 9 nested_names) t \<and>
    name_to_string network \<lparr>labels = [2,122,122,0xC0,4], original = nested_names\<rparr>
      = Some (Ok (wire_text False t)) \<and>
    (no_root_pointer t \<longrightarrow> name_to_string network \<lparr>labels = [2,122,122,0xC0,4], original = nested_names\<rparr>
      = Some (Ok (join_dots (wire_labels t))))"
  by (rule name_display_total [OF network.big_endian_axioms nested_names_scan])

lemma nested_names_text:
  "name_to_string network \<lparr>labels = [2,122,122,0xC0,4], original = nested_names\<rparr>
    = Some (Ok [122,122,0x2E,121,121,0x2E,120,120])"
  by code_simp

end
