(* ===== verification/Io_Model.thy ===== *)
theory Io_Model
  imports Easy_Prelude
begin

text \<open>
  The parts of \<^verbatim>\<open>std::net\<close> and \<^verbatim>\<open>std::io\<close> that several components share: addresses and errors.
  An error is its kind and, for the errors the library makes itself, its message; the kinds are those
  the sources name, every other kind of the operating system is \<open>OsError\<close> with its number.
\<close>

datatype ipv6 = Ipv6 u16 u16 u16 u16 u16 u16 u16 u16

datatype ip_addr = V4 u32 | V6 ipv6

datatype sock_addr = SocketAddr (sa_ip: ip_addr) (sa_port: u16)

datatype io_kind = WouldBlock | Interrupted | TimedOut | NotConnected | InvalidInput | OtherKind | OsError nat

datatype io_error = IoError (io_kind: io_kind) (io_msg: string)

end
