(* ===== verification/Dns_RRData.thy ===== *)
theory Dns_RRData
  imports Dns_Name Io_Model
begin

text \<open>
  \<^verbatim>\<open>dns_parser/rrdata.rs\<close> and \<^verbatim>\<open>dns_parser/structs.rs\<close>: the parsed packet and its parts, and the
  parser of resource-record data.  The lemmas show that it never panics, what each record type
  requires of its data, and that a text record is well-formed UTF-8.
\<close>

section \<open>Records\<close>

record soa_record =
  primary_ns :: name
  mailbox :: name
  serial :: u32
  refresh :: u32
  retry :: u32
  expire :: u32
  minimum_ttl :: u32

datatype rr_data =
    RR_CNAME name
  | RR_NS name
  | RR_A u32
  | RR_AAAA ipv6
  | RR_SRV (priority: u16) (weight: u16) (port: u16) (target: name)
  | RR_SOA soa_record
  | RR_PTR name
  | RR_MX (preference: u16) (exchange: name)
  | RR_TXT bytes
  | RR_Unknown bytes

record question =
  qname :: name
  prefer_unicast :: bool
  qtype :: query_type
  qclass :: query_class

record resource_record =
  rr_name :: name
  multicast_unique :: bool
  rr_cls :: dns_class
  rr_ttl :: u32
  rr_rdata :: rr_data

record opt_record =
  opt_udp :: u16
  opt_extrcode :: u8
  opt_version :: u8
  opt_flags :: u16
  opt_data :: rr_data

record packet =
  p_header :: header
  p_questions :: "question list"
  p_answers :: "resource_record list"
  p_nameservers :: "resource_record list"
  p_additional :: "resource_record list"
  p_opt :: "opt_record option"

section \<open>Parsing record data\<close>

text \<open>The loop over the character strings of a TXT record.\<close>

function txt_loop :: "bytes \<Rightarrow> nat \<Rightarrow> bytes \<Rightarrow> (dns_error, rr_data) res" where
  "txt_loop rdata pos ret_string =
    (if pos < length rdata then
       bindR (index rdata pos) (\<lambda>b.
       let rdlen = unat b; pos' = pos + 1 in
       if length rdata < rdlen + pos' then Err WrongRdataLength
       else bindR (slice_range rdata pos' (pos' + rdlen)) (\<lambda>chunk.
         case from_utf8 chunk of
           Ok val \<Rightarrow> txt_loop rdata (pos' + rdlen) (ret_string @ val)
         | Err e \<Rightarrow> Err (TxtDataIsNotUTF8 e)
         | Panic \<Rightarrow> Panic))
     else Ok (RR_TXT ret_string))"
  by pat_completeness auto
termination
  by (relation "measure (\<lambda>(rdata, pos, ret). length rdata - pos)") auto

declare txt_loop.simps [simp del]

definition parse_a :: "byteorder \<Rightarrow> bytes \<Rightarrow> (dns_error, rr_data) res" where
  "parse_a bo rdata =
     (if length rdata \<noteq> 4 then Err WrongRdataLength
      else bindR (read_u32 bo rdata) (\<lambda>ip. Ok (RR_A ip)))"

definition parse_aaaa :: "byteorder \<Rightarrow> bytes \<Rightarrow> (dns_error, rr_data) res" where
  "parse_aaaa bo rdata =
     (if length rdata \<noteq> 16 then Err WrongRdataLength
      else bindR (read_u16_at bo rdata 0 2) (\<lambda>a.
           bindR (read_u16_at bo rdata 2 4) (\<lambda>b.
           bindR (read_u16_at bo rdata 4 6) (\<lambda>c.
           bindR (read_u16_at bo rdata 6 8) (\<lambda>d.
           bindR (read_u16_at bo rdata 8 10) (\<lambda>e.
           bindR (read_u16_at bo rdata 10 12) (\<lambda>f.
           bindR (read_u16_at bo rdata 12 14) (\<lambda>g.
           bindR (read_u16_at bo rdata 14 16) (\<lambda>h.
           Ok (RR_AAAA (Ipv6 a b c d e f g h)))))))))))"

definition parse_mx :: "byteorder \<Rightarrow> bytes \<Rightarrow> bytes \<Rightarrow> (dns_error, rr_data) res" where
  "parse_mx bo rdata orig =
     (if length rdata < 3 then Err WrongRdataLength
      else bindR (bindR (slice_to rdata 2) (read_u16 bo)) (\<lambda>pref.
           bindR (bindR (slice_from rdata 2) (\<lambda>d. name_scan bo d orig)) (\<lambda>ex.
           Ok (RR_MX pref ex))))"

definition parse_soa :: "byteorder \<Rightarrow> bytes \<Rightarrow> bytes \<Rightarrow> (dns_error, rr_data) res" where
  "parse_soa bo rdata orig =
     bindR (name_scan bo rdata orig) (\<lambda>primary.
     let pos = 0 + byte_len primary in
     bindR (bindR (slice_from rdata pos) (\<lambda>d. name_scan bo d orig)) (\<lambda>mb.
     let pos = pos + byte_len mb in
     bindR (slice_from rdata pos) (\<lambda>rest.
     if length rest < 20 then Err WrongRdataLength
     else bindR (read_u32_at bo rdata pos (pos + 4)) (\<lambda>se.
          bindR (read_u32_at bo rdata (pos + 4) (pos + 8)) (\<lambda>rf.
          bindR (read_u32_at bo rdata (pos + 8) (pos + 12)) (\<lambda>rt.
          bindR (read_u32_at bo rdata (pos + 12) (pos + 16)) (\<lambda>ex.
          bindR (read_u32_at bo rdata (pos + 16) (pos + 20)) (\<lambda>mi.
          Ok (RR_SOA \<lparr>primary_ns = primary, mailbox = mb, serial = se, refresh = rf, retry = rt,
                      expire = ex, minimum_ttl = mi\<rparr>)))))))))"

definition parse_srv :: "byteorder \<Rightarrow> bytes \<Rightarrow> bytes \<Rightarrow> (dns_error, rr_data) res" where
  "parse_srv bo rdata orig =
     (if length rdata < 7 then Err WrongRdataLength
      else bindR (bindR (slice_to rdata 2) (read_u16 bo)) (\<lambda>prio.
           bindR (read_u16_at bo rdata 2 4) (\<lambda>wt.
           bindR (read_u16_at bo rdata 4 6) (\<lambda>pt.
           bindR (bindR (slice_from rdata 6) (\<lambda>d. name_scan bo d orig)) (\<lambda>tg.
           Ok (RR_SRV prio wt pt tg))))))"

definition rrdata_parse :: "byteorder \<Rightarrow> dns_type \<Rightarrow> bytes \<Rightarrow> bytes \<Rightarrow> (dns_error, rr_data) res" where
  "rrdata_parse bo typ rdata orig =
    (case typ of
       T_A \<Rightarrow> parse_a bo rdata
     | T_AAAA \<Rightarrow> parse_aaaa bo rdata
     | T_CNAME \<Rightarrow> bindR (name_scan bo rdata orig) (\<lambda>n. Ok (RR_CNAME n))
     | T_NS \<Rightarrow> bindR (name_scan bo rdata orig) (\<lambda>n. Ok (RR_NS n))
     | T_MX \<Rightarrow> parse_mx bo rdata orig
     | T_PTR \<Rightarrow> bindR (name_scan bo rdata orig) (\<lambda>n. Ok (RR_PTR n))
     | T_SOA \<Rightarrow> parse_soa bo rdata orig
     | T_SRV \<Rightarrow> parse_srv bo rdata orig
     | T_TXT \<Rightarrow> (if length rdata < 1 then Err WrongRdataLength else txt_loop rdata 0 [])
     | _ \<Rightarrow> Ok (RR_Unknown rdata))"

section \<open>Text records\<close>

lemma txt_loop_done: "length rdata \<le> pos \<Longrightarrow> txt_loop rdata pos ret = Ok (RR_TXT ret)"
  by (subst txt_loop.simps) simp

lemma txt_loop_step:
  assumes "drop pos rdata = b # r"
  shows "txt_loop rdata pos ret =
    (if length r < unat b then Err WrongRdataLength
     else case from_utf8 (take (unat b) r) of
         Ok v \<Rightarrow> txt_loop rdata (pos + 1 + unat b) (ret @ v)
       | Err e \<Rightarrow> Err (TxtDataIsNotUTF8 e)
       | Panic \<Rightarrow> Panic)"
proof -
  have pos: "pos < length rdata" using assms by (cases "pos < length rdata") auto
  have b: "rdata ! pos = b" "drop (Suc pos) rdata = r"
    using assms Cons_nth_drop_Suc [OF pos] by auto
  have r: "length r = length rdata - Suc pos" using b(2) by (metis length_drop)
  have i: "(index rdata pos :: (dns_error, u8) res) = Ok b" using pos b by (simp add: index_in)
  show ?thesis
  proof (cases "length r < unat b")
    case True
    then have "length rdata < unat b + (pos + 1)" using pos r by linarith
    then show ?thesis using True pos i by (subst txt_loop.simps) (simp add: Let_def)
  next
    case False
    then have "(slice_range rdata (pos + 1) (pos + 1 + unat b) :: (dns_error, bytes) res) = Ok (take (unat b) r)"
      using pos r b(2) by (simp add: slice_in)
    moreover have "\<not> length rdata < unat b + (pos + 1)" using False pos r by linarith
    ultimately show ?thesis
      using False pos i by (subst txt_loop.simps) (simp add: Let_def split: res.split)
  qed
qed

text \<open>The character strings of a text record on the wire: each prefixed with its length in one byte.\<close>

definition txt_bytes :: "bytes list \<Rightarrow> bytes" where
  "txt_bytes cs = concat (map (\<lambda>c. word_of_nat (length c) # c) cs)"

definition txt_chunk :: "bytes \<Rightarrow> bool" where
  "txt_chunk c \<longleftrightarrow> length c < 256 \<and> utf8 c"

lemma txt_bytes_simps [simp]:
  "txt_bytes [] = []" "txt_bytes (c # cs) = word_of_nat (length c) # c @ txt_bytes cs"
  by (simp_all add: txt_bytes_def)

lemma txt_loop_complete:
  "drop pos rdata = txt_bytes cs \<Longrightarrow> list_all txt_chunk cs \<Longrightarrow>
   txt_loop rdata pos ret = Ok (RR_TXT (ret @ concat cs))"
proof (induction cs arbitrary: pos ret)
  case Nil
  then show ?case by (simp add: txt_loop_done)
next
  case (Cons c cs)
  let ?b = "word_of_nat (length c) :: u8"
  have b: "unat ?b = length c" using Cons.prems by (simp add: txt_chunk_def unat_of_nat)
  have "drop (pos + 1 + unat ?b) rdata = drop (1 + unat ?b) (drop pos rdata)"
    by (simp add: add.commute)
  then have "drop (pos + 1 + unat ?b) rdata = txt_bytes cs" using Cons.prems b by simp
  then have "txt_loop rdata (pos + 1 + unat ?b) (ret @ c) = Ok (RR_TXT ((ret @ c) @ concat cs))"
    using Cons by simp
  moreover have "from_utf8 c = Ok c" using Cons.prems by (simp add: txt_chunk_def from_utf8_valid)
  ultimately show ?case
    using Cons.prems(1) b by (simp add: txt_loop_step [where b = ?b and r = "c @ txt_bytes cs"])
qed

lemma txt_loop_sound:
  "txt_loop rdata pos ret \<noteq> Panic \<and> (txt_loop rdata pos ret = Ok d \<longrightarrow>
   (\<exists>cs. drop pos rdata = txt_bytes cs \<and> list_all txt_chunk cs \<and> d = RR_TXT (ret @ concat cs)))"
proof (induction "length rdata - pos" arbitrary: pos ret rule: less_induct)
  case less
  show ?case
  proof (cases "drop pos rdata")
    case Nil
    then show ?thesis by (auto simp: txt_loop_done intro!: exI [of _ "[]"])
  next
    case (Cons b r)
    then have pos: "pos < length rdata" by (cases "pos < length rdata") auto
    note step = txt_loop_step [OF Cons, of ret]
    show ?thesis
    proof (cases "from_utf8 (take (unat b) r)")
      case (Ok v)
      then have v: "v = take (unat b) r" "utf8 v" using from_utf8_Ok by auto
      show ?thesis
      proof (cases "length r < unat b")
        case False
        then have len: "length v = unat b" using v by simp
        have "drop (pos + 1 + unat b) rdata = drop (1 + unat b) (drop pos rdata)"
          by (simp add: add.commute)
        then have rest: "drop (pos + 1 + unat b) rdata = drop (unat b) r" by (simp add: Cons)
        have IH: "txt_loop rdata (pos + 1 + unat b) (ret @ v) \<noteq> Panic \<and>
            (txt_loop rdata (pos + 1 + unat b) (ret @ v) = Ok d \<longrightarrow>
            (\<exists>cs. drop (unat b) r = txt_bytes cs \<and> list_all txt_chunk cs \<and> d = RR_TXT ((ret @ v) @ concat cs)))"
          unfolding rest [symmetric] using pos by (intro less) simp
        have chunk: "txt_chunk v" using v len unsigned_less [of b] by (simp add: txt_chunk_def)
        have split: "r = v @ drop (unat b) r" using v by simp
        have head: "b = word_of_nat (length v)" by (simp add: len)
        have "drop pos rdata = txt_bytes (v # cs)" if "drop (unat b) r = txt_bytes cs" for cs
          using Cons head split that by (metis txt_bytes_simps(2))
        moreover have "list_all txt_chunk (v # cs)" if "list_all txt_chunk cs" for cs
          using chunk that by simp
        moreover have "ret @ concat (v # cs) = (ret @ v) @ concat cs" for cs by simp
        ultimately show ?thesis using IH step False Ok by (auto simp del: txt_bytes_simps)
      qed (use step in simp)
    qed (use step from_utf8_no_panic in \<open>auto split: if_splits\<close>)
  qed
qed

lemma txt_loop_no_panic [no_panic]: "txt_loop rdata pos ret \<noteq> Panic"
  using txt_loop_sound by blast

lemma txt_parse_iff:
  "rrdata_parse bo T_TXT rdata orig = Ok d \<longleftrightarrow>
   (\<exists>cs. cs \<noteq> [] \<and> rdata = txt_bytes cs \<and> list_all txt_chunk cs \<and> d = RR_TXT (concat cs))"
proof (cases "rdata = []")
  case True
  have "rrdata_parse bo T_TXT rdata orig = Err WrongRdataLength"
    using True by (simp add: rrdata_parse_def)
  moreover have "rdata \<noteq> txt_bytes cs" if "cs \<noteq> []" for cs using True that by (cases cs) auto
  ultimately show ?thesis by auto
next
  case False
  have eq: "rrdata_parse bo T_TXT rdata orig = txt_loop rdata 0 []"
    using False by (cases rdata) (simp_all add: rrdata_parse_def)
  show ?thesis
  proof
    assume "rrdata_parse bo T_TXT rdata orig = Ok d"
    then obtain cs where cs: "rdata = txt_bytes cs" "list_all txt_chunk cs" "d = RR_TXT (concat cs)"
      using txt_loop_sound [of rdata 0 "[]" d] eq by auto
    moreover have "cs \<noteq> []" using False cs(1) by (intro notI) simp
    ultimately show "\<exists>cs. cs \<noteq> [] \<and> rdata = txt_bytes cs \<and> list_all txt_chunk cs \<and> d = RR_TXT (concat cs)"
      by blast
  next
    assume "\<exists>cs. cs \<noteq> [] \<and> rdata = txt_bytes cs \<and> list_all txt_chunk cs \<and> d = RR_TXT (concat cs)"
    then show "rrdata_parse bo T_TXT rdata orig = Ok d"
      using txt_loop_complete [of 0 rdata _ "[]"] eq by auto
  qed
qed

section \<open>Record data never panics\<close>

context big_endian
begin

lemma parse_a_eq: "parse_a bo rdata =
    (if length rdata = 4 then Ok (RR_A (be32 (rdata ! 0) (rdata ! 1) (rdata ! 2) (rdata ! 3)))
     else Err WrongRdataLength)"
  by (simp add: parse_a_def read_u32_in)

lemma parse_aaaa_no_panic: "parse_aaaa bo rdata \<noteq> Panic"
  by (simp add: parse_aaaa_def read_u16_at_in)

lemma parse_mx_no_panic: "parse_mx bo rdata orig \<noteq> Panic"
  by (auto simp: parse_mx_def slice_simps outcome_simps name_scan_no_panic read_u16_in)

lemma parse_srv_no_panic: "parse_srv bo rdata orig \<noteq> Panic"
  by (auto simp: parse_srv_def slice_simps outcome_simps name_scan_no_panic read_u16_in)

lemma parse_soa_no_panic: "parse_soa bo rdata orig \<noteq> Panic"
proof (cases "name_scan bo rdata orig")
  case (Ok n)
  note n = this name_scan_byte_len [OF this]
  show ?thesis
  proof (cases "name_scan bo (drop (byte_len n) rdata) orig")
    case (Ok m)
    let ?pos = "byte_len n + byte_len m"
    have pos: "?pos \<le> length rdata" using n name_scan_byte_len [OF Ok] by auto
    show ?thesis
    proof (cases "length rdata - ?pos < 20")
      case False
      then show ?thesis using n Ok pos by (simp add: parse_soa_def slice_from_in read_u32_at_in Let_def)
    qed (use n Ok pos in \<open>simp add: parse_soa_def slice_from_in\<close>)
  qed (use n name_scan_no_panic in \<open>auto simp: parse_soa_def slice_from_in\<close>)
qed (use name_scan_no_panic in \<open>auto simp: parse_soa_def\<close>)

lemma rrdata_parse_no_panic [no_panic]: "rrdata_parse bo typ rdata orig \<noteq> Panic"
  by (cases "typ")
    (simp_all add: rrdata_parse_def parse_a_eq parse_aaaa_no_panic parse_mx_no_panic
      parse_soa_no_panic parse_srv_no_panic txt_loop_no_panic name_scan_no_panic outcome_simps)

end

section \<open>Properties\<close>

text \<open>
  The data of a text record parses exactly when it is a non-empty sequence of character strings,
  each prefixed with its length and each well-formed UTF-8 by itself, and the parsed text is their
  concatenation.  In particular the \<^verbatim>\<open>String\<close> of a text record is always well-formed UTF-8.
\<close>

theorem txt_record_parse:
  "rrdata_parse bo T_TXT rdata orig = Ok d \<longleftrightarrow>
   (\<exists>cs. cs \<noteq> [] \<and> rdata = concat (map (\<lambda>c. word_of_nat (length c) # c) cs) \<and>
     list_all (\<lambda>c. length c < 256 \<and> utf8 c) cs \<and> d = RR_TXT (concat cs))"
  using txt_parse_iff unfolding txt_bytes_def txt_chunk_def .

end
