(* ===== verification/Dns_Packet.thy ===== *)
theory Dns_Packet
  imports Dns_RRData
begin

text \<open>
  \<^verbatim>\<open>dns_parser/parser.rs\<close>: parsing of a whole packet.  The running offset is threaded through the
  section loops.  The lemmas show that no input makes the parser panic, that the offset never
  leaves the buffer, and that a parsed packet has exactly the entries its header announces.
\<close>

section \<open>Records and sections\<close>

definition OPT_RR_START :: bytes where "OPT_RR_START = [0, 0, 41]"

definition parse_qclass_code :: "u16 \<Rightarrow> (dns_error, bool \<times> query_class) res" where
  "parse_qclass_code value =
     (let prefer = (value AND 0x8000 = 0x8000); qclass_code = value AND 0x7FFF in
      bindR (query_class_parse qclass_code) (\<lambda>qc. Ok (prefer, qc)))"

definition parse_class_code :: "u16 \<Rightarrow> (dns_error, bool \<times> dns_class) res" where
  "parse_class_code value =
     (let is_unique = (value AND 0x8000 = 0x8000); code = value AND 0x7FFF in
      bindR (class_parse code) (\<lambda>c. Ok (is_unique, c)))"

definition parse_record :: "byteorder \<Rightarrow> bytes \<Rightarrow> nat \<Rightarrow> (dns_error, resource_record \<times> nat) res" where
  "parse_record bo data off =
     bindR (bindR (slice_from data off) (\<lambda>d. name_scan bo d data)) (\<lambda>nm.
     let off = off + byte_len nm in
     if length data < off + 10 then Err UnexpectedEOF
     else
     bindR (bindR (read_u16_at bo data off (off + 2)) type_parse) (\<lambda>typ.
     let off = off + 2 in
     bindR (read_u16_at bo data off (off + 2)) (\<lambda>class_code.
     bindR (parse_class_code class_code) (\<lambda>(mu, c).
     let off = off + 2 in
     bindR (read_u32_at bo data off (off + 4)) (\<lambda>ttl0.
     let ttl = (if ttl0 > 0x7FFFFFFF then 0 else ttl0); off = off + 4 in
     bindR (read_u16_at bo data off (off + 2)) (\<lambda>len16.
     let rdlen = unat len16; off = off + 2 in
     if length data < off + rdlen then Err UnexpectedEOF
     else
     bindR (bindR (slice_range data off (off + rdlen)) (\<lambda>rd. rrdata_parse bo typ rd data)) (\<lambda>rdata.
     let off = off + rdlen in
     Ok (\<lparr>rr_name = nm, multicast_unique = mu, rr_cls = c, rr_ttl = ttl, rr_rdata = rdata\<rparr>, off))))))))"

definition parse_opt_record :: "byteorder \<Rightarrow> bytes \<Rightarrow> nat \<Rightarrow> (dns_error, opt_record \<times> nat) res" where
  "parse_opt_record bo data off =
     (if length data < off + 11 then Err UnexpectedEOF
      else
      let off = off + 1 in
      bindR (bindR (read_u16_at bo data off (off + 2)) type_parse) (\<lambda>typ.
      if typ \<noteq> T_OPT then Err (InvalidType (type_code typ))
      else
      let off = off + 2 in
      bindR (read_u16_at bo data off (off + 2)) (\<lambda>udp.
      let off = off + 2 in
      bindR (index data off) (\<lambda>extrcode.
      let off = off + 1 in
      bindR (index data off) (\<lambda>version.
      let off = off + 1 in
      bindR (read_u16_at bo data off (off + 2)) (\<lambda>flags.
      let off = off + 2 in
      bindR (read_u16_at bo data off (off + 2)) (\<lambda>len16.
      let rdlen = unat len16; off = off + 2 in
      if length data < off + rdlen then Err UnexpectedEOF
      else
      bindR (bindR (slice_range data off (off + rdlen)) (\<lambda>rd. rrdata_parse bo typ rd data)) (\<lambda>rdata.
      let off = off + rdlen in
      Ok (\<lparr>opt_udp = udp, opt_extrcode = extrcode, opt_version = version, opt_flags = flags,
           opt_data = rdata\<rparr>, off)))))))))"

text \<open>One turn of the question loop, and the section loops (\<^verbatim>\<open>for _ in 0..n\<close>).\<close>

definition parse_question :: "byteorder \<Rightarrow> bytes \<Rightarrow> nat \<Rightarrow> (dns_error, question \<times> nat) res" where
  "parse_question bo data off =
     bindR (bindR (slice_from data off) (\<lambda>d. name_scan bo d data)) (\<lambda>nm.
     let off = off + byte_len nm in
     if length data < off + 4 then Err UnexpectedEOF
     else
     bindR (bindR (read_u16_at bo data off (off + 2)) query_type_parse) (\<lambda>qt.
     let off = off + 2 in
     bindR (bindR (read_u16_at bo data off (off + 2)) parse_qclass_code) (\<lambda>(pu, qc).
     let off = off + 2 in
     Ok (\<lparr>qname = nm, prefer_unicast = pu, qtype = qt, qclass = qc\<rparr>, off))))"

primrec parse_section ::
  "(nat \<Rightarrow> (dns_error, 'r \<times> nat) res) \<Rightarrow> nat \<Rightarrow> nat \<Rightarrow> (dns_error, 'r list \<times> nat) res" where
  "parse_section p 0 off = Ok ([], off)"
| "parse_section p (Suc n) off =
     bindR (p off) (\<lambda>(r, off').
     bindR (parse_section p n off') (\<lambda>(rs, off''). Ok (r # rs, off'')))"

primrec parse_additional ::
  "byteorder \<Rightarrow> bytes \<Rightarrow> nat \<Rightarrow> nat \<Rightarrow> resource_record list \<Rightarrow> opt_record option \<Rightarrow>
   (dns_error, resource_record list \<times> opt_record option \<times> nat) res" where
  "parse_additional bo data 0 off additional opt = Ok (additional, opt, off)"
| "parse_additional bo data (Suc n) off additional opt =
     bindR (if off + 3 \<le> length data
            then bindR (slice_range data off (off + 3)) (\<lambda>s. Ok (s = OPT_RR_START)) else Ok False) (\<lambda>is_opt.
     if is_opt then
       (if opt = None then
          bindR (parse_opt_record bo data off) (\<lambda>(o1, off').
          parse_additional bo data n off' additional (Some o1))
        else Err AdditionalOPT)
     else
       bindR (parse_record bo data off) (\<lambda>(r, off').
       parse_additional bo data n off' (additional @ [r]) opt))"

definition packet_parse :: "byteorder \<Rightarrow> bytes \<Rightarrow> (dns_error, packet) res" where
  "packet_parse bo data =
     bindR (header_parse bo data) (\<lambda>h.
     bindR (parse_section (parse_question bo data) (unat (h_questions h)) header_size) (\<lambda>(qs, off).
     bindR (parse_section (parse_record bo data) (unat (h_answers h)) off) (\<lambda>(ans, off).
     bindR (parse_section (parse_record bo data) (unat (h_nameservers h)) off) (\<lambda>(nss, off).
     bindR (parse_additional bo data (unat (h_additional h)) off [] None) (\<lambda>(add, opt, off).
     Ok \<lparr>p_header = h, p_questions = qs, p_answers = ans, p_nameservers = nss,
         p_additional = add, p_opt = opt\<rparr>)))))"

section \<open>Entry parsers stay inside the buffer\<close>

text \<open>
  The contract of a section entry parser: from an offset inside the buffer it does not panic, and
  on success it has moved forward and is still inside the buffer.
\<close>

locale entry_parser =
  fixes p :: "nat \<Rightarrow> (dns_error, 'r \<times> nat) res" and len :: nat
  assumes entry_no_panic: "off \<le> len \<Longrightarrow> p off \<noteq> Panic"
    and entry_advances: "off \<le> len \<Longrightarrow> p off = Ok (r, off') \<Longrightarrow> off < off' \<and> off' \<le> len"
begin

lemma section_no_panic: "off \<le> len \<Longrightarrow> parse_section p n off \<noteq> Panic"
proof (induction n arbitrary: off)
  case (Suc n)
  then show ?case
    by (auto simp: outcome_simps entry_no_panic dest: entry_advances split: prod.splits)
qed simp

lemma section_advances:
  "off \<le> len \<Longrightarrow> parse_section p n off = Ok (rs, off') \<Longrightarrow>
   off + n \<le> off' \<and> off' \<le> len \<and> length rs = n"
proof (induction n arbitrary: off rs)
  case (Suc n)
  from Suc.prems(2) obtain r o1 rs' where
    "p off = Ok (r, o1)" "parse_section p n o1 = Ok (rs', off')" "rs = r # rs'"
    by (auto simp: outcome_simps)
  with Suc.prems(1) Suc.IH [of o1 rs'] entry_advances [of off r o1] show ?case by auto
qed simp

end

lemma parse_class_code_no_panic [no_panic]: "parse_class_code v \<noteq> Panic"
  by (simp add: parse_class_code_def Let_def outcome_simps wire_no_panic)

lemma parse_qclass_code_no_panic [no_panic]: "parse_qclass_code v \<noteq> Panic"
  by (simp add: parse_qclass_code_def Let_def outcome_simps wire_no_panic)

lemmas entry_no_panic_simps =
  outcome_simps slice_simps wire_no_panic parse_class_code_no_panic parse_qclass_code_no_panic

context big_endian
begin

lemma parse_record_no_panic: "off \<le> length data \<Longrightarrow> parse_record bo data off \<noteq> Panic"
  by (auto simp: parse_record_def Let_def entry_no_panic_simps read_u16_at_in read_u32_at_in
      name_scan_no_panic rrdata_parse_no_panic split: prod.splits if_splits)

lemma parse_record_advances:
  assumes "off \<le> length data" "parse_record bo data off = Ok (r, off')"
  shows "off + 11 \<le> off' \<and> off' \<le> length data \<and> rr_ttl r \<le> 0x7FFFFFFF"
  using assms
  by (auto simp: parse_record_def Let_def outcome_simps slice_from_in split: prod.splits if_splits
      dest!: name_scan_byte_len)

lemma parse_question_no_panic: "off \<le> length data \<Longrightarrow> parse_question bo data off \<noteq> Panic"
  by (auto simp: parse_question_def Let_def entry_no_panic_simps read_u16_at_in
      name_scan_no_panic split: prod.splits if_splits)

lemma parse_question_advances:
  assumes "off \<le> length data" "parse_question bo data off = Ok (r, off')"
  shows "off + 5 \<le> off' \<and> off' \<le> length data"
  using assms
  by (auto simp: parse_question_def Let_def outcome_simps slice_from_in split: prod.splits if_splits
      dest!: name_scan_byte_len)

lemma parse_opt_record_no_panic: "parse_opt_record bo data off \<noteq> Panic"
  by (auto simp: parse_opt_record_def Let_def entry_no_panic_simps read_u16_at_in index_in
      rrdata_parse_no_panic split: prod.splits if_splits)

lemma parse_opt_record_advances:
  "parse_opt_record bo data off = Ok (r, off') \<Longrightarrow> off + 11 \<le> off' \<and> off' \<le> length data"
  by (auto simp: parse_opt_record_def Let_def outcome_simps split: prod.splits if_splits)

end

sublocale big_endian \<subseteq> record_entry: entry_parser "parse_record bo data" "length data" for data
proof unfold_locales
  fix off r off'
  show "off \<le> length data \<Longrightarrow> parse_record bo data off \<noteq> Panic" by (rule parse_record_no_panic)
  show "off < off' \<and> off' \<le> length data"
    if "off \<le> length data" "parse_record bo data off = Ok (r, off')"
    using parse_record_advances [OF that] by simp
qed

sublocale big_endian \<subseteq> question_entry: entry_parser "parse_question bo data" "length data" for data
proof unfold_locales
  fix off r off'
  show "off \<le> length data \<Longrightarrow> parse_question bo data off \<noteq> Panic" by (rule parse_question_no_panic)
  show "off < off' \<and> off' \<le> length data"
    if "off \<le> length data" "parse_question bo data off = Ok (r, off')"
    using parse_question_advances [OF that] by simp
qed

interpretation network_record: entry_parser "parse_record network data" "length data" for data
  by (rule network.record_entry.entry_parser_axioms)

context big_endian
begin

lemma parse_additional_no_panic:
  "off \<le> length data \<Longrightarrow> parse_additional bo data n off add opt \<noteq> Panic"
proof (induction n arbitrary: off add opt)
  case (Suc n)
  have rec: "bindR (parse_record bo data off) (\<lambda>(r, off').
       parse_additional bo data n off' (add @ [r]) opt) \<noteq> Panic"
    using Suc parse_record_no_panic [OF Suc.prems] parse_record_advances [OF Suc.prems]
    by (fastforce simp: outcome_simps)
  have opt: "bindR (parse_opt_record bo data off) (\<lambda>(o1, off').
       parse_additional bo data n off' add (Some o1)) \<noteq> Panic"
    using Suc parse_opt_record_no_panic [of data off] parse_opt_record_advances [of data off]
    by (fastforce simp: outcome_simps)
  from rec opt show ?case by (simp add: slice_in)
qed simp

lemma parse_additional_counts:
  "off \<le> length data \<Longrightarrow> parse_additional bo data n off add opt = Ok (add', opt', off') \<Longrightarrow>
   length add' + (if opt' = None then 0 else 1) = length add + (if opt = None then 0 else 1) + n \<and>
   off' \<le> length data"
proof (induction n arbitrary: off add opt)
  case (Suc n)
  consider (opt) o1 off1 where "opt = None" "parse_opt_record bo data off = Ok (o1, off1)"
      "parse_additional bo data n off1 add (Some o1) = Ok (add', opt', off')"
    | (rec) r off1 where "parse_record bo data off = Ok (r, off1)"
      "parse_additional bo data n off1 (add @ [r]) opt = Ok (add', opt', off')"
    using Suc.prems(2) by (auto simp: outcome_simps split: if_splits)
  then show ?case
  proof cases
    case opt
    with parse_opt_record_advances [OF opt(2)] Suc.IH [OF _ opt(3)] show ?thesis by simp
  next
    case rec
    with parse_record_advances [OF Suc.prems(1) rec(1)] Suc.IH [OF _ rec(2)] show ?thesis by simp
  qed
qed simp

lemma packet_parse_no_panic [no_panic]: "packet_parse bo data \<noteq> Panic"
proof (cases "header_parse bo data")
  case (Ok h)
  have hs: "header_size \<le> length data" using header_parse_Ok_D(1) [OF Ok] by (simp add: header_size_def)
  then show ?thesis
    by (auto simp: packet_parse_def Ok outcome_simps question_entry.section_no_panic
        record_entry.section_no_panic parse_additional_no_panic split: prod.splits
        dest!: question_entry.section_advances [OF hs] record_entry.section_advances [rotated])
qed (auto simp: packet_parse_def header_parse_no_panic)

lemma packet_parse_OkE:
  assumes "packet_parse bo data = Ok p"
  obtains h qs o1 ans o2 nss o3 add opt o4 where
    "header_parse bo data = Ok h"
    "parse_section (parse_question bo data) (unat (h_questions h)) header_size = Ok (qs, o1)"
    "parse_section (parse_record bo data) (unat (h_answers h)) o1 = Ok (ans, o2)"
    "parse_section (parse_record bo data) (unat (h_nameservers h)) o2 = Ok (nss, o3)"
    "parse_additional bo data (unat (h_additional h)) o3 [] None = Ok (add, opt, o4)"
    "p = \<lparr>p_header = h, p_questions = qs, p_answers = ans, p_nameservers = nss,
          p_additional = add, p_opt = opt\<rparr>"
  using assms by (auto simp: packet_parse_def outcome_simps)

lemma packet_parse_counts:
  assumes "packet_parse bo data = Ok p"
  shows "header_parse bo data = Ok (p_header p) \<and>
    length (p_questions p) = unat (h_questions (p_header p)) \<and>
    length (p_answers p) = unat (h_answers (p_header p)) \<and>
    length (p_nameservers p) = unat (h_nameservers (p_header p)) \<and>
    length (p_additional p) + (if p_opt p = None then 0 else 1) = unat (h_additional (p_header p))"
proof -
  from assms obtain h qs o1 ans o2 nss o3 add opt o4 where
    h: "header_parse bo data = Ok h" and
    qs: "parse_section (parse_question bo data) (unat (h_questions h)) header_size = Ok (qs, o1)" and
    ans: "parse_section (parse_record bo data) (unat (h_answers h)) o1 = Ok (ans, o2)" and
    nss: "parse_section (parse_record bo data) (unat (h_nameservers h)) o2 = Ok (nss, o3)" and
    add: "parse_additional bo data (unat (h_additional h)) o3 [] None = Ok (add, opt, o4)" and
    p: "p = \<lparr>p_header = h, p_questions = qs, p_answers = ans, p_nameservers = nss,
            p_additional = add, p_opt = opt\<rparr>"
    by (rule packet_parse_OkE)
  have hs: "header_size \<le> length data" using header_parse_Ok_D(1) [OF h] by (simp add: header_size_def)
  note q = question_entry.section_advances [OF hs qs]
  have o1: "o1 \<le> length data" using q by simp
  note a = record_entry.section_advances [OF o1 ans]
  have o2: "o2 \<le> length data" using a by simp
  note n = record_entry.section_advances [OF o2 nss]
  have o3: "o3 \<le> length data" using n by simp
  from q a n parse_additional_counts [OF o3 add] show ?thesis by (simp add: p h)
qed

end

section \<open>Properties\<close>

text \<open>
  C33: no byte string makes \<^verbatim>\<open>Packet::parse\<close> panic: it returns a packet or an error.
\<close>

theorem packet_parse_total:
  assumes "big_endian bo"
  shows "packet_parse bo data \<noteq> Panic"
  by (rule big_endian.packet_parse_no_panic [OF assms])

text \<open>The response of the repository's own parser test: one question, one address record.\<close>

abbreviation example_response :: bytes where
  "example_response \<equiv>
    [6, 37, 0x81, 0x80, 0, 1, 0, 1, 0, 0, 0, 0,
     7, 101, 120, 97, 109, 112, 108, 101, 3, 99, 111, 109, 0, 0, 1, 0, 1,
     0xC0, 12, 0, 1, 0, 1, 0, 0, 4, 0xF8, 0, 4, 93, 184, 216, 34]"

theorem packet_parse_total_witness: "packet_parse network example_response \<noteq> Panic"
  by (rule packet_parse_total [OF network.big_endian_axioms])

text \<open>
  C38: a packet that parses has exactly the entries its header announces in every section, where
  the OPT pseudo-record counts as an additional record.
\<close>

theorem packet_parse_sections:
  assumes "big_endian bo" "packet_parse bo data = Ok p"
  shows "header_parse bo data = Ok (p_header p) \<and>
    length (p_questions p) = unat (h_questions (p_header p)) \<and>
    length (p_answers p) = unat (h_answers (p_header p)) \<and>
    length (p_nameservers p) = unat (h_nameservers (p_header p)) \<and>
    length (p_additional p) + (if p_opt p = None then 0 else 1) = unat (h_additional (p_header p))"
  by (rule big_endian.packet_parse_counts [OF assms])

definition example_packet :: packet where
  "example_packet =
    \<lparr>p_header = \<lparr>h_id = 1573, h_query = False, h_opcode = StandardQuery, h_authoritative = False,
        h_truncated = False, h_recursion_desired = True, h_recursion_available = True,
        h_authenticated_data = False, h_checking_disabled = False, h_response_code = NoError,
        h_questions = 1, h_answers = 1, h_nameservers = 0, h_additional = 0\<rparr>,
     p_questions = [\<lparr>qname = \<lparr>labels = [7, 101, 120, 97, 109, 112, 108, 101, 3, 99, 111, 109, 0],
        original = example_response\<rparr>, prefer_unicast = False, qtype = Q_A, qclass = QC_IN\<rparr>],
     p_answers = [\<lparr>rr_name = \<lparr>labels = [0xC0, 12], original = example_response\<rparr>,
        multicast_unique = False, rr_cls = C_IN, rr_ttl = 1272, rr_rdata = RR_A 0x5DB8D822\<rparr>],
     p_nameservers = [], p_additional = [], p_opt = None\<rparr>"

lemma example_response_parse: "packet_parse network example_response = Ok example_packet"
  by code_simp

theorem packet_parse_sections_witness:
  "header_parse network example_response = Ok (p_header example_packet) \<and>
    length (p_questions example_packet) = unat (h_questions (p_header example_packet)) \<and>
    length (p_answers example_packet) = unat (h_answers (p_header example_packet)) \<and>
    length (p_nameservers example_packet) = unat (h_nameservers (p_header example_packet)) \<and>
    length (p_additional example_packet) + (if p_opt example_packet = None then 0 else 1)
      = unat (h_additional (p_header example_packet))"
  by (rule packet_parse_sections [OF network.big_endian_axioms example_response_parse])

end
