(* ===== verification/Dns_Builder.thy ===== *)
theory Dns_Builder
  imports Dns_Packet
begin

text \<open>
  \<^verbatim>\<open>dns_parser/builder.rs\<close>: building a query in a caller's buffer.  The builder's buffer and offset
  survive a failing operation, so each operation returns the builder together with its outcome.
  The main lemma is the round trip: what the builder writes for a host name is what
  \<^verbatim>\<open>Packet::parse\<close> reads back.
\<close>

section \<open>The builder\<close>

record builder =
  b_buf :: bytes
  b_off :: nat

definition builder_new :: "bytes \<Rightarrow> builder" where
  "builder_new buf = \<lparr>b_buf = buf, b_off = 0\<rparr>"

definition query_header :: "u16 \<Rightarrow> bool \<Rightarrow> header" where
  "query_header i recursion =
     \<lparr>h_id = i, h_query = True, h_opcode = StandardQuery, h_authoritative = False,
      h_truncated = False, h_recursion_desired = recursion, h_recursion_available = False,
      h_authenticated_data = False, h_checking_disabled = False, h_response_code = NoError,
      h_questions = 0, h_answers = 0, h_nameservers = 0, h_additional = 0\<rparr>"

text \<open>\<^verbatim>\<open>head.write(&mut self.buf[..12])\<close> writes through a sub-slice of the buffer.\<close>

definition builder_start :: "byteorder \<Rightarrow> builder \<Rightarrow> u16 \<Rightarrow> bool \<Rightarrow> builder \<times> (unit, unit) res" where
  "builder_start bo bd i recursion =
     (if length (b_buf bd) \<le> 12 then (bd, Err ())
      else
        bindS (lift bd (slice_to (b_buf bd) 12)) (\<lambda>bd h12.
        bindS (lift bd (unwrapR (header_write bo (query_header i recursion) h12))) (\<lambda>bd h12'.
        bindS (lift bd (copy_into (b_buf bd) 0 12 h12')) (\<lambda>bd buf'.
        (bd\<lparr>b_buf := buf', b_off := 12\<rparr>, Ok ())))))"

text \<open>\<^verbatim>\<open>str::split('.')\<close> on the bytes of the string.\<close>

fun split_dots :: "bytes \<Rightarrow> bytes list" where
  "split_dots [] = [[]]"
| "split_dots (b # bs) =
     (if b = 0x2E then [] # split_dots bs
      else case split_dots bs of [] \<Rightarrow> [[b]] | p # ps \<Rightarrow> (b # p) # ps)"

fun write_parts :: "bytes \<Rightarrow> nat \<Rightarrow> bytes list \<Rightarrow> bytes \<times> (unit, nat) res" where
  "write_parts buf off [] =
     bindS (put buf (store buf off 0)) (\<lambda>buf _. (buf, Ok (off + 1)))"
| "write_parts buf off (part # parts) =
     (if 63 \<le> length part \<or> length buf < length part + off + 1 then (buf, Err ())
      else
        bindS (put buf (store buf off (word_of_nat (length part)))) (\<lambda>buf _.
        let off = off + 1 in
        bindS (put buf (copy_into buf off (off + length part) part)) (\<lambda>buf _.
        write_parts buf (off + length part) parts)))"

definition write_name :: "bytes \<Rightarrow> nat \<Rightarrow> bytes \<Rightarrow> bytes \<times> (unit, nat) res" where
  "write_name buf off nm = write_parts buf off (split_dots nm)"

definition add_question ::
  "byteorder \<Rightarrow> builder \<Rightarrow> bytes \<Rightarrow> query_type \<Rightarrow> query_class \<Rightarrow> builder \<times> (unit, unit) res" where
  "add_question bo bd nm qt qc =
     bindS (lift bd (slice_range (b_buf bd) 6 12)) (\<lambda>bd counts.
     if counts \<noteq> [0, 0, 0, 0, 0, 0] then (bd, Err ())
     else
       (case write_name (b_buf bd) (b_off bd) nm of
          (buf, Panic) \<Rightarrow> (bd\<lparr>b_buf := buf\<rparr>, Panic)
        | (buf, Err _) \<Rightarrow> (bd\<lparr>b_buf := buf\<rparr>, Err ())
        | (buf, Ok ns) \<Rightarrow>
           (let bd = bd\<lparr>b_buf := buf, b_off := ns\<rparr> in
            bindS (lift bd (write_u16 bo (b_buf bd) (b_off bd) (length (b_buf bd)) (query_type_code qt))) (\<lambda>bd buf.
            let bd = bd\<lparr>b_buf := buf, b_off := b_off bd + 2\<rparr> in
            bindS (lift bd (write_u16 bo (b_buf bd) (b_off bd) (length (b_buf bd)) (query_class_code qc))) (\<lambda>bd buf.
            let bd = bd\<lparr>b_buf := buf, b_off := b_off bd + 2\<rparr> in
            bindS (lift bd (read_u16_at bo (b_buf bd) 4 6)) (\<lambda>bd oldq.
            if oldq = 65535 then (bd, Err ())
            else
              bindS (lift bd (write_u16 bo (b_buf bd) 4 6 (oldq + 1))) (\<lambda>bd buf.
              (bd\<lparr>b_buf := buf\<rparr>, Ok ()))))))))"

definition builder_finish :: "builder \<Rightarrow> nat" where
  "builder_finish bd = b_off bd"

section \<open>Names as the builder writes them\<close>

lemma split_dots_nonempty: "split_dots bs \<noteq> []"
  by (induction bs) (auto split: list.splits)

lemma join_dots_Cons: "join_dots ((b # p) # ps) = b # join_dots (p # ps)"
  by (cases ps) auto

lemma join_split_dots: "join_dots (split_dots bs) = bs"
proof (induction bs)
  case (Cons b bs)
  then show ?case
    by (cases "split_dots bs") (auto simp: split_dots_nonempty join_dots_Cons)
qed simp

fun encode_labels :: "bytes list \<Rightarrow> bytes" where
  "encode_labels [] = [0]"
| "encode_labels (p # ps) = word_of_nat (length p) # p @ encode_labels ps"

text \<open>A host name that the builder can encode: no empty label, none longer than 62 bytes, all ASCII.\<close>

definition wf_host :: "bytes \<Rightarrow> bool" where
  "wf_host h \<longleftrightarrow> (\<forall>p \<in> set (split_dots h). p \<noteq> [] \<and> length p < 63 \<and> is_ascii p)"

fun label_tree :: "bytes list \<Rightarrow> wire_name" where
  "label_tree [] = Root"
| "label_tree (p # ps) = Label p (label_tree ps)"

lemma label_tree_simps [simp]:
  "wire_labels (label_tree ps) = ps" "no_root_pointer (label_tree ps)"
  "wire_len (label_tree ps) = length (encode_labels ps)"
  by (induction ps) auto

lemma small_length_byte:
  "0 < n \<Longrightarrow> n < 63 \<Longrightarrow>
   unat (word_of_nat n :: u8) = n \<and> (word_of_nat n :: u8) \<noteq> 0 \<and> (word_of_nat n :: u8) AND 0b11000000 = 0"
proof -
  assume n: "0 < n" "n < 63"
  then have u: "unat (word_of_nat n :: u8) = n" by (simp add: unat_of_nat)
  then have "unat (word_of_nat n :: u8) < 2 ^ 6" using n by simp
  then have "\<not> bit (word_of_nat n :: u8) k" if "6 \<le> k" for k
    using bit_small_nat [of "unat (word_of_nat n :: u8)" 6 k] that by (auto simp: bit_unsigned_iff)
  moreover have "bit (0b11000000 :: u8) k \<Longrightarrow> 6 \<le> k" for k
    by (rule ccontr) (auto simp: not_le less_Suc_eq numeral_eq_Suc bit_simps)
  ultimately have "(word_of_nat n :: u8) AND 0b11000000 = 0"
    by (intro bit_word_eqI) (auto simp: bit_and_iff)
  with u n show ?thesis by auto
qed

lemma decodes_encode_labels:
  "\<forall>p \<in> set ps. p \<noteq> [] \<and> length p < 63 \<and> is_ascii p \<Longrightarrow> decodes orig m (encode_labels ps @ r) (label_tree ps)"
proof (induction ps)
  case Nil
  then show ?case by (simp add: decodes_Root)
next
  case (Cons p ps)
  then have "unat (word_of_nat (length p) :: u8) = length p \<and> (word_of_nat (length p) :: u8) \<noteq> 0
      \<and> (word_of_nat (length p) :: u8) AND 0b11000000 = 0"
    by (intro small_length_byte) auto
  with Cons show ?case by (auto intro!: decodes_Label)
qed

lemma length_encode_labels: "ps \<noteq> [] \<Longrightarrow> length (encode_labels ps) = length (join_dots ps) + 2"
  by (induction ps rule: join_dots.induct) auto

lemma write_parts_Ok:
  "\<forall>p \<in> set ps. length p < 63 \<Longrightarrow> off + length (encode_labels ps) \<le> length buf \<Longrightarrow>
   write_parts buf off ps =
     (take off buf @ encode_labels ps @ drop (off + length (encode_labels ps)) buf,
      Ok (off + length (encode_labels ps)))"
proof (induction ps arbitrary: buf off)
  case Nil
  then show ?case by (simp add: store_in upd_conv_take_nth_drop)
next
  case (Cons p ps)
  let ?b1 = "buf[off := word_of_nat (length p)]"
  let ?b2 = "take (Suc off) ?b1 @ p @ drop (Suc off + length p) ?b1"
  let ?n = "length (encode_labels ps)"
  have st: "(store buf off (word_of_nat (length p)) :: (unit, bytes) res) = Ok ?b1"
    using Cons.prems by (simp add: store_in)
  have cp: "(copy_into ?b1 (off + 1) (off + 1 + length p) p :: (unit, bytes) res) = Ok ?b2"
    using Cons.prems by (simp add: copy_into_in)
  have l2: "length ?b2 = length buf" using Cons.prems by simp
  have "write_parts buf off (p # ps) = write_parts ?b2 (off + 1 + length p) ps"
    using Cons.prems st cp by (simp add: Let_def)
  also have "\<dots> = (take (off + 1 + length p) ?b2 @ encode_labels ps @ drop (off + 1 + length p + ?n) ?b2,
      Ok (off + 1 + length p + ?n))"
    using Cons.prems l2 by (intro Cons.IH) auto
  also have "take (off + 1 + length p) ?b2 = take off buf @ word_of_nat (length p) # p"
    using Cons.prems by (simp add: take_Suc_conv_app_nth)
  also have "drop (off + 1 + length p + ?n) ?b2 = drop (off + 1 + length p + ?n) buf"
    using Cons.prems by (simp add: add.commute)
  finally show ?case by (simp add: add.assoc add.commute add.left_commute)
qed

section \<open>The round trip\<close>

text \<open>The query packet for a host name, as bytes.\<close>

definition query_bytes :: "u16 \<Rightarrow> bool \<Rightarrow> bytes \<Rightarrow> query_type \<Rightarrow> query_class \<Rightarrow> bytes" where
  "query_bytes i recursion host qt qc =
     header_bytes (query_header i recursion\<lparr>h_questions := 1\<rparr>) @ encode_labels (split_dots host) @
     [hi8 (query_type_code qt), lo8 (query_type_code qt), hi8 (query_class_code qc), lo8 (query_class_code qc)]"

lemma length_query_bytes: "length (query_bytes i recursion host qt qc) = length host + 18"
  by (simp add: query_bytes_def length_encode_labels split_dots_nonempty join_split_dots)

lemma wf_query_header [simp]: "wf_header (query_header i recursion\<lparr>h_questions := n\<rparr>)"
  by (simp add: wf_header_def query_header_def)

lemma header_flags_questions [simp]: "header_flags (h\<lparr>h_questions := n\<rparr>) = header_flags h"
  by (simp add: header_flags_def)

lemma header_bytes_count:
  "(header_bytes (query_header i recursion) @ r)[4 := hi8 1, 5 := lo8 1]
    = header_bytes (query_header i recursion\<lparr>h_questions := 1\<rparr>) @ r"
  by (simp add: header_bytes_def)

lemma query_header_counts:
  "take 6 (drop 6 (header_bytes (query_header i recursion) @ r)) = [0, 0, 0, 0, 0, 0]"
  "(header_bytes (query_header i recursion) @ r) ! 4 = 0"
  "(header_bytes (query_header i recursion) @ r) ! 5 = 0"
  by (simp_all add: header_bytes_def query_header_def hi8_def lo8_def)

context big_endian
begin

lemma builder_start_Ok:
  assumes "12 < length buf"
  shows "builder_start bo (builder_new buf) i recursion =
    (\<lparr>b_buf = header_bytes (query_header i recursion) @ drop 12 buf, b_off = 12\<rparr>, Ok ())"
  using assms
  by (simp add: builder_start_def builder_new_def slice_to_in header_write_eq copy_into_in)

lemma write_u16_append:
  assumes "length xs = a" "2 \<le> length r" "b = a + length r"
  shows "write_u16 bo (xs @ r) a b v = Ok (xs @ hi8 v # lo8 v # drop 2 r)"
proof -
  from assms(2) obtain x y r' where r: "r = x # y # r'" by (auto simp: length_ge_2_conv)
  have "(xs @ r)[a := hi8 v, Suc a := lo8 v] = xs @ hi8 v # lo8 v # r'"
    using assms(1) r by (simp add: list_update_append)
  then show ?thesis using assms r by (simp add: write_u16_in)
qed

lemma add_question_Ok:
  assumes host: "wf_host host" and fits: "length host + 18 \<le> 12 + length rest"
  shows "add_question bo \<lparr>b_buf = header_bytes (query_header i recursion) @ rest, b_off = 12\<rparr> host qt qc =
    (\<lparr>b_buf = query_bytes i recursion host qt qc @ drop (length host + 6) rest, b_off = length host + 18\<rparr>, Ok ())"
proof -
  let ?ps = "split_dots host"
  let ?h = "header_bytes (query_header i recursion)"
  let ?e = "encode_labels ?ps"
  let ?r1 = "drop (length ?e) rest"
  have len_e: "length ?e = length host + 2"
    by (simp add: length_encode_labels split_dots_nonempty join_split_dots)
  have counts: "(slice_range (?h @ rest) 6 12 :: (unit, bytes) res) = Ok [0, 0, 0, 0, 0, 0]"
    using query_header_counts(1) by (simp add: slice_in)
  have "write_name (?h @ rest) 12 host = (take 12 (?h @ rest) @ ?e @ drop (12 + length ?e) (?h @ rest),
      Ok (12 + length ?e))"
    unfolding write_name_def using host fits len_e by (intro write_parts_Ok) (auto simp: wf_host_def)
  then have wn: "write_name (?h @ rest) 12 host = ((?h @ ?e) @ ?r1, Ok (12 + length ?e))" by simp
  let ?b2 = "(?h @ ?e @ [hi8 (query_type_code qt), lo8 (query_type_code qt)]) @ drop 2 ?r1"
  have w1: "(write_u16 bo ((?h @ ?e) @ ?r1) (12 + length ?e) (12 + length rest) (query_type_code qt) :: (unit, bytes) res)
      = Ok ?b2"
    using fits len_e by (subst write_u16_append) auto
  let ?b3 = "?h @ ?e @ [hi8 (query_type_code qt), lo8 (query_type_code qt), hi8 (query_class_code qc),
      lo8 (query_class_code qc)] @ drop 4 ?r1"
  have w2: "(write_u16 bo ?b2 (14 + length ?e) (12 + length rest) (query_class_code qc) :: (unit, bytes) res)
      = Ok ?b3"
    using fits len_e by (subst write_u16_append) (auto simp: eval_nat_numeral)
  have q: "(read_u16_at bo ?b3 4 6 :: (unit, u16) res) = Ok 0"
    by (simp add: read_u16_at_in query_header_counts be16_def)
  have w3: "(write_u16 bo ?b3 4 6 1 :: (unit, bytes) res) = Ok (query_bytes i recursion host qt qc @ drop 4 ?r1)"
    using header_bytes_count by (simp add: write_u16_in query_bytes_def)
  have l2: "length ?b2 = 12 + length rest" using fits len_e by simp
  have l1: "length ((?h @ ?e) @ ?r1) = 12 + length rest" using fits len_e by simp
  have "12 + length ?e + 2 = 14 + length ?e" "drop 4 ?r1 = drop (length host + 6) rest"
    using len_e by (simp_all add: add.commute)
  then show ?thesis
    using counts wn w1 w2 q w3 l1 l2 len_e
    by (simp add: add_question_def Let_def lift_def
        cong: bindS_weak_cong del: append_assoc)
qed

lemma query_class_code_parse [simp]: "parse_qclass_code (query_class_code qc) = Ok (False, qc)"
  by (cases qc) (simp_all add: parse_qclass_code_def query_class_parse_def)

lemma parse_question_at:
  assumes host: "wf_host host"
    and d: "drop off d = encode_labels (split_dots host) @ [hi8 (query_type_code qt), lo8 (query_type_code qt),
      hi8 (query_class_code qc), lo8 (query_class_code qc)] @ r"
  shows "parse_question bo d off =
    Ok (\<lparr>qname = \<lparr>labels = encode_labels (split_dots host), original = d\<rparr>,
         prefer_unicast = False, qtype = qt, qclass = qc\<rparr>, off + length host + 6)"
proof -
  let ?e = "encode_labels (split_dots host)"
  let ?tail = "[hi8 (query_type_code qt), lo8 (query_type_code qt), hi8 (query_class_code qc), lo8 (query_class_code qc)] @ r"
  have len_e: "length ?e = length host + 2"
    by (simp add: length_encode_labels split_dots_nonempty join_split_dots)
  have len: "length d - off = length host + 6 + length r" using arg_cong [OF d, of length] len_e by simp
  then have off: "off \<le> length d" by (cases "off \<le> length d") auto
  have "decodes d (length d) (?e @ ?tail) (label_tree (split_dots host))"
    using host by (intro decodes_encode_labels) (simp add: wf_host_def)
  then have scan: "name_scan bo (?e @ ?tail) d = Ok \<lparr>labels = ?e, original = d\<rparr>"
    by (auto simp: name_scan_Ok_iff)
  have "drop (off + length ?e) d = drop (length ?e) (drop off d)" by (simp add: add.commute)
  then have d1: "drop (off + length ?e) d = ?tail" using d by simp
  have "drop (off + length ?e + 2) d = drop 2 (drop (off + length ?e) d)" by (simp add: add.commute)
  then have d2: "drop (off + length ?e + 2) d = hi8 (query_class_code qc) # lo8 (query_class_code qc) # r" using d1 by simp
  have r1: "(read_u16_at bo d (off + length ?e) (off + length ?e + 2) :: (dns_error, u16) res) = Ok (query_type_code qt)"
    using read_pointer [of "off + length ?e" d] d1 by simp
  have r2: "(read_u16_at bo d (off + length ?e + 2) (off + length ?e + 2 + 2) :: (dns_error, u16) res)
      = Ok (query_class_code qc)"
    using read_pointer [OF d2] by simp
  have "\<not> length d < off + length ?e + 4" using len off len_e by simp
  then show ?thesis
    using scan r1 r2 len_e off unfolding parse_question_def
    by (simp add: slice_from_in d byte_len_def Let_def query_type_wire.parse_code)
qed

lemma parse_query_question:
  assumes "wf_host host"
  shows "parse_question bo (query_bytes i recursion host qt qc) 12 =
    Ok (\<lparr>qname = \<lparr>labels = encode_labels (split_dots host), original = query_bytes i recursion host qt qc\<rparr>,
         prefer_unicast = False, qtype = qt, qclass = qc\<rparr>, length host + 18)"
  using parse_question_at [OF assms, of 12 "query_bytes i recursion host qt qc" qt qc "[]"]
  by (simp add: query_bytes_def)

lemma parse_query:
  assumes "wf_host host"
  shows "packet_parse bo (query_bytes i recursion host qt qc) =
    Ok \<lparr>p_header = query_header i recursion\<lparr>h_questions := 1\<rparr>,
        p_questions = [\<lparr>qname = \<lparr>labels = encode_labels (split_dots host), original = query_bytes i recursion host qt qc\<rparr>,
           prefer_unicast = False, qtype = qt, qclass = qc\<rparr>],
        p_answers = [], p_nameservers = [], p_additional = [], p_opt = None\<rparr>"
proof -
  let ?h = "query_header i recursion\<lparr>h_questions := 1\<rparr>"
  have "header_parse bo (query_bytes i recursion host qt qc) = Ok (wire_header ?h)"
    unfolding query_bytes_def by (rule header_parse_bytes) simp
  moreover have "wire_header ?h = ?h" by (simp add: wire_header_def query_header_def)
  ultimately show ?thesis
    using parse_query_question [OF assms]
    by (simp add: packet_parse_def header_size_def query_header_def)
qed

lemma query_name_text:
  assumes "wf_host host"
  shows "name_to_string bo \<lparr>labels = encode_labels (split_dots host), original = d\<rparr> = Some (Ok host)"
proof -
  have "decodes d (length d) (encode_labels (split_dots host) @ []) (label_tree (split_dots host))"
    using assms by (intro decodes_encode_labels) (simp add: wf_host_def)
  from display_decodes [OF this, of 0 "encode_labels (split_dots host)" "[]"]
  show ?thesis
    by (simp add: name_to_string_def wire_text_join split_dots_nonempty join_split_dots)
qed

end

section \<open>Buffers that are too small\<close>

lemma write_parts_Err:
  "\<forall>p \<in> set ps. length p < 63 \<Longrightarrow> off \<le> length buf \<Longrightarrow> length buf + 1 < off + length (encode_labels ps) \<Longrightarrow>
   snd (write_parts buf off ps) = Err ()"
proof (induction ps arbitrary: buf off)
  case (Cons p ps)
  show ?case
  proof (cases "length buf < length p + off + 1")
    case False
    then show ?thesis using Cons.prems Cons.IH [of "off + 1 + length p"]
      by (simp add: store_in copy_into_in Let_def)
  qed simp
qed simp

lemma write_parts_Panic:
  "\<forall>p \<in> set ps. length p < 63 \<Longrightarrow> off + length (encode_labels ps) = length buf + 1 \<Longrightarrow>
   snd (write_parts buf off ps) = Panic"
proof (induction ps arbitrary: buf off)
  case (Cons p ps)
  obtain n where "length (encode_labels ps) = Suc n" by (cases ps) auto
  with Cons show ?case by (simp add: store_in copy_into_in Let_def)
qed (simp add: store_def)

context big_endian
begin

lemma add_question_short:
  assumes "(slice_range (b_buf bd) 6 12 :: (unit, bytes) res) = Ok [0, 0, 0, 0, 0, 0]"
    and "write_name (b_buf bd) (b_off bd) nm = (buf', Ok ns)"
    and "ns \<le> length buf'" "length buf' < ns + 4"
  shows "snd (add_question bo bd nm qt qc) = Panic"
proof (cases "length buf' < ns + 2")
  case True
  then show ?thesis using assms by (simp add: add_question_def Let_def lift_def write_u16_short)
next
  case False
  then show ?thesis using assms
    by (simp add: add_question_def Let_def lift_def write_u16_short write_u16_in)
qed

lemma add_question_outcomes:
  assumes host: "wf_host host" and buf: "12 < length buf"
    and bd: "bd = fst (builder_start bo (builder_new buf) i recursion)"
  shows "snd (add_question bo bd host qt qc) =
    (if length host + 18 \<le> length buf then Ok ()
     else if length host + 13 \<le> length buf then Panic else Err ())"
proof -
  let ?h = "header_bytes (query_header i recursion)"
  let ?r = "drop 12 buf"
  let ?ps = "split_dots host"
  let ?e = "encode_labels ?ps"
  let ?q = "snd (add_question bo bd host qt qc)"
  have bd: "bd = \<lparr>b_buf = ?h @ ?r, b_off = 12\<rparr>"
    using buf by (simp add: bd builder_start_Ok)
  have len_e: "length ?e = length host + 2"
    by (simp add: length_encode_labels split_dots_nonempty join_split_dots)
  have ps: "\<forall>p \<in> set ?ps. length p < 63" using host by (simp add: wf_host_def)
  have counts: "(slice_range (?h @ ?r) 6 12 :: (unit, bytes) res) = Ok [0, 0, 0, 0, 0, 0]"
    using query_header_counts(1) by (simp add: slice_in)
  consider "length host + 18 \<le> length buf" | "length buf < length host + 13"
    | "length buf = length host + 13" | "length host + 14 \<le> length buf" "length buf < length host + 18"
    by linarith
  then show ?thesis
  proof cases
    case 1
    then show ?thesis using add_question_Ok [OF host, of ?r] buf by (simp add: bd)
  next
    case 2
    then show ?thesis using write_parts_Err [OF ps, of 12 "?h @ ?r"] buf len_e counts
      by (cases "write_parts (?h @ ?r) 12 ?ps") (simp add: add_question_def bd write_name_def)
  next
    case 3
    then show ?thesis using write_parts_Panic [OF ps, of 12 "?h @ ?r"] buf len_e counts
      by (cases "write_parts (?h @ ?r) 12 ?ps") (simp add: add_question_def bd write_name_def)
  next
    case 4
    then have wp: "write_name (?h @ ?r) 12 host =
        (take 12 (?h @ ?r) @ ?e @ drop (12 + length ?e) (?h @ ?r), Ok (12 + length ?e))"
      unfolding write_name_def using len_e buf by (intro write_parts_Ok ps) simp
    have "?q = Panic"
      using add_question_short [of bd host] wp 4 counts len_e buf by (simp add: bd)
    with 4 show ?thesis by simp
  qed
qed

end

text \<open>
  C39: a query is read back as it was asked.  Started on a buffer with room for it, the builder
  encodes a host name (labels of 1 to 62 ASCII bytes) without an error, and parsing the bytes up to
  the offset that \<^verbatim>\<open>finish\<close> returns gives a packet with the query's id and recursion bit, one
  question of the given type and class whose name is displayed as the host name, and no records.
\<close>

theorem query_round_trip:
  assumes "big_endian bo" and "wf_host host" and "length host + 18 \<le> length buf"
  shows "\<exists>bd1 bd2 pk q.
    builder_start bo (builder_new buf) i recursion = (bd1, Ok ()) \<and>
    add_question bo bd1 host qt qc = (bd2, Ok ()) \<and>
    packet_parse bo (take (builder_finish bd2) (b_buf bd2)) = Ok pk \<and>
    h_id (p_header pk) = i \<and> h_query (p_header pk) \<and> h_recursion_desired (p_header pk) = recursion \<and>
    p_questions pk = [q] \<and> name_to_string bo (qname q) = Some (Ok host) \<and> qtype q = qt \<and> qclass q = qc \<and>
    p_answers pk = [] \<and> p_nameservers pk = [] \<and> p_additional pk = [] \<and> p_opt pk = None"
proof -
  let ?d = "query_bytes i recursion host qt qc"
  note be = big_endian.builder_start_Ok [OF assms(1)] big_endian.add_question_Ok [OF assms(1,2)]
    big_endian.parse_query [OF assms(1,2)] big_endian.query_name_text [OF assms(1,2)]
  have "add_question bo \<lparr>b_buf = header_bytes (query_header i recursion) @ drop 12 buf, b_off = 12\<rparr> host qt qc
      = (\<lparr>b_buf = ?d @ drop (length host + 6) (drop 12 buf), b_off = length ?d\<rparr>, Ok ())"
    using be(2) assms(3) by (simp add: length_query_bytes)
  with be(1) [of buf i recursion] assms(3) show ?thesis
    by (intro exI conjI) (auto simp: builder_finish_def be(3,4) query_header_def)
qed

text \<open>\<^verbatim>\<open>"ab.c"\<close>, as the bytes of a host name.\<close>

definition ab_c :: bytes where "ab_c = [0x61, 0x62, 0x2E, 0x63]"

lemma wf_host_ab_c: "wf_host ab_c" "length ab_c = 4"
  by (simp_all add: wf_host_def ab_c_def is_ascii_def)

theorem query_round_trip_witness:
  "\<exists>bd1 bd2 pk q.
    builder_start network (builder_new (replicate 64 7)) 9 True = (bd1, Ok ()) \<and>
    add_question network bd1 ab_c Q_A QC_IN = (bd2, Ok ()) \<and>
    packet_parse network (take (builder_finish bd2) (b_buf bd2)) = Ok pk \<and>
    h_id (p_header pk) = 9 \<and> h_query (p_header pk) \<and> h_recursion_desired (p_header pk) = True \<and>
    p_questions pk = [q] \<and> name_to_string network (qname q) = Some (Ok ab_c) \<and> qtype q = Q_A \<and> qclass q = QC_IN \<and>
    p_answers pk = [] \<and> p_nameservers pk = [] \<and> p_additional pk = [] \<and> p_opt pk = None"
  by (rule query_round_trip) (simp_all add: network.big_endian_axioms wf_host_ab_c)

text \<open>
  C37: what \<^verbatim>\<open>add_question\<close> does with a well-formed host name depends only on the room in the buffer:
  with 18 bytes beside the name it succeeds; with fewer than 13 it is refused with an error; in the
  gap of five lengths between, the root byte or one of the two 16-bit fields is written past the end
  of the buffer and the call panics instead of returning \<^verbatim>\<open>Err\<close>.
\<close>

theorem add_question_by_room:
  assumes "big_endian bo" and "wf_host host" and "12 < length buf"
  shows "snd (add_question bo (fst (builder_start bo (builder_new buf) i recursion)) host qt qc) =
    (if length host + 18 \<le> length buf then Ok ()
     else if length host + 13 \<le> length buf then Panic else Err ())"
  using assms by (intro big_endian.add_question_outcomes) auto

theorem add_question_by_room_witness:
  "snd (add_question network (fst (builder_start network (builder_new (replicate 20 0)) 9 True)) ab_c Q_A QC_IN)
    = Panic"
  using add_question_by_room [OF network.big_endian_axioms wf_host_ab_c(1), of "replicate 20 0" 9 True Q_A QC_IN]
  by (simp add: wf_host_ab_c)

end
