(* ===== verification/Ip_Text.thy ===== *)
theory Ip_Text
  imports Io_Model
begin

text \<open>
  The string functions of the standard library that the configuration readers of \<^verbatim>\<open>dns.rs\<close> use, on
  strings as lists of Unicode scalar values: \<^verbatim>\<open>str::lines\<close>, \<^verbatim>\<open>split_whitespace\<close>, \<^verbatim>\<open>starts_with\<close>, and
  \<^verbatim>\<open>IpAddr::from_str\<close> (the recursive-descent parser of \<^verbatim>\<open>core::net\<close>).
\<close>

type_synonym ustr = "nat list"

section \<open>Lines and words\<close>

definition is_whitespace :: "nat \<Rightarrow> bool" where
  "is_whitespace c \<longleftrightarrow>
     9 \<le> c \<and> c \<le> 13 \<or> c = 32 \<or> c = 0x85 \<or> c = 0xA0 \<or> c = 0x1680 \<or> 0x2000 \<le> c \<and> c \<le> 0x200A \<or>
     c = 0x2028 \<or> c = 0x2029 \<or> c = 0x202F \<or> c = 0x205F \<or> c = 0x3000"

text \<open>Lines end in a line feed, before which one carriage return is dropped; the last may lack it.\<close>

definition strip_cr :: "ustr \<Rightarrow> ustr" where
  "strip_cr l = (if l \<noteq> [] \<and> last l = 13 then butlast l else l)"

fun lines_from :: "ustr \<Rightarrow> ustr \<Rightarrow> ustr list" where
  "lines_from acc [] = (if acc = [] then [] else [rev acc])"
| "lines_from acc (c # cs) = (if c = 10 then strip_cr (rev acc) # lines_from [] cs else lines_from (c # acc) cs)"

definition str_lines :: "ustr \<Rightarrow> ustr list" where
  "str_lines s = lines_from [] s"

fun words_from :: "ustr \<Rightarrow> ustr \<Rightarrow> ustr list" where
  "words_from acc [] = (if acc = [] then [] else [rev acc])"
| "words_from acc (c # cs) =
     (if is_whitespace c then (if acc = [] then words_from [] cs else rev acc # words_from [] cs)
      else words_from (c # acc) cs)"

definition split_whitespace :: "ustr \<Rightarrow> ustr list" where
  "split_whitespace s = words_from [] s"

fun starts_with :: "ustr \<Rightarrow> ustr \<Rightarrow> bool" where
  "starts_with s [] = True"
| "starts_with [] (p # ps) = False"
| "starts_with (c # cs) (p # ps) = (c = p \<and> starts_with cs ps)"

section \<open>Numbers and addresses\<close>

definition to_digit :: "nat \<Rightarrow> nat \<Rightarrow> nat option" where
  "to_digit radix c =
     (let d = (if 48 \<le> c \<and> c \<le> 57 then Some (c - 48)
               else if 97 \<le> c \<and> c \<le> 102 then Some (c - 87)
               else if 65 \<le> c \<and> c \<le> 70 then Some (c - 55) else None)
      in case d of Some v \<Rightarrow> if v < radix then Some v else None | None \<Rightarrow> None)"

fun read_digits :: "nat \<Rightarrow> ustr \<Rightarrow> nat list \<times> ustr" where
  "read_digits radix [] = ([], [])"
| "read_digits radix (c # cs) =
     (case to_digit radix c of
        None \<Rightarrow> ([], c # cs)
      | Some d \<Rightarrow> (let (ds, r) = read_digits radix cs in (d # ds, r)))"

definition digits_value :: "nat \<Rightarrow> nat list \<Rightarrow> nat" where
  "digits_value radix ds = foldl (\<lambda>v d. v * radix + d) 0 ds"

text \<open>\<^verbatim>\<open>read_number\<close>: a number of at most \<open>maxd\<close> digits and at most \<open>maxv\<close>, or nothing is read.\<close>

definition read_number :: "nat \<Rightarrow> nat \<Rightarrow> nat \<Rightarrow> bool \<Rightarrow> ustr \<Rightarrow> (nat \<times> ustr) option" where
  "read_number radix maxd maxv allow_zero_prefix s =
     (let (ds, r) = read_digits radix s in
      if ds = [] \<or> maxd < length ds \<or> maxv < digits_value radix ds then None
      else if \<not> allow_zero_prefix \<and> hd ds = 0 \<and> 1 < length ds then None
      else Some (digits_value radix ds, r))"

definition read_char :: "nat \<Rightarrow> ustr \<Rightarrow> ustr option" where
  "read_char c s = (case s of [] \<Rightarrow> None | d # r \<Rightarrow> if d = c then Some r else None)"

definition read_separator :: "nat \<Rightarrow> nat \<Rightarrow> (ustr \<Rightarrow> ('a \<times> ustr) option) \<Rightarrow> ustr \<Rightarrow> ('a \<times> ustr) option" where
  "read_separator sep i p s =
     (if 0 < i then (case read_char sep s of None \<Rightarrow> None | Some r \<Rightarrow> p r) else p s)"

fun read_octets :: "nat \<Rightarrow> nat \<Rightarrow> ustr \<Rightarrow> (nat list \<times> ustr) option" where
  "read_octets i 0 s = Some ([], s)"
| "read_octets i (Suc n) s =
     (case read_separator 46 i (read_number 10 3 255 False) s of
        None \<Rightarrow> None
      | Some (v, r) \<Rightarrow> (case read_octets (Suc i) n r of None \<Rightarrow> None | Some (vs, r') \<Rightarrow> Some (v # vs, r')))"

definition octets_u32 :: "nat list \<Rightarrow> u32" where
  "octets_u32 os = word_of_nat (foldl (\<lambda>v b. v * 256 + b) 0 os)"

definition read_ipv4 :: "ustr \<Rightarrow> (nat list \<times> ustr) option" where
  "read_ipv4 s = read_octets 0 4 s"

text \<open>\<^verbatim>\<open>read_groups\<close> for \<open>n\<close> groups, the first of them number \<open>i\<close>: the groups read, whether they end in an
  embedded IPv4 address, and the rest.\<close>

fun read_groups :: "nat \<Rightarrow> nat \<Rightarrow> ustr \<Rightarrow> u16 list \<times> bool \<times> ustr" where
  "read_groups i 0 s = ([], False, s)"
| "read_groups i (Suc n) s =
     (case (if 0 < n then read_separator 58 i read_ipv4 s else None) of
        Some ([a, b, c, d], r) \<Rightarrow> ([word_of_nat (a * 256 + b), word_of_nat (c * 256 + d)], True, r)
      | _ \<Rightarrow>
        (case read_separator 58 i (read_number 16 4 65535 True) s of
           None \<Rightarrow> ([], False, s)
         | Some (g, r) \<Rightarrow> (let (gs, v4, r') = read_groups (Suc i) n r in (word_of_nat g # gs, v4, r'))))"

definition groups_ipv6 :: "u16 list \<Rightarrow> ipv6" where
  "groups_ipv6 g = Ipv6 (g ! 0) (g ! 1) (g ! 2) (g ! 3) (g ! 4) (g ! 5) (g ! 6) (g ! 7)"

definition read_ipv6 :: "ustr \<Rightarrow> (ipv6 \<times> ustr) option" where
  "read_ipv6 s =
     (let (hd, hd_v4, r) = read_groups 0 8 s in
      if length hd = 8 then Some (groups_ipv6 hd, r)
      else if hd_v4 then None
      else case read_char 58 r of None \<Rightarrow> None | Some r1 \<Rightarrow>
        (case read_char 58 r1 of None \<Rightarrow> None | Some r2 \<Rightarrow>
          (let (tl, _, r3) = read_groups 0 (8 - (length hd + 1)) r2
           in Some (groups_ipv6 (hd @ replicate (8 - length hd - length tl) 0 @ tl), r3))))"

text \<open>\<^verbatim>\<open>IpAddr::from_str\<close>: an IPv4 or else an IPv6 address, and nothing after it.\<close>

definition parse_ip :: "ustr \<Rightarrow> ip_addr option" where
  "parse_ip s =
     (case (case read_ipv4 s of
              Some (os, r) \<Rightarrow> Some (V4 (octets_u32 os), r)
            | None \<Rightarrow> (case read_ipv6 s of Some (a, r) \<Rightarrow> Some (V6 a, r) | None \<Rightarrow> None)) of
        Some (a, []) \<Rightarrow> Some a
      | _ \<Rightarrow> None)"

section \<open>Decimal addresses\<close>

definition dec3 :: "nat \<Rightarrow> ustr" where
  "dec3 n = (if n < 10 then [48 + n] else if n < 100 then [48 + n div 10, 48 + n mod 10]
     else [48 + n div 100, 48 + n div 10 mod 10, 48 + n mod 10])"

definition dotted :: "nat list \<Rightarrow> ustr" where
  "dotted os = dec3 (os ! 0) @ 46 # dec3 (os ! 1) @ 46 # dec3 (os ! 2) @ 46 # dec3 (os ! 3)"

lemma to_digit_dec: "d < 10 \<Longrightarrow> to_digit 10 (48 + d) = Some d"
  by (simp add: to_digit_def)

lemma read_digits_stop: "to_digit radix c = None \<Longrightarrow> read_digits radix (c # r) = ([], c # r)"
  by simp

lemma read_digits_dec3:
  assumes "n < 1000" "r = [] \<or> to_digit 10 (hd r) = None"
  shows "read_digits 10 (dec3 n @ r) =
    ((if n < 10 then [n] else if n < 100 then [n div 10, n mod 10] else [n div 100, n div 10 mod 10, n mod 10]), r)"
proof -
  have r: "read_digits 10 r = ([], r)" using assms(2) by (cases r) auto
  have "n div 100 < 10" using assms(1) by simp
  then show ?thesis using r by (simp add: dec3_def to_digit_dec)
qed

lemma read_number_dec3:
  assumes "n < 256" "r = [] \<or> to_digit 10 (hd r) = None"
  shows "read_number 10 3 255 False (dec3 n @ r) = Some (n, r)"
proof -
  have v2: "n div 10 * 10 + n mod 10 = n" by simp
  have v3: "(n div 100 * 10 + n div 10 mod 10) * 10 + n mod 10 = n"
  proof -
    have "n div 100 = n div 10 div 10" by (simp add: div_mult2_eq [symmetric])
    then show ?thesis by simp
  qed
  have "n div 100 = 0 \<Longrightarrow> n < 100" by simp
  then show ?thesis
    using assms read_digits_dec3 [of n r] v2 v3
    by (auto simp: read_number_def digits_value_def Let_def)
qed

lemma read_ipv4_dotted:
  assumes "length os = 4" "\<forall>n \<in> set os. n < 256" "r = [] \<or> to_digit 10 (hd r) = None"
  shows "read_ipv4 (dotted os @ r) = Some (os, r)"
proof -
  obtain a b c d where os: "os = [a, b, c, d]" using assms(1) by (auto simp: eval_nat_numeral length_Suc_conv)
  have dot: "to_digit 10 46 = None" by (simp add: to_digit_def)
  have lt: "a < 256" "b < 256" "c < 256" "d < 256" using assms(2) os by auto
  have 1: "read_number 10 3 255 False (dec3 n @ 46 # x) = Some (n, 46 # x)" if "n < 256" for n x
    using that read_number_dec3 [of n "46 # x"] dot by simp
  have four: "read_ipv4 s = read_octets 0 (Suc (Suc (Suc (Suc 0)))) s" for s
    by (simp add: read_ipv4_def numeral_eq_Suc)
  show ?thesis
    using lt os assms(3) unfolding four
    by (simp add: dotted_def read_separator_def read_char_def 1 read_number_dec3)
qed

lemma parse_ip_dotted:
  assumes "length os = 4" "\<forall>n \<in> set os. n < 256"
  shows "parse_ip (dotted os) = Some (V4 (octets_u32 os))"
  using read_ipv4_dotted [OF assms, of "[]"] by (simp add: parse_ip_def)

end
