(* ===== verification/Dns_Lookup.thy ===== *)
theory Dns_Lookup
  imports Dns_Builder Ip_Text
begin

text \<open>
  \<^verbatim>\<open>dns.rs\<close>: the address in a response (\<^verbatim>\<open>dns_parse\<close>), the client that sends the queries (the
  implementation for every system but macOS), and the readers of the server configuration.

  The network and the random numbers are a parameter: operations on an abstract world, which each call
  returns changed.
\<close>

section \<open>The answer of a response\<close>

fun first_address :: "resource_record list \<Rightarrow> ip_addr option" where
  "first_address [] = None"
| "first_address (a # as) =
     (case rr_rdata a of RR_A ip \<Rightarrow> Some (V4 ip) | RR_AAAA ip \<Rightarrow> Some (V6 ip) | _ \<Rightarrow> first_address as)"

definition dns_parse :: "byteorder \<Rightarrow> bytes \<Rightarrow> (io_error, ip_addr option) res" where
  "dns_parse bo buf =
     bindR (unwrapR (packet_parse bo buf)) (\<lambda>packet. Ok (first_address (p_answers packet)))"

section \<open>The client\<close>

type_synonym sock = nat

record 'w net_ops =
  net_udp_bind :: "sock_addr \<Rightarrow> 'w \<Rightarrow> 'w \<times> (io_error, sock) res"
  net_send_to :: "sock \<Rightarrow> bytes \<Rightarrow> sock_addr \<Rightarrow> 'w \<Rightarrow> 'w \<times> (io_error, nat) res"
  net_random_u16 :: "'w \<Rightarrow> u16 \<times> 'w"

record dns =
  srvs :: "ip_addr list"

definition unspecified_v6 :: ip_addr where
  "unspecified_v6 = V6 (Ipv6 0 0 0 0 0 0 0 0)"

definition get_socket_v4 :: "'w net_ops \<Rightarrow> 'w \<Rightarrow> 'w \<times> (io_error, sock) res" where
  "get_socket_v4 net w = net_udp_bind net (SocketAddr (V4 0) 0) w"

definition get_socket_v6 :: "'w net_ops \<Rightarrow> 'w \<Rightarrow> 'w \<times> (io_error, sock) res" where
  "get_socket_v6 net w = net_udp_bind net (SocketAddr unspecified_v6 0) w"

text \<open>
  The query that \<^verbatim>\<open>lookup_on\<close> builds in its buffer of 512 bytes; the errors of the builder are ignored,
  and what has been written up to its offset is sent.
\<close>

definition build_query :: "byteorder \<Rightarrow> u16 \<Rightarrow> bytes \<Rightarrow> (io_error, bytes) res" where
  "build_query bo i host =
     (case builder_start bo (builder_new (replicate 512 0)) i True of
        (bd, Panic) \<Rightarrow> Panic
      | (bd, _) \<Rightarrow>
         (case add_question bo bd host Q_A QC_IN of
            (bd, Panic) \<Rightarrow> Panic
          | (bd, _) \<Rightarrow> slice_to (b_buf bd) (builder_finish bd)))"

fun lookup_loop ::
  "byteorder \<Rightarrow> 'w net_ops \<Rightarrow> dns \<Rightarrow> sock \<Rightarrow> bytes \<Rightarrow> nat \<Rightarrow> nat \<Rightarrow> io_error \<Rightarrow> 'w \<Rightarrow> 'w \<times> (io_error, unit) res"
where
  "lookup_loop bo net d s host 0 pos last_err w = (w, Err last_err)"
| "lookup_loop bo net d s host (Suc n) pos last_err w =
     (let srv = pos mod length (srvs d) in
      bindS (lift w (index (srvs d) srv)) (\<lambda>w ip.
      let sockaddr = SocketAddr ip 53; (i, w) = net_random_u16 net w in
      bindS (lift w (build_query bo i host)) (\<lambda>w buf_send.
      case net_send_to net s buf_send sockaddr w of
        (w, Ok _) \<Rightarrow> (w, Ok ())
      | (w, Err e) \<Rightarrow> lookup_loop bo net d s host n (pos + 1) e w
      | (w, Panic) \<Rightarrow> (w, Panic))))"

definition lookup_on ::
  "byteorder \<Rightarrow> 'w net_ops \<Rightarrow> dns \<Rightarrow> sock \<Rightarrow> nat \<Rightarrow> bytes \<Rightarrow> 'w \<Rightarrow> 'w \<times> (io_error, unit) res" where
  "lookup_on bo net d s pos host w =
     lookup_loop bo net d s host (length (srvs d)) pos (IoError OtherKind '''') w"

definition start_lookup ::
  "byteorder \<Rightarrow> 'w net_ops \<Rightarrow> dns \<Rightarrow> bytes \<Rightarrow> 'w \<Rightarrow> 'w \<times> (io_error, sock option) res" where
  "start_lookup bo net d host w =
     (let v6 = (\<lambda>w.
        bindS (get_socket_v6 net w) (\<lambda>w s.
        bindS (lookup_on bo net d s 0 host w) (\<lambda>w _. (w, Ok (Some s))))) in
      case get_socket_v4 net w of
        (w, Ok s) \<Rightarrow>
          (case lookup_on bo net d s 0 host w of
             (w, Ok _) \<Rightarrow> (w, Ok (Some s))
           | (w, Err _) \<Rightarrow> v6 w
           | (w, Panic) \<Rightarrow> (w, Panic))
      | (w, Err _) \<Rightarrow> v6 w
      | (w, Panic) \<Rightarrow> (w, Panic))"

definition check_result :: "dns \<Rightarrow> (usize \<times> usize \<times> ip_addr) option" where
  "check_result d = None"

section \<open>Server configuration\<close>

definition kw_nameserver :: ustr where
  "kw_nameserver = [110, 97, 109, 101, 115, 101, 114, 118, 101, 114]"

definition get_google :: "(io_error, ip_addr list) res" where
  "get_google =
     bindR (unwrapO (parse_ip [56, 46, 56, 46, 56, 46, 56])) (\<lambda>a.
     bindR (unwrapO (parse_ip [56, 46, 56, 46, 52, 46, 52])) (\<lambda>b. Ok [a, b]))"

definition resolv_line :: "ustr \<Rightarrow> ip_addr option" where
  "resolv_line line =
     (case split_whitespace line of
        s # s' # _ \<Rightarrow> if starts_with s kw_nameserver then parse_ip s' else None
      | _ \<Rightarrow> None)"

definition resolv_parse :: "ustr \<Rightarrow> ip_addr list" where
  "resolv_parse s = List.map_filter resolv_line (str_lines s)"

definition scutil_line :: "ustr \<Rightarrow> ip_addr option" where
  "scutil_line line =
     (case split_whitespace line of
        s # s' # s'' # _ \<Rightarrow> if starts_with s (kw_nameserver @ [91]) \<and> s' = [58] then parse_ip s'' else None
      | _ \<Rightarrow> None)"

definition scutil_parse :: "ustr \<Rightarrow> ip_addr list" where
  "scutil_parse s = List.map_filter scutil_line (str_lines s)"

text \<open>
  \<^verbatim>\<open>get_dns_servers\<close> on Unix: \<open>contents\<close> is what reading \<^verbatim>\<open>/etc/resolv.conf\<close> as UTF-8 text gave, \<^const>\<open>None\<close>
  when the file could not be opened or read.
\<close>

definition get_dns_servers :: "ustr option \<Rightarrow> (io_error, ip_addr list) res" where
  "get_dns_servers contents = (case contents of Some s \<Rightarrow> Ok (resolv_parse s) | None \<Rightarrow> get_google)"

definition dns_new :: "ustr option \<Rightarrow> (io_error, dns) res" where
  "dns_new contents = bindR (get_dns_servers contents) (\<lambda>s. Ok \<lparr>srvs = s\<rparr>)"

section \<open>The first address among the answers\<close>

lemma first_address_None:
  "first_address rs = None \<longleftrightarrow> (\<forall>x \<in> set rs. \<forall>a b. rr_rdata x \<noteq> RR_A a \<and> rr_rdata x \<noteq> RR_AAAA b)"
  by (induction rs) (auto split: rr_data.split)

lemma first_address_Some:
  "first_address rs = Some ip \<longleftrightarrow> (\<exists>xs r ys. rs = xs @ r # ys \<and>
     (\<forall>x \<in> set xs. \<forall>a b. rr_rdata x \<noteq> RR_A a \<and> rr_rdata x \<noteq> RR_AAAA b) \<and>
     (case ip of V4 a \<Rightarrow> rr_rdata r = RR_A a | V6 b \<Rightarrow> rr_rdata r = RR_AAAA b))"
proof
  show "first_address rs = Some ip \<Longrightarrow> \<exists>xs r ys. rs = xs @ r # ys \<and>
     (\<forall>x \<in> set xs. \<forall>a b. rr_rdata x \<noteq> RR_A a \<and> rr_rdata x \<noteq> RR_AAAA b) \<and>
     (case ip of V4 a \<Rightarrow> rr_rdata r = RR_A a | V6 b \<Rightarrow> rr_rdata r = RR_AAAA b)"
  proof (induction rs)
    case (Cons x rs)
    show ?case
    proof (cases "\<exists>a b. rr_rdata x = RR_A a \<or> rr_rdata x = RR_AAAA b")
      case True
      then show ?thesis using Cons.prems by (intro exI [of _ "[]"] exI [of _ x] exI [of _ rs]) auto
    next
      case False
      then have "first_address rs = Some ip" using Cons.prems by (auto split: rr_data.splits)
      then obtain xs r ys where "rs = xs @ r # ys"
        "\<forall>x \<in> set xs. \<forall>a b. rr_rdata x \<noteq> RR_A a \<and> rr_rdata x \<noteq> RR_AAAA b"
        "case ip of V4 a \<Rightarrow> rr_rdata r = RR_A a | V6 b \<Rightarrow> rr_rdata r = RR_AAAA b"
        using Cons.IH by blast
      then show ?thesis using False by (intro exI [of _ "x # xs"] exI [of _ r] exI [of _ ys]) auto
    qed
  qed simp
next
  assume "\<exists>xs r ys. rs = xs @ r # ys \<and>
     (\<forall>x \<in> set xs. \<forall>a b. rr_rdata x \<noteq> RR_A a \<and> rr_rdata x \<noteq> RR_AAAA b) \<and>
     (case ip of V4 a \<Rightarrow> rr_rdata r = RR_A a | V6 b \<Rightarrow> rr_rdata r = RR_AAAA b)"
  then obtain xs r ys where rs: "rs = xs @ r # ys"
    and xs: "\<forall>x \<in> set xs. \<forall>a b. rr_rdata x \<noteq> RR_A a \<and> rr_rdata x \<noteq> RR_AAAA b"
    and r: "case ip of V4 a \<Rightarrow> rr_rdata r = RR_A a | V6 b \<Rightarrow> rr_rdata r = RR_AAAA b"
    by blast
  have "first_address (xs @ r # ys) = Some ip"
    using xs r by (induction xs) (auto split: rr_data.split ip_addr.splits)
  then show "first_address rs = Some ip" by (simp add: rs)
qed

section \<open>What is sent for a host name\<close>

lemma write_parts_keeps: "take off (fst (write_parts buf off ps)) = take off buf"
proof (induction ps arbitrary: buf off)
  case Nil
  then show ?case by (simp add: store_def)
next
  case (Cons p ps)
  show ?case
  proof (cases "63 \<le> length p \<or> length buf < length p + off + 1")
    case False
    let ?b = "take (off + 1) (buf[off := word_of_nat (length p)]) @ p @
        drop (off + 1 + length p) (buf[off := word_of_nat (length p)])"
    have "write_parts buf off (p # ps) = write_parts ?b (off + 1 + length p) ps"
      using False by (simp add: store_in copy_into_in Let_def)
    moreover have "take off (fst (write_parts ?b (off + 1 + length p) ps)) = take off ?b"
      using arg_cong [OF Cons.IH [of "off + 1 + length p" ?b], of "take off"] by (simp add: min_def)
    moreover have "take off ?b = take off buf" using False by (simp add: min_def)
    ultimately show ?thesis by simp
  qed simp
qed

context big_endian
begin

lemma builder_start_512:
  "builder_start bo (builder_new (replicate 512 0)) i True =
    (\<lparr>b_buf = header_bytes (query_header i True) @ replicate 500 0, b_off = 12\<rparr>, Ok ())"
  by (simp add: builder_start_Ok)

text \<open>A refused question leaves the builder at the end of the header.\<close>

lemma build_query_refused:
  assumes "snd (write_parts (header_bytes (query_header i True) @ replicate 500 0) 12 (split_dots host)) = Err ()"
  shows "build_query bo i host = Ok (header_bytes (query_header i True))"
proof -
  let ?h = "header_bytes (query_header i True)"
  have counts: "(slice_range (?h @ replicate 500 0) 6 12 :: (unit, bytes) res) = Ok [0, 0, 0, 0, 0, 0]"
    using query_header_counts(1) by (simp add: slice_in)
  obtain buf where wp: "write_parts (?h @ replicate 500 0) 12 (split_dots host) = (buf, Err ())"
    using assms by (cases "write_parts (?h @ replicate 500 0) 12 (split_dots host)") auto
  have tk: "take 12 buf = ?h" using write_parts_keeps [of 12 "?h @ replicate 500 0" "split_dots host"] wp by simp
  have "12 \<le> length buf" using arg_cong [OF tk, of length] by simp
  then show ?thesis
    using counts wp tk by (simp add: build_query_def builder_start_512 add_question_def write_name_def
        builder_finish_def slice_to_in)
qed

lemma build_query_outcomes:
  assumes "wf_host host"
  shows "build_query bo i host =
    (if length host \<le> 494 then Ok (query_bytes i True host Q_A QC_IN)
     else if length host \<le> 499 then Panic else Ok (header_bytes (query_header i True)))"
proof -
  let ?bd = "\<lparr>b_buf = header_bytes (query_header i True) @ replicate 500 0, b_off = 12\<rparr>"
  have bd: "?bd = fst (builder_start bo (builder_new (replicate 512 0)) i True)" by (simp add: builder_start_512)
  have out: "snd (add_question bo ?bd host Q_A QC_IN) =
      (if length host \<le> 494 then Ok () else if length host \<le> 499 then Panic else Err ())"
    using add_question_outcomes [OF assms _ bd, of Q_A QC_IN] by simp
  consider "length host \<le> 494" | "494 < length host" "length host \<le> 499" | "499 < length host" by linarith
  then show ?thesis
  proof cases
    case 1
    have "add_question bo ?bd host Q_A QC_IN = (\<lparr>b_buf = query_bytes i True host Q_A QC_IN @
        drop (length host + 6) (replicate 500 0), b_off = length host + 18\<rparr>, Ok ())"
      using 1 by (intro add_question_Ok [OF assms]) simp
    then show ?thesis
      using 1 by (simp add: build_query_def builder_start_512 builder_finish_def slice_to_in length_query_bytes)
  next
    case 2
    then show ?thesis using out
      by (cases "add_question bo ?bd host Q_A QC_IN") (simp add: build_query_def builder_start_512)
  next
    case 3
    have "\<forall>p \<in> set (split_dots host). length p < 63" using assms by (simp add: wf_host_def)
    then have "snd (write_parts (header_bytes (query_header i True) @ replicate 500 0) 12 (split_dots host)) = Err ()"
      using 3 by (intro write_parts_Err)
        (simp_all add: length_encode_labels split_dots_nonempty join_split_dots)
    then show ?thesis using 3 build_query_refused by simp
  qed
qed

end

section \<open>Which servers are asked\<close>

text \<open>
  The datagrams for queries with the identifiers \<open>ids\<close>: one to each server in turn, starting with server
  \<open>pos\<close> and wrapping around.
\<close>

fun round_robin :: "dns \<Rightarrow> sock \<Rightarrow> (u16 \<Rightarrow> bytes) \<Rightarrow> nat \<Rightarrow> u16 list \<Rightarrow> (sock \<times> bytes \<times> sock_addr) list" where
  "round_robin d s q pos [] = []"
| "round_robin d s q pos (i # ids) =
     (s, q i, SocketAddr (srvs d ! (pos mod length (srvs d))) 53) # round_robin d s q (pos + 1) ids"

type_synonym sent_log = "((sock \<times> bytes \<times> sock_addr) \<times> (io_error, nat) res) list"

text \<open>
  From world \<open>w\<close> to world \<open>w'\<close> the queries \<open>ids\<close> were sent in turn, and \<open>outs\<close> is what came of them.
\<close>

definition asked ::
  "('w \<Rightarrow> sent_log) \<Rightarrow> ('w \<Rightarrow> u16 list) \<Rightarrow> dns \<Rightarrow> sock \<Rightarrow> (u16 \<Rightarrow> bytes) \<Rightarrow> nat \<Rightarrow> 'w \<Rightarrow> 'w \<Rightarrow>
   u16 list \<Rightarrow> (io_error, nat) res list \<Rightarrow> bool"
where
  "asked log drawn d s q pos w w' ids outs \<longleftrightarrow>
     length outs = length ids \<and> drawn w' = drawn w @ ids \<and> log w' = log w @ zip (round_robin d s q pos ids) outs"

text \<open>
  A network whose use can be observed: every send is logged with its outcome, every random number that is
  drawn is recorded, and sending fails with an error rather than a panic.
\<close>

locale observed_net =
  fixes net :: "'w net_ops" and log :: "'w \<Rightarrow> sent_log" and drawn :: "'w \<Rightarrow> u16 list"
  assumes send_logs: "log (fst (net_send_to net s b a w)) = log w @ [((s, b, a), snd (net_send_to net s b a w))]"
    and send_draws_nothing: "drawn (fst (net_send_to net s b a w)) = drawn w"
    and random_silent: "log (snd (net_random_u16 net w)) = log w"
    and random_drawn: "drawn (snd (net_random_u16 net w)) = drawn w @ [fst (net_random_u16 net w)]"
    and send_no_panic: "snd (net_send_to net s b a w) \<noteq> Panic"
begin

lemma asked_Nil: "asked log drawn d s q pos w w [] []"
  by (simp add: asked_def)

lemma asked_Cons:
  assumes rnd: "net_random_u16 net w = (i, w1)"
    and snt: "net_send_to net s (q i) (SocketAddr (srvs d ! (pos mod length (srvs d))) 53) w1 = (w2, r)"
    and rest: "asked log drawn d s q (pos + 1) w2 w' ids outs"
  shows "asked log drawn d s q pos w w' (i # ids) (r # outs)"
  using rest send_logs [of s "q i" "SocketAddr (srvs d ! (pos mod length (srvs d))) 53" w1]
    send_draws_nothing [of s "q i" "SocketAddr (srvs d ! (pos mod length (srvs d))) 53" w1]
    random_silent [of w] random_drawn [of w] rnd snt
  by (simp add: asked_def)

lemma lookup_loop_asks:
  assumes build: "\<And>i. build_query bo i host = Ok (q i)" and srv: "srvs d \<noteq> []"
    and run: "lookup_loop bo net d s host n pos e w = (w', r)"
  shows "(\<exists>ids es k. asked log drawn d s q pos w w' ids (map Err es @ [Ok k]) \<and> length ids \<le> n \<and> r = Ok ()) \<or>
    (\<exists>ids es. asked log drawn d s q pos w w' ids (map Err es) \<and> length ids = n \<and> r = Err (last (e # es)))"
  using run
proof (induction n arbitrary: pos e w)
  case 0
  then show ?case using asked_Nil by (intro disjI2 exI [of _ "[]"]) auto
next
  case (Suc n)
  obtain i w1 where rnd: "net_random_u16 net w = (i, w1)" by (cases "net_random_u16 net w")
  let ?a = "SocketAddr (srvs d ! (pos mod length (srvs d))) 53"
  obtain w2 o1 where snt: "net_send_to net s (q i) ?a w1 = (w2, o1)" by (cases "net_send_to net s (q i) ?a w1")
  note step = asked_Cons [of w i w1 s q d pos w2 o1, OF rnd snt]
  have idx: "(index (srvs d) (pos mod length (srvs d)) :: (io_error, ip_addr) res) = Ok (srvs d ! (pos mod length (srvs d)))"
    using srv by (simp add: index_in)
  have loop: "lookup_loop bo net d s host (Suc n) pos e w =
      (case o1 of Ok _ \<Rightarrow> (w2, Ok ()) | Err e \<Rightarrow> lookup_loop bo net d s host n (pos + 1) e w2 | Panic \<Rightarrow> (w2, Panic))"
    using idx rnd build [of i] snt by (simp add: Let_def split: res.split)
  show ?case
  proof (cases o1)
    case (Ok k)
    then have "w' = w2" "r = Ok ()" using Suc.prems loop by auto
    then show ?thesis using step [OF asked_Nil] Ok
      by (intro disjI1 exI [of _ "[i]"] exI [of _ "[]"] exI [of _ k]) simp
  next
    case (Err e1)
    then have "lookup_loop bo net d s host n (pos + 1) e1 w2 = (w', r)" using Suc.prems loop by simp
    from Suc.IH [OF this] consider
      ids es k where "asked log drawn d s q (pos + 1) w2 w' ids (map Err es @ [Ok k])" "length ids \<le> n" "r = Ok ()"
      | ids es where "asked log drawn d s q (pos + 1) w2 w' ids (map Err es)" "length ids = n" "r = Err (last (e1 # es))"
      by blast
    then show ?thesis
    proof cases
      case (1 ids es k)
      then show ?thesis using step [OF 1(1)] Err
        by (intro disjI1 exI [of _ "i # ids"] exI [of _ "e1 # es"] exI [of _ k]) simp
    next
      case (2 ids es)
      then show ?thesis using step [OF 2(1)] Err
        by (intro disjI2 exI [of _ "i # ids"] exI [of _ "e1 # es"]) simp
    qed
  next
    case Panic
    then show ?thesis using send_no_panic [of s "q i" ?a w1] snt by simp
  qed
qed

end

text \<open>
  A network on which every datagram is recorded and the first \<open>refusals\<close> sends fail; the identifiers
  count up.
\<close>

record test_net =
  sent :: sent_log
  draws :: "u16 list"
  refusals :: nat
  seed :: u16

definition test_net_ops :: "test_net net_ops" where
  "test_net_ops =
     \<lparr>net_udp_bind = (\<lambda>a w. (w, Ok 0)),
      net_send_to = (\<lambda>s b a w.
        let r = (if 0 < refusals w then Err (IoError (OsError 101) '''') else Ok (length b)) in
        (w\<lparr>sent := sent w @ [((s, b, a), r)], refusals := refusals w - 1\<rparr>, r)),
      net_random_u16 = (\<lambda>w. (seed w, w\<lparr>draws := draws w @ [seed w], seed := seed w + 1\<rparr>))\<rparr>"

interpretation test_net: observed_net test_net_ops sent draws
  by unfold_locales (simp_all add: test_net_ops_def Let_def)

section \<open>Reading the configuration\<close>

definition nameserver_line :: "nat list \<Rightarrow> ustr" where
  "nameserver_line os = kw_nameserver @ 32 # dotted os @ [10]"

lemma lines_from_append: "10 \<notin> set l \<Longrightarrow> lines_from acc (l @ 10 # r) = strip_cr (rev acc @ l) # lines_from [] r"
  by (induction l arbitrary: acc) auto

lemma words_from_append: "\<forall>c \<in> set l. \<not> is_whitespace c \<Longrightarrow> words_from acc (l @ r) = words_from (rev l @ acc) r"
  by (induction l arbitrary: acc) auto

lemma dec3_chars: "n < 256 \<Longrightarrow> c \<in> set (dec3 n) \<Longrightarrow> 48 \<le> c \<and> c \<le> 57"
  by (auto simp: dec3_def split: if_splits)

lemma dotted_chars:
  assumes "length os = 4" "\<forall>n \<in> set os. n < 256" "c \<in> set (dotted os)"
  shows "c = 46 \<or> 48 \<le> c \<and> c \<le> 57"
proof -
  have lt: "os ! k < 256" if "k < 4" for k using assms(1,2) that by simp
  have "c = 46 \<or> (\<exists>k < 4. c \<in> set (dec3 (os ! k)))"
    using assms(3) by (auto simp: dotted_def intro: exI [of _ 0] exI [of _ 1] exI [of _ 2] exI [of _ 3])
  then show ?thesis using lt dec3_chars by blast
qed

lemma dotted_nonempty: "dotted os \<noteq> []"
  by (simp add: dotted_def dec3_def)

lemma starts_with_refl: "starts_with (s @ r) s"
  by (induction s) auto

lemma resolv_nameserver_line:
  assumes "length os = 4" "\<forall>n \<in> set os. n < 256"
  shows "resolv_line (kw_nameserver @ 32 # dotted os) = Some (V4 (octets_u32 os))"
proof -
  have k: "\<forall>c \<in> set kw_nameserver. \<not> is_whitespace c" by (simp add: kw_nameserver_def is_whitespace_def)
  have d: "\<forall>c \<in> set (dotted os). \<not> is_whitespace c"
    using dotted_chars [OF assms] by (fastforce simp: is_whitespace_def)
  have "split_whitespace (kw_nameserver @ 32 # dotted os) = [kw_nameserver, dotted os]"
    using words_from_append [OF k, of "[]" "32 # dotted os"] words_from_append [OF d, of "[]" "[]"] dotted_nonempty
    by (simp add: split_whitespace_def is_whitespace_def) (simp add: kw_nameserver_def)
  then show ?thesis
    using parse_ip_dotted [OF assms] starts_with_refl [of kw_nameserver "[]"] by (simp add: resolv_line_def)
qed

lemma resolv_lines:
  assumes "\<forall>os \<in> set addrs. length os = 4 \<and> (\<forall>n \<in> set os. n < 256)"
  shows "resolv_parse (concat (map nameserver_line addrs)) = map (\<lambda>os. V4 (octets_u32 os)) addrs"
  using assms
proof (induction addrs)
  case Nil
  then show ?case by (simp add: resolv_parse_def str_lines_def map_filter_def)
next
  case (Cons os addrs)
  let ?l = "kw_nameserver @ 32 # dotted os" and ?r = "concat (map nameserver_line addrs)"
  have os: "length os = 4" "\<forall>n \<in> set os. n < 256" using Cons.prems by auto
  have "10 \<notin> set ?l" using dotted_chars [OF os, of 10] by (auto simp: kw_nameserver_def)
  then have "str_lines (nameserver_line os @ ?r) = strip_cr ?l # str_lines ?r"
    using lines_from_append [of ?l "[]" ?r] by (simp add: str_lines_def nameserver_line_def)
  moreover have "strip_cr ?l = ?l"
  proof -
    have "last (dotted os) \<in> set (dotted os)" using dotted_nonempty by simp
    then have "last (dotted os) \<noteq> 13" using dotted_chars [OF os] by fastforce
    then show ?thesis using dotted_nonempty by (simp add: strip_cr_def)
  qed
  ultimately show ?case
    using Cons resolv_nameserver_line [OF os] by (simp add: resolv_parse_def map_filter_def)
qed

section \<open>A response with an address\<close>

text \<open>
  The usual response of a server to the query for a host: the question repeated, and one address record
  whose name is a pointer to the name of the question (offset 12).
\<close>

definition answer_header :: "u16 \<Rightarrow> header" where
  "answer_header i = (query_header i True)\<lparr>h_query := False, h_recursion_available := True, h_questions := 1, h_answers := 1\<rparr>"

definition u32_bytes :: "u32 \<Rightarrow> bytes" where
  "u32_bytes v = [ucast (drop_bit 24 v), ucast (drop_bit 16 v), ucast (drop_bit 8 v), ucast v]"

definition answer_bytes :: "u16 \<Rightarrow> bytes \<Rightarrow> u32 \<Rightarrow> u32 \<Rightarrow> bytes" where
  "answer_bytes i host ttl ip =
     header_bytes (answer_header i) @ encode_labels (split_dots host) @ [0, 1, 0, 1] @
     [0xC0, 0x0C, 0, 1, 0, 1] @ u32_bytes ttl @ [0, 4] @ u32_bytes ip"

lemma be32_u32_bytes:
  "be32 (ucast (drop_bit 24 v)) (ucast (drop_bit 16 v)) (ucast (drop_bit 8 v)) (ucast v) = v"
proof (rule bit_word_eqI)
  fix n assume "n < LENGTH(32)"
  then consider "n < 8" | "8 \<le> n" "n < 16" | "16 \<le> n" "n < 24" | "24 \<le> n" "n < 32" by fastforce
  then show "bit (be32 (ucast (drop_bit 24 v)) (ucast (drop_bit 16 v)) (ucast (drop_bit 8 v)) (ucast v)) n = bit v n"
    by cases (auto simp: be32_def bit_simps)
qed

lemma pointer_offset_12: "pointer_offset 0xC0 0x0C = 12" "(0xC0 :: u8) AND 0b11000000 = 0b11000000"
  by (simp_all add: pointer_offset_def be16_def)

context big_endian
begin

lemma read_ttl:
  assumes "drop a d = u32_bytes v @ r"
  shows "read_u32_at bo d a (a + 4) = Ok v"
proof -
  have "length d - a = 4 + length r" using arg_cong [OF assms, of length] by (simp add: u32_bytes_def)
  then have l: "a + 4 \<le> length d" by (cases "a \<le> length d") auto
  have "d ! (a + k) = (u32_bytes v @ r) ! k" for k
    using l assms [symmetric] by simp
  from this [of 0] this [of 1] this [of 2] this [of 3] show ?thesis
    using l by (simp add: read_u32_at_in u32_bytes_def be32_u32_bytes)
qed

lemma parse_a_record_at:
  assumes d: "drop off d = [0xC0, 0x0C, 0, 1, 0, 1] @ u32_bytes ttl @ [0, 4] @ u32_bytes ip @ r"
    and nm: "decodes d 12 (drop 12 d) t" and off: "12 < off"
  shows "\<exists>rr. parse_record bo d off = Ok (rr, off + 16) \<and> rr_rdata rr = RR_A ip"
proof -
  have len: "length d - off = 16 + length r" using arg_cong [OF d, of length] by (simp add: u32_bytes_def)
  then have ol: "off + 16 \<le> length d" by (cases "off \<le> length d") auto
  have nth: "d ! (off + k) = drop off d ! k" "off + k < length d" if "k < 16" for k
    using that ol by simp_all
  have "decodes d (length d) (drop off d) (Pointer t)"
    using decodes_Pointer [of "0xC0" "0x0C" d "length d" t] nm off ol d pointer_offset_12 by simp
  then have scan: "name_scan bo (drop off d) d = Ok \<lparr>labels = take 2 (drop off d), original = d\<rparr>"
    by (auto simp: name_scan_Ok_iff)
  have dr: "drop (off + k) d = drop k ([0xC0, 0x0C, 0, 1, 0, 1] @ u32_bytes ttl @ [0, 4] @ u32_bytes ip @ r)" for k
    using d by (metis drop_drop add.commute)
  have "drop (off + 2) d = 0 # 1 # [0, 1] @ u32_bytes ttl @ [0, 4] @ u32_bytes ip @ r"
    "drop (off + 4) d = 0 # 1 # u32_bytes ttl @ [0, 4] @ u32_bytes ip @ r"
    "drop (off + 6) d = u32_bytes ttl @ [0, 4] @ u32_bytes ip @ r"
    "drop (off + 10) d = 0 # 4 # u32_bytes ip @ r"
    using dr [of 2] dr [of 4] dr [of 6] dr [of 10] by (simp_all add: u32_bytes_def)
  note rds = read_pointer [OF this(1)] read_pointer [OF this(2)] read_ttl [OF this(3)] read_pointer [OF this(4)]
  have rd: "take 4 (drop (off + 12) d) = u32_bytes ip"
  proof -
    have "drop (off + 12) d = drop 12 (drop off d)" by (simp add: add.commute)
    then show ?thesis by (simp add: d u32_bytes_def)
  qed
  have be: "be16 0 1 = (1 :: u16)" "be16 0 4 = (4 :: u16)" by (simp_all add: be16_def)
  have r1: "(read_u16_at bo d (off + 2) (off + 2 + 2) :: (dns_error, u16) res) = Ok 1"
    and r2: "(read_u16_at bo d (off + 2 + 2) (off + 2 + 2 + 2) :: (dns_error, u16) res) = Ok 1"
    and r3: "(read_u32_at bo d (off + 2 + 2 + 2) (off + 2 + 2 + 2 + 4) :: (dns_error, u32) res) = Ok ttl"
    and r4: "(read_u16_at bo d (off + 2 + 2 + 2 + 4) (off + 2 + 2 + 2 + 4 + 2) :: (dns_error, u16) res) = Ok 4"
    using rds be by (simp_all add: add.assoc del: add_2_eq_Suc add_2_eq_Suc')
  have sl: "(slice_range d (off + 2 + 2 + 2 + 4 + 2) (off + 2 + 2 + 2 + 4 + 2 + 4) :: (dns_error, bytes) res) = Ok (u32_bytes ip)"
    using ol rd by (simp add: slice_in add.assoc del: add_2_eq_Suc add_2_eq_Suc')
  have a: "rrdata_parse bo T_A (u32_bytes ip) d = Ok (RR_A ip)"
    using be32_u32_bytes [of ip] by (simp add: rrdata_parse_def parse_a_eq u32_bytes_def)
  have t: "type_parse 1 = Ok T_A" "parse_class_code 1 = Ok (False, C_IN)"
    by (simp_all add: type_parse_def parse_class_code_def class_parse_def)
  have bl: "byte_len \<lparr>labels = [0xC0, 0x0C], original = d\<rparr> = 2" by (simp add: byte_len_def)
  have "\<not> length d < off + 2 + 10" "\<not> length d < off + 12 + 4" using ol by simp_all
  then show ?thesis
    using scan r1 r2 r3 r4 sl a t ol d unfolding parse_record_def Let_def
    by (simp add: slice_from_in bl add.assoc del: add_2_eq_Suc add_2_eq_Suc')
qed

end


context big_endian
begin

lemma dns_parse_answer_bytes:
  assumes "wf_host host"
  shows "dns_parse bo (answer_bytes i host ttl ip) = Ok (Some (V4 ip))"
proof -
  let ?d = "answer_bytes i host ttl ip" and ?h = "answer_header i" and ?e = "encode_labels (split_dots host)"
  let ?tail = "[0xC0, 0x0C, 0, 1, 0, 1] @ u32_bytes ttl @ [0, 4] @ u32_bytes ip"
  have len: "length ?e = length host + 2"
    by (simp add: length_encode_labels split_dots_nonempty join_split_dots)
  have hp: "header_parse bo ?d = Ok (wire_header ?h)"
    unfolding answer_bytes_def by (rule header_parse_bytes) (simp add: answer_header_def query_header_def wf_header_def)
  have wh: "wire_header ?h = ?h" by (simp add: wire_header_def answer_header_def query_header_def)
  have d12: "drop 12 ?d = ?e @ [0, 1, 0, 1] @ ?tail" by (simp add: answer_bytes_def)
  have q: "\<exists>q. parse_question bo ?d 12 = Ok (q, length host + 18)"
    using parse_question_at [OF assms, of 12 ?d Q_A QC_IN ?tail] d12
    by (simp add: hi8_def lo8_def )
  have "drop (length host + 18) ?d = drop (length host + 6) (drop 12 ?d)" by (simp add: add.commute)
  also have "\<dots> = ?tail @ []" using len unfolding d12 by simp
  finally have rec: "drop (length host + 18) ?d = [0xC0, 0x0C, 0, 1, 0, 1] @ u32_bytes ttl @ [0, 4] @ u32_bytes ip @ []"
    by simp
  have "decodes ?d 12 (drop 12 ?d) (label_tree (split_dots host))"
    unfolding d12 using assms by (intro decodes_encode_labels) (simp add: wf_host_def)
  then obtain rr where rr: "parse_record bo ?d (length host + 18) = Ok (rr, length host + 18 + 16)" "rr_rdata rr = RR_A ip"
    using parse_a_record_at [OF rec] by auto
  have cnt: "h_questions ?h = 1" "h_answers ?h = 1" "h_nameservers ?h = 0" "h_additional ?h = 0"
    by (simp_all add: answer_header_def query_header_def)
  show ?thesis
    using q rr cnt by (auto simp: dns_parse_def packet_parse_def hp wh header_size_def)
qed

end

section \<open>Properties\<close>

text \<open>
  C27: \<^verbatim>\<open>lookup_on\<close> asks the servers in turn, for a well-formed host name of at most 494 bytes and a client
  that has at least one server.  What it adds to the log of the network are the queries for the host, each under
  the identifier drawn for it, to port 53 of the configured servers, starting with server \<open>pos\<close> and wrapping
  around.  It returns success exactly when the system has accepted a datagram: this is the last one sent, every
  one before it was refused, and at most as many were sent as there are servers.  Otherwise every server has
  been tried once, every datagram was refused, and the error is that of the last refusal.
\<close>

theorem lookup_asks_in_turn:
  assumes "observed_net net log drawn" and "big_endian bo" and "wf_host host" and "length host \<le> 494"
    and "srvs d \<noteq> []" and "lookup_on bo net d s pos host w = (w', r)"
  shows "\<exists>ids outs. length outs = length ids \<and> drawn w' = drawn w @ ids \<and>
    log w' = log w @ zip (round_robin d s (\<lambda>i. query_bytes i True host Q_A QC_IN) pos ids) outs \<and>
    ((\<exists>es k. outs = map Err es @ [Ok k] \<and> length ids \<le> length (srvs d) \<and> r = Ok ()) \<or>
     (\<exists>es. outs = map Err es \<and> length ids = length (srvs d) \<and> r = Err (last es)))"
proof -
  let ?q = "\<lambda>i. query_bytes i True host Q_A QC_IN"
  have q: "build_query bo i host = Ok (?q i)" for i
    using big_endian.build_query_outcomes [OF assms(2,3)] assms(4) by simp
  from observed_net.lookup_loop_asks [OF assms(1) q assms(5) assms(6) [unfolded lookup_on_def]] show ?thesis
  proof (elim disjE exE conjE)
    fix ids es k
    assume "asked log drawn d s ?q pos w w' ids (map Err es @ [Ok k])" "length ids \<le> length (srvs d)" "r = Ok ()"
    then show ?thesis unfolding asked_def by blast
  next
    fix ids es
    assume a: "asked log drawn d s ?q pos w w' ids (map Err es)" "length ids = length (srvs d)"
      "r = Err (last (IoError OtherKind '''' # es))"
    then have "es \<noteq> []" using assms(5) by (auto simp: asked_def)
    with a show ?thesis unfolding asked_def by (intro exI [of _ ids] exI [of _ "map Err es"]) auto
  qed
qed

theorem lookup_asks_in_turn_witness:
  "\<exists>ids es k. draws (fst (lookup_on network test_net_ops \<lparr>srvs = [V4 1, V4 2]\<rparr> 7 1 ab_c
        \<lparr>sent = [], draws = [], refusals = 1, seed = 5\<rparr>)) = ids \<and>
    sent (fst (lookup_on network test_net_ops \<lparr>srvs = [V4 1, V4 2]\<rparr> 7 1 ab_c
        \<lparr>sent = [], draws = [], refusals = 1, seed = 5\<rparr>)) =
      zip (round_robin \<lparr>srvs = [V4 1, V4 2]\<rparr> 7 (\<lambda>i. query_bytes i True ab_c Q_A QC_IN) 1 ids) (map Err es @ [Ok k]) \<and>
    length ids = length es + 1 \<and> length ids \<le> 2"
proof -
  let ?d = "\<lparr>srvs = [V4 1, V4 2]\<rparr>" and ?w = "\<lparr>sent = [], draws = [], refusals = 1, seed = 5\<rparr>"
  have le: "length ab_c \<le> 494" and ne: "srvs ?d \<noteq> []" by (simp_all add: wf_host_ab_c(2))
  have q: "build_query network i ab_c = Ok (query_bytes i True ab_c Q_A QC_IN)" for i
    using big_endian.build_query_outcomes [OF network.big_endian_axioms wf_host_ab_c(1)] le by simp
  obtain w' where run: "lookup_on network test_net_ops ?d 7 1 ab_c ?w = (w', Ok ())"
    using q by (simp add: lookup_on_def test_net_ops_def index_def numeral_2_eq_2 Let_def)
  from lookup_asks_in_turn [OF test_net.observed_net_axioms network.big_endian_axioms wf_host_ab_c(1) le ne run]
  show ?thesis unfolding run by (auto simp: numeral_2_eq_2)
qed

text \<open>
  The datagram sent for a well-formed host name, by the length of the name: up to 494 bytes it is the complete
  query; from 495 to 499 bytes building it panics; from 500 bytes on the question is refused, the refusal is
  ignored, and a header without a question is sent.
\<close>

theorem build_query_by_length:
  assumes "big_endian bo" and "wf_host host"
  shows "build_query bo i host =
    (if length host \<le> 494 then Ok (query_bytes i True host Q_A QC_IN)
     else if length host \<le> 499 then Panic else Ok (header_bytes (query_header i True)))"
  using assms by (rule big_endian.build_query_outcomes)

theorem build_query_by_length_witness:
  "build_query network 5 ab_c = Ok (query_bytes 5 True ab_c Q_A QC_IN)"
  using build_query_by_length [OF network.big_endian_axioms wf_host_ab_c(1), of 5] wf_host_ab_c(2) by simp

text \<open>
  C28: the usual response to a query yields the address in it: the question for the host repeated and one address
  record whose name is a compression pointer to the question's name.
\<close>

theorem dns_parse_address:
  assumes "big_endian bo" and "wf_host host"
  shows "dns_parse bo (answer_bytes i host ttl ip) = Ok (Some (V4 ip))"
  using assms by (rule big_endian.dns_parse_answer_bytes)

theorem dns_parse_address_witness: "dns_parse network (answer_bytes 5 ab_c 60 0x0A000001) = Ok (Some (V4 0x0A000001))"
  using dns_parse_address [OF network.big_endian_axioms wf_host_ab_c(1)] .

text \<open>
  C29: what \<^verbatim>\<open>dns_parse\<close> does with any datagram.  It returns an address exactly when the packet parser accepts
  the datagram and the first answer that holds an address, of either kind, holds this one; it returns no address
  exactly when the datagram is accepted and no answer holds an address.  It never returns an error: it panics
  exactly on the datagrams that the parser rejects, among them all that are shorter than a header.
\<close>

theorem dns_parse_outcomes:
  assumes "big_endian bo"
  shows "(\<forall>ip. dns_parse bo buf = Ok (Some ip) \<longleftrightarrow> (\<exists>pk xs r ys. packet_parse bo buf = Ok pk \<and>
        p_answers pk = xs @ r # ys \<and> (\<forall>x \<in> set xs. \<forall>a b. rr_rdata x \<noteq> RR_A a \<and> rr_rdata x \<noteq> RR_AAAA b) \<and>
        (case ip of V4 a \<Rightarrow> rr_rdata r = RR_A a | V6 b \<Rightarrow> rr_rdata r = RR_AAAA b))) \<and>
    (dns_parse bo buf = Ok None \<longleftrightarrow> (\<exists>pk. packet_parse bo buf = Ok pk \<and>
        (\<forall>x \<in> set (p_answers pk). \<forall>a b. rr_rdata x \<noteq> RR_A a \<and> rr_rdata x \<noteq> RR_AAAA b))) \<and>
    (dns_parse bo buf = Panic \<longleftrightarrow> (\<exists>e. packet_parse bo buf = Err e)) \<and>
    (length buf < 12 \<longrightarrow> dns_parse bo buf = Panic) \<and>
    (\<forall>e. dns_parse bo buf \<noteq> Err e)"
proof -
  have "length buf < 12 \<Longrightarrow> \<exists>e. packet_parse bo buf = Err e" by (simp add: packet_parse_def header_parse_def)
  then show ?thesis
    using big_endian.packet_parse_no_panic [OF assms, of buf]
    by (cases "packet_parse bo buf") (auto simp: dns_parse_def first_address_Some first_address_None)
qed

text \<open>A response with no answer: no address.  A datagram of three bytes: a panic.\<close>

theorem dns_parse_outcomes_witness:
  "dns_parse network (header_bytes (query_header 5 True)) = Ok None \<and> dns_parse network [0, 5, 1] = Panic"
proof
  have "packet_parse network (header_bytes (query_header 5 True)) =
      Ok \<lparr>p_header = query_header 5 True, p_questions = [], p_answers = [], p_nameservers = [], p_additional = [], p_opt = None\<rparr>"
    by code_simp
  then show "dns_parse network (header_bytes (query_header 5 True)) = Ok None"
    using dns_parse_outcomes [OF network.big_endian_axioms, of "header_bytes (query_header 5 True)"] by simp
  show "dns_parse network [0, 5, 1] = Panic"
    using dns_parse_outcomes [OF network.big_endian_axioms, of "[0, 5, 1]"] by simp
qed

text \<open>
  The name servers of a configuration file are read in their order: a file of \<^verbatim>\<open>nameserver\<close> lines with
  IPv4 addresses in dotted notation yields these addresses.
\<close>

theorem nameservers_read_in_order:
  assumes "\<forall>os \<in> set addrs. length os = 4 \<and> (\<forall>n \<in> set os. n < 256)"
  shows "dns_new (Some (concat (map nameserver_line addrs))) = Ok \<lparr>srvs = map (\<lambda>os. V4 (octets_u32 os)) addrs\<rparr>"
  using resolv_lines [OF assms] by (simp add: dns_new_def get_dns_servers_def)

theorem nameservers_read_in_order_witness:
  "dns_new (Some (concat (map nameserver_line [[10, 0, 0, 1], [8, 8, 4, 4]]))) =
    Ok \<lparr>srvs = map (\<lambda>os. V4 (octets_u32 os)) [[10, 0, 0, 1], [8, 8, 4, 4]]\<rparr>"
  by (rule nameservers_read_in_order) simp
end
