(* ===== verification/Clock.thy ===== *)
theory Clock
  imports Easy_Prelude
begin

text \<open>
  \<^verbatim>\<open>std::time\<close> as the timers use it.  A \<^verbatim>\<open>Duration\<close> is its number of nanoseconds (below
  \<open>2 ^ 64\<close> seconds), an \<^verbatim>\<open>Instant\<close> a point on a monotonic clock, counted in nanoseconds from some
  origin (below \<open>2 ^ 63\<close> seconds, the range of the platform's \<^verbatim>\<open>timespec\<close>).  Arithmetic that leaves
  these ranges panics, and so does the difference of two instants in the wrong order, as the comments
  of the sources expect.
\<close>

type_synonym duration = nat

definition nanos_per_sec :: nat where "nanos_per_sec = 1000000000"
definition nanos_per_milli :: nat where "nanos_per_milli = 1000000"

definition as_secs :: "duration \<Rightarrow> nat" where "as_secs d = d div nanos_per_sec"
definition subsec_nanos :: "duration \<Rightarrow> nat" where "subsec_nanos d = d mod nanos_per_sec"
definition from_millis :: "nat \<Rightarrow> duration" where "from_millis ms = ms * nanos_per_milli"

definition duration_limit :: nat where "duration_limit = 2 ^ 64 * nanos_per_sec"
definition instant_limit :: nat where "instant_limit = 2 ^ 63 * nanos_per_sec"

text \<open>\<^verbatim>\<open>Duration * u32\<close>.\<close>

definition duration_mul :: "duration \<Rightarrow> u32 \<Rightarrow> ('e, duration) res" where
  "duration_mul d n = (let r = d * unat n in if r < duration_limit then Ok r else Panic)"

datatype instant = Instant (nanos: nat)

instantiation instant :: linorder
begin

definition less_eq_instant :: "instant \<Rightarrow> instant \<Rightarrow> bool" where
  "less_eq_instant a b \<longleftrightarrow> nanos a \<le> nanos b"

definition less_instant :: "instant \<Rightarrow> instant \<Rightarrow> bool" where
  "less_instant a b \<longleftrightarrow> nanos a < nanos b"

instance
  by standard (auto simp: less_eq_instant_def less_instant_def instant.expand)

end

definition instant_add :: "instant \<Rightarrow> duration \<Rightarrow> ('e, instant) res" where
  "instant_add i d =
     (let r = nanos i + d in if r < instant_limit then Ok (Instant r) else Panic)"

definition instant_sub :: "instant \<Rightarrow> instant \<Rightarrow> ('e, duration) res" where
  "instant_sub i j = (if nanos j \<le> nanos i then Ok (nanos i - nanos j) else Panic)"

lemma instant_le_iff [simp]: "Instant a \<le> Instant b \<longleftrightarrow> a \<le> b"
  by (simp add: less_eq_instant_def)

lemma instant_less_iff [simp]: "Instant a < Instant b \<longleftrightarrow> a < b"
  by (simp add: less_instant_def)

end
