(* ===== verification/Fiber_Sock.thy ===== *)
theory Fiber_Sock
  imports Dns_Lookup Clock
begin

text \<open>
  The sockets of \<^verbatim>\<open>fiber.rs\<close>: \<^verbatim>\<open>FiberSock\<close> with its reads, writes and the vectored variants.

  Sockets are numbered handles; the system calls of \<^verbatim>\<open>mio\<close> and \<^verbatim>\<open>native-tls\<close> are a parameter, operations on
  an abstract world.  A read into a buffer of \<open>n\<close> bytes yields the bytes stored in it.
\<close>

section \<open>System operations\<close>

datatype ready = ReadyEmpty | ReadyReadable | ReadyWritable

text \<open>The outcome of a TLS handshake: a stream, an interrupted handshake, or a failure.\<close>

datatype tls_result = TlsOk sock | TlsInterrupted sock | TlsFailure

record 'w os_ops = "'w net_ops" +
  os_tcp_read :: "sock \<Rightarrow> nat \<Rightarrow> 'w \<Rightarrow> 'w \<times> (io_error, bytes) res"
  os_tcp_read_bufs :: "sock \<Rightarrow> nat list \<Rightarrow> 'w \<Rightarrow> 'w \<times> (io_error, bytes) res"
  os_tcp_write :: "sock \<Rightarrow> bytes \<Rightarrow> 'w \<Rightarrow> 'w \<times> (io_error, nat) res"
  os_tcp_write_bufs :: "sock \<Rightarrow> bytes list \<Rightarrow> 'w \<Rightarrow> 'w \<times> (io_error, nat) res"
  os_tcp_flush :: "sock \<Rightarrow> 'w \<Rightarrow> 'w \<times> (io_error, unit) res"
  os_tcp_accept :: "sock \<Rightarrow> 'w \<Rightarrow> 'w \<times> (io_error, sock \<times> sock_addr) res"
  os_tcp_connect :: "sock_addr \<Rightarrow> 'w \<Rightarrow> 'w \<times> (io_error, sock) res"
  os_udp_recv :: "sock \<Rightarrow> nat \<Rightarrow> 'w \<Rightarrow> 'w \<times> (io_error, bytes) res"
  os_udp_send :: "sock \<Rightarrow> bytes \<Rightarrow> 'w \<Rightarrow> 'w \<times> (io_error, nat) res"
  os_udp_connect :: "sock \<Rightarrow> sock_addr \<Rightarrow> 'w \<Rightarrow> 'w \<times> (io_error, unit) res"
  os_tls_read :: "sock \<Rightarrow> nat \<Rightarrow> 'w \<Rightarrow> 'w \<times> (io_error, bytes) res"
  os_tls_write :: "sock \<Rightarrow> bytes \<Rightarrow> 'w \<Rightarrow> 'w \<times> (io_error, nat) res"
  os_tls_flush :: "sock \<Rightarrow> 'w \<Rightarrow> 'w \<times> (io_error, unit) res"
  os_tls_connect :: "nat \<Rightarrow> bytes \<Rightarrow> sock \<Rightarrow> 'w \<Rightarrow> 'w \<times> tls_result"
  os_tls_accept :: "nat \<Rightarrow> sock \<Rightarrow> 'w \<Rightarrow> 'w \<times> tls_result"
  os_tls_handshake :: "sock \<Rightarrow> 'w \<Rightarrow> 'w \<times> tls_result"
  os_register :: "sock \<Rightarrow> usize \<Rightarrow> ready \<Rightarrow> 'w \<Rightarrow> 'w \<times> (io_error, unit) res"
  os_reregister :: "sock \<Rightarrow> usize \<Rightarrow> ready \<Rightarrow> 'w \<Rightarrow> 'w \<times> (io_error, unit) res"
  os_now :: "'w \<Rightarrow> instant \<times> 'w"

section \<open>Sockets of a fiber\<close>

datatype fiber_sock = S_Tcp sock | S_Udp sock | S_Listener sock | S_Tls sock | S_TlsTemp sock | S_Empty

definition invalid_input :: "string \<Rightarrow> io_error" where
  "invalid_input msg = IoError InvalidInput msg"

text \<open>\<^verbatim>\<open>impl Read\<close> and \<^verbatim>\<open>impl Write for FiberSock\<close>.\<close>

definition sock_read :: "'w os_ops \<Rightarrow> fiber_sock \<Rightarrow> nat \<Rightarrow> 'w \<Rightarrow> 'w \<times> (io_error, bytes) res" where
  "sock_read os s n w =
     (case s of
        S_Tcp tcp \<Rightarrow> os_tcp_read os tcp n w
      | S_Udp udp \<Rightarrow> os_udp_recv os udp n w
      | S_Listener _ \<Rightarrow> (w, Err (invalid_input ''can not read on listen socket''))
      | S_Tls tls \<Rightarrow> os_tls_read os tls n w
      | _ \<Rightarrow> (w, Err (invalid_input ''no socket'')))"

definition sock_write :: "'w os_ops \<Rightarrow> fiber_sock \<Rightarrow> bytes \<Rightarrow> 'w \<Rightarrow> 'w \<times> (io_error, nat) res" where
  "sock_write os s buf w =
     (case s of
        S_Tcp tcp \<Rightarrow> os_tcp_write os tcp buf w
      | S_Udp udp \<Rightarrow> os_udp_send os udp buf w
      | S_Listener _ \<Rightarrow> (w, Err (invalid_input ''can not write on listen socket''))
      | S_Tls tls \<Rightarrow> os_tls_write os tls buf w
      | _ \<Rightarrow> (w, Err (invalid_input ''no socket'')))"

definition sock_flush :: "'w os_ops \<Rightarrow> fiber_sock \<Rightarrow> 'w \<Rightarrow> 'w \<times> (io_error, unit) res" where
  "sock_flush os s w =
     (case s of
        S_Tcp tcp \<Rightarrow> os_tcp_flush os tcp w
      | S_Udp _ \<Rightarrow> (w, Ok ())
      | S_Listener _ \<Rightarrow> (w, Err (invalid_input ''can not flush on listen socket''))
      | S_Tls tls \<Rightarrow> os_tls_flush os tls w
      | _ \<Rightarrow> (w, Err (invalid_input ''no socket'')))"

definition sock_evented :: "fiber_sock \<Rightarrow> (io_error, sock) res" where
  "sock_evented s =
     (case s of
        S_Tcp tcp \<Rightarrow> Ok tcp
      | S_Udp udp \<Rightarrow> Ok udp
      | S_Listener tcp \<Rightarrow> Ok tcp
      | S_TlsTemp tcp \<Rightarrow> Ok tcp
      | _ \<Rightarrow> Err (invalid_input ''no socket''))"

definition sock_accept :: "'w os_ops \<Rightarrow> fiber_sock \<Rightarrow> 'w \<Rightarrow> 'w \<times> (io_error, sock \<times> sock_addr) res" where
  "sock_accept os s w =
     (case s of
        S_Listener tcp \<Rightarrow> os_tcp_accept os tcp w
      | _ \<Rightarrow> (w, Err (invalid_input ''can not accept on non listen socket'')))"

section \<open>Vectored reads and writes\<close>

text \<open>
  The buffers of a vectored read are passed with their contents and come back with what has been stored:
  \<open>fill\<close> overwrites the front of a buffer, \<open>scatter\<close> fills buffers one after the other, as the system does.
\<close>

definition fill :: "bytes \<Rightarrow> bytes \<Rightarrow> bytes" where
  "fill d buf = take (length buf) d @ drop (length d) buf"

fun scatter :: "bytes \<Rightarrow> bytes list \<Rightarrow> bytes list" where
  "scatter d [] = []"
| "scatter d (b # bs) = fill d b # scatter (drop (length b) d) bs"

fun tls_read_bufs ::
  "'w os_ops \<Rightarrow> sock \<Rightarrow> bytes list \<Rightarrow> nat \<Rightarrow> 'w \<Rightarrow> 'w \<times> bytes list \<times> (io_error, nat) res" where
  "tls_read_bufs os s [] sz w = (w, [], Ok sz)"
| "tls_read_bufs os s (b # bs) sz w =
     (case os_tls_read os s (length b) w of
        (w, Ok d) \<Rightarrow>
          if length d = 0 then (w, b # bs, Ok sz)
          else (let (w, bs, r) = tls_read_bufs os s bs (sz + length d) w in (w, fill d b # bs, r))
      | (w, Err e) \<Rightarrow> (w, b # bs, if sz = 0 then Err e else Ok sz)
      | (w, Panic) \<Rightarrow> (w, b # bs, Panic))"

definition sock_read_bufs ::
  "'w os_ops \<Rightarrow> fiber_sock \<Rightarrow> bytes list \<Rightarrow> 'w \<Rightarrow> 'w \<times> bytes list \<times> (io_error, nat) res" where
  "sock_read_bufs os s bufs w =
     (case s of
        S_Tcp tcp \<Rightarrow>
          (case os_tcp_read_bufs os tcp (map length bufs) w of
             (w, Ok d) \<Rightarrow> (w, scatter d bufs, Ok (length d))
           | (w, Err e) \<Rightarrow> (w, bufs, Err e)
           | (w, Panic) \<Rightarrow> (w, bufs, Panic))
      | S_Tls tls \<Rightarrow> tls_read_bufs os tls bufs 0 w
      | _ \<Rightarrow> (w, bufs, Err (invalid_input ''invalid socket'')))"

text \<open>
  The loop of \<^verbatim>\<open>write_bufs\<close> on a TLS stream, with its variables \<open>tmp_buf\<close>, \<open>wpos\<close>, \<open>sz\<close> and \<open>i\<close>; it may run
  forever, which is \<^const>\<open>None\<close>.
\<close>

partial_function (option) tls_write_bufs ::
  "'w os_ops \<Rightarrow> sock \<Rightarrow> bytes list \<Rightarrow> bytes \<Rightarrow> nat \<Rightarrow> nat \<Rightarrow> nat \<Rightarrow> 'w \<Rightarrow> ('w \<times> bytes \<times> (io_error, nat) res) option"
where [code]:
  "tls_write_bufs os s bufs tmp_buf wpos sz i w =
     (if i < length bufs then
        (let cur_buf = bufs ! i; cur_buf_len = length cur_buf in
         if cur_buf_len < 4096 \<and> wpos + cur_buf_len < length tmp_buf then
           tls_write_bufs os s bufs (take wpos tmp_buf @ cur_buf @ drop (wpos + cur_buf_len) tmp_buf)
             (wpos + cur_buf_len) sz i w
         else
           (let (w, res) = os_tls_write os s (if 0 < wpos then take wpos tmp_buf else cur_buf) w;
                cur_buf_len = (if 0 < wpos then wpos else cur_buf_len);
                i = (if 0 < wpos then i else i + 1) in
            case res of
              Ok n \<Rightarrow>
                if n = 0 then Some (w, tmp_buf, Ok sz)
                else if n < cur_buf_len then Some (w, tmp_buf, Ok (sz + n))
                else tls_write_bufs os s bufs tmp_buf 0 (sz + n) i w
            | Err e \<Rightarrow> Some (w, tmp_buf, if sz = 0 then Err e else Ok sz)
            | Panic \<Rightarrow> Some (w, tmp_buf, Panic)))
      else Some (w, tmp_buf, Ok sz))"

definition sock_write_bufs ::
  "'w os_ops \<Rightarrow> fiber_sock \<Rightarrow> bytes \<Rightarrow> bytes list \<Rightarrow> 'w \<Rightarrow> ('w \<times> bytes \<times> (io_error, nat) res) option" where
  "sock_write_bufs os s tmp_buf bufs w =
     (case s of
        S_Tcp tcp \<Rightarrow> (case os_tcp_write_bufs os tcp bufs w of (w, r) \<Rightarrow> Some (w, tmp_buf, r))
      | S_Tls tls \<Rightarrow> tls_write_bufs os tls bufs tmp_buf 0 0 0 w
      | _ \<Rightarrow> Some (w, tmp_buf, Err (invalid_input ''invalid socket'')))"

section \<open>Behaviour of the vectored operations\<close>

text \<open>A stream that accepts whatever it is given.\<close>

definition accepts_all :: "'w os_ops \<Rightarrow> sock \<Rightarrow> bool" where
  "accepts_all os s \<longleftrightarrow> (\<forall>b w. snd (os_tls_write os s b w) = Ok (length b))"

lemma accepts_allD: "accepts_all os s \<Longrightarrow> snd (os_tls_write os s b w) = Ok (length b)"
  by (simp add: accepts_all_def)

lemma tls_write_bufs_small_diverges:
  assumes "accepts_all os s" "i < length bufs" "length (bufs ! i) < 4096" "4096 \<le> length tmp" "wpos < length tmp"
  shows "tls_write_bufs os s bufs tmp wpos sz i w = None"
proof -
  define Q where "Q = (\<lambda>(os :: 'a os_ops) s (bufs :: bytes list) (tmp :: bytes) wpos (sz :: nat) i (w :: 'a) (y :: 'a \<times> bytes \<times> (io_error, nat) res).
    \<not> (accepts_all os s \<and> i < length bufs \<and> length (bufs ! i) < 4096 \<and> 4096 \<le> length tmp \<and> wpos < length tmp))"
  have "Q os s bufs tmp wpos sz i w y" if "tls_write_bufs os s bufs tmp wpos sz i w = Some y" for y
  proof (rule tls_write_bufs.raw_induct [of Q, OF _ that], goal_cases)
    case (1 rec os s bufs tmp wpos sz i w y)
    show ?case
      unfolding Q_def
    proof
      assume *: "accepts_all os s \<and> i < length bufs \<and> length (bufs ! i) < 4096 \<and> 4096 \<le> length tmp \<and> wpos < length tmp"
      let ?l = "length (bufs ! i)"
      show False
      proof (cases "wpos + ?l < length tmp")
        case True
        let ?t = "take wpos tmp @ bufs ! i @ drop (wpos + ?l) tmp"
        have "rec os s bufs ?t (wpos + ?l) sz i w = Some y" using "1"(2) * True by (simp add: Let_def)
        from "1"(1) [OF this] * True show False by (simp add: Q_def)
      next
        case False
        then have "0 < wpos" using * by simp
        then have "rec os s bufs tmp 0 (sz + wpos) i (fst (os_tls_write os s (take wpos tmp) w)) = Some y"
          using "1"(2) * False accepts_allD [of os s "take wpos tmp" w] by (simp add: split_beta Let_def)
        from "1"(1) [OF this] * show False by (auto simp: Q_def)
      qed
    qed
  qed
  then show ?thesis using assms by (cases "tls_write_bufs os s bufs tmp wpos sz i w") (auto simp: Q_def)
qed

lemma tls_write_bufs_large:
  assumes "accepts_all os s" "\<forall>b \<in> set (drop i bufs). 4096 \<le> length b" "i \<le> length bufs"
  shows "tls_write_bufs os s bufs tmp 0 sz i w =
    Some (fold (\<lambda>b w. fst (os_tls_write os s b w)) (drop i bufs) w, tmp, Ok (sz + sum_list (map length (drop i bufs))))"
  using assms(2,3)
proof (induction "length bufs - i" arbitrary: i sz w)
  case 0
  then show ?case by (subst tls_write_bufs.simps) simp
next
  case (Suc n)
  then have i: "i < length bufs" by simp
  then have dr: "drop i bufs = bufs ! i # drop (Suc i) bufs" by (simp add: Cons_nth_drop_Suc)
  with Suc.prems have big: "4096 \<le> length (bufs ! i)" by simp
  have "tls_write_bufs os s bufs tmp 0 sz i w =
      tls_write_bufs os s bufs tmp 0 (sz + length (bufs ! i)) (Suc i) (fst (os_tls_write os s (bufs ! i) w))"
    using i big accepts_allD [OF assms(1), of "bufs ! i" w]
    by (subst tls_write_bufs.simps) (auto simp: split_beta Let_def)
  also have "\<dots> = Some (fold (\<lambda>b w. fst (os_tls_write os s b w)) (drop i bufs) w, tmp,
      Ok (sz + sum_list (map length (drop i bufs))))"
    using Suc.hyps(1) [of "Suc i"] Suc.hyps(2) Suc.prems i by (simp add: dr)
  finally show ?case .
qed

text \<open>Where the data of a vectored TLS read end up, and when that is where a vectored system call puts them.\<close>

fun place :: "bytes list \<Rightarrow> bytes list \<Rightarrow> bytes list" where
  "place [] bs = bs"
| "place (d # ds) [] = []"
| "place (d # ds) (b # bs) = fill d b # place ds bs"

fun gapless :: "bytes list \<Rightarrow> bytes list \<Rightarrow> bool" where
  "gapless (d # d' # ds) (b # bs) \<longleftrightarrow> length d = length b \<and> gapless (d' # ds) bs"
| "gapless _ _ \<longleftrightarrow> True"

lemma tls_read_bufs_layout:
  assumes "tls_read_bufs os s bufs sz w = (w', bufs', Ok n)"
  shows "\<exists>ds. length ds \<le> length bufs \<and> [] \<notin> set ds \<and> n = sz + length (concat ds) \<and> bufs' = place ds bufs"
  using assms
proof (induction bufs arbitrary: sz w w' bufs' n)
  case Nil
  then show ?case by (intro exI [of _ "[]"]) simp
next
  case (Cons b bs)
  obtain w1 r where rd: "os_tls_read os s (length b) w = (w1, r)" by (cases "os_tls_read os s (length b) w")
  show ?case
  proof (cases "\<exists>d. r = Ok d \<and> d \<noteq> []")
    case True
    then obtain d where d: "r = Ok d" "d \<noteq> []" by blast
    obtain w2 bs2 r2 where rec: "tls_read_bufs os s bs (sz + length d) w1 = (w2, bs2, r2)"
      by (cases "tls_read_bufs os s bs (sz + length d) w1")
    with Cons.prems rd d have eq: "r2 = Ok n" "bufs' = fill d b # bs2" by simp_all
    from Cons.IH [OF rec [unfolded eq(1)]] obtain ds where
      "length ds \<le> length bs" "[] \<notin> set ds" "n = sz + length d + length (concat ds)" "bs2 = place ds bs" by blast
    then show ?thesis using eq d(2) by (intro exI [of _ "d # ds"]) simp
  next
    case False
    then have "n = sz \<and> bufs' = b # bs" using Cons.prems rd by (cases r) (auto split: if_splits)
    then show ?thesis by (intro exI [of _ "[]"]) simp
  qed
qed

lemma scatter_Nil [simp]: "scatter [] bs = bs"
  by (induction bs) (simp_all add: fill_def)

lemma place_single: "Suc 0 \<le> length bs \<Longrightarrow> length d \<le> length (bs ! 0) \<Longrightarrow> place [d] bs = scatter d bs"
  by (cases bs) (auto simp: fill_def)

lemma place_gapless:
  "gapless ds bs \<Longrightarrow> length ds \<le> length bs \<Longrightarrow> (\<forall>i < length ds. length (ds ! i) \<le> length (bs ! i)) \<Longrightarrow>
   place ds bs = scatter (concat ds) bs"
proof (induction ds bs rule: gapless.induct)
  case (1 d d' ds b bs)
  have "\<forall>i < length (d' # ds). length ((d' # ds) ! i) \<le> length (bs ! i)"
    using "1.prems"(3) by (metis Suc_less_eq length_Cons nth_Cons_Suc)
  then show ?case using "1" by (simp add: fill_def)
qed (auto intro: place_single)

section \<open>A system for examples\<close>

text \<open>
  Scripted reads (each read takes the next outcome of the script; an empty script would block), writes and sends
  that are accepted and logged, a clock that stands still, and registrations that are recorded.
\<close>

record test_os = test_net +
  script :: "(io_error, bytes) res list"
  written :: "(sock \<times> bytes) list"
  registered :: "(sock \<times> usize \<times> ready) list"
  clock :: instant

definition script_read :: "nat \<Rightarrow> test_os \<Rightarrow> test_os \<times> (io_error, bytes) res" where
  "script_read n w =
     (case script w of
        [] \<Rightarrow> (w, Err (IoError WouldBlock ''''))
      | Ok d # r \<Rightarrow> (w\<lparr>script := r\<rparr>, Ok (take n d))
      | x # r \<Rightarrow> (w\<lparr>script := r\<rparr>, x))"

definition log_write :: "sock \<Rightarrow> bytes \<Rightarrow> test_os \<Rightarrow> test_os \<times> (io_error, nat) res" where
  "log_write s b w = (w\<lparr>written := written w @ [(s, b)]\<rparr>, Ok (length b))"

definition log_register :: "sock \<Rightarrow> usize \<Rightarrow> ready \<Rightarrow> test_os \<Rightarrow> test_os \<times> (io_error, unit) res" where
  "log_register s i rdy w = (w\<lparr>registered := registered w @ [(s, i, rdy)]\<rparr>, Ok ())"

definition test_os_ops :: "test_os os_ops" where
  "test_os_ops =
     \<lparr>net_udp_bind = (\<lambda>a w. (w, Ok 9)), net_send_to = (\<lambda>s b a w. (w\<lparr>sent := sent w @ [((s, b, a), Ok (length b))]\<rparr>, Ok (length b))),
      net_random_u16 = (\<lambda>w. (seed w, w\<lparr>draws := draws w @ [seed w], seed := seed w + 1\<rparr>)),
      os_tcp_read = (\<lambda>s. script_read), os_tcp_read_bufs = (\<lambda>s ns. script_read (sum_list ns)),
      os_tcp_write = log_write, os_tcp_write_bufs = (\<lambda>s bs. log_write s (concat bs)),
      os_tcp_flush = (\<lambda>s w. (w, Ok ())), os_tcp_accept = (\<lambda>s w. (w, Err (IoError WouldBlock ''''))),
      os_tcp_connect = (\<lambda>a w. (w, Ok 8)), os_udp_recv = (\<lambda>s. script_read), os_udp_send = log_write,
      os_udp_connect = (\<lambda>s a w. (w, Ok ())), os_tls_read = (\<lambda>s. script_read), os_tls_write = log_write,
      os_tls_flush = (\<lambda>s w. (w, Ok ())), os_tls_connect = (\<lambda>c d s w. (w, TlsOk s)),
      os_tls_accept = (\<lambda>c s w. (w, TlsOk s)), os_tls_handshake = (\<lambda>s w. (w, TlsOk s)),
      os_register = log_register, os_reregister = log_register, os_now = (\<lambda>w. (clock w, w))\<rparr>"

definition test_os_start :: test_os where
  "test_os_start = \<lparr>sent = [], draws = [], refusals = 0, seed = 5, script = [], written = [], registered = [], clock = Instant 0\<rparr>"

interpretation test_os: observed_net "net_ops.truncate test_os_ops" sent draws
  by unfold_locales (simp_all add: test_os_ops_def net_ops.truncate_def)

lemma test_os_accepts: "accepts_all test_os_ops s"
  by (simp add: accepts_all_def test_os_ops_def log_write_def)

section \<open>Properties\<close>

text \<open>
  C25: \<^verbatim>\<open>write_bufs\<close> on a TLS stream does not return when its first buffer is shorter than 4096 bytes and the stream
  takes what it is given: the branch that copies a small buffer does not move on to the next one, so the same bytes
  are copied and sent over and over.
\<close>

theorem tls_write_bufs_never_returns:
  assumes "accepts_all os s" and "bufs \<noteq> []" and "length (hd bufs) < 4096" and "length tmp_buf = 16384"
  shows "sock_write_bufs os (S_Tls s) tmp_buf bufs w = None"
  using tls_write_bufs_small_diverges [of os s 0 bufs tmp_buf 0 0 w] assms
  by (simp add: sock_write_bufs_def hd_conv_nth)

theorem tls_write_bufs_never_returns_witness:
  "sock_write_bufs test_os_ops (S_Tls 3) (replicate 16384 0) [[1, 2], [3]] test_os_start = None"
  by (rule tls_write_bufs_never_returns) (simp_all add: test_os_accepts)

text \<open>
  with buffers of 4096 bytes or more only, \<^verbatim>\<open>write_bufs\<close> on such a stream writes each buffer once, in order, and
  returns their total length.
\<close>

theorem tls_write_bufs_large_buffers:
  assumes "accepts_all os s" and "\<forall>b \<in> set bufs. 4096 \<le> length b"
  shows "sock_write_bufs os (S_Tls s) tmp_buf bufs w =
    Some (fold (\<lambda>b w. fst (os_tls_write os s b w)) bufs w, tmp_buf, Ok (sum_list (map length bufs)))"
  using tls_write_bufs_large [OF assms(1), of 0 bufs tmp_buf 0 w] assms(2) by (simp add: sock_write_bufs_def)

theorem tls_write_bufs_large_buffers_witness:
  "sock_write_bufs test_os_ops (S_Tls 3) (replicate 16384 0) [replicate 5000 1, replicate 4096 2] test_os_start =
    Some (fold (\<lambda>b w. fst (os_tls_write test_os_ops 3 b w)) [replicate 5000 1, replicate 4096 2] test_os_start,
      replicate 16384 0, Ok 9096)"
  using tls_write_bufs_large_buffers [OF test_os_accepts, of "[replicate 5000 1, replicate 4096 2]" 3 "replicate 16384 0" test_os_start]
  by simp

text \<open>
  A vectored read on a TLS stream that returns \<open>n\<close> has stored \<open>n\<close> bytes, one non-empty piece at the front of each
  buffer; the caller finds them where a vectored system call would put them, as the first \<open>n\<close> bytes of the buffers
  taken together, if every piece but the last fills its buffer.
\<close>

theorem tls_read_bufs_pieces:
  assumes "sock_read_bufs os (S_Tls s) bufs w = (w', bufs', Ok n)"
  shows "\<exists>ds. length ds \<le> length bufs \<and> [] \<notin> set ds \<and> n = length (concat ds) \<and> bufs' = place ds bufs \<and>
    (gapless ds bufs \<and> (\<forall>i < length ds. length (ds ! i) \<le> length (bufs ! i)) \<longrightarrow> bufs' = scatter (concat ds) bufs)"
proof -
  from tls_read_bufs_layout [of os s bufs 0 w w' bufs' n] assms obtain ds where
    "length ds \<le> length bufs" "[] \<notin> set ds" "n = length (concat ds)" "bufs' = place ds bufs"
    by (auto simp: sock_read_bufs_def)
  then show ?thesis using place_gapless by blast
qed

theorem tls_read_bufs_pieces_witness:
  "\<exists>ds. [] \<notin> set ds \<and> 2 = length (concat ds) \<and> [[1, 0], [2, 0]] = place ds [[0, 0], [0, 0]]"
proof -
  have "sock_read_bufs test_os_ops (S_Tls 3) [[0, 0], [0, 0]] (test_os_start\<lparr>script := [Ok [1], Ok [2]]\<rparr>) =
      (test_os_start, [[1, 0], [2, 0]], Ok 2)"
    by (simp add: sock_read_bufs_def test_os_ops_def script_read_def test_os_start_def fill_def)
  from tls_read_bufs_pieces [OF this] show ?thesis by blast
qed

end
