(* ===== verification/Timer_Config.thy ===== *)
theory Timer_Config
  imports Clock
begin

text \<open>
  \<^verbatim>\<open>builder.rs\<close>: the configuration of the timer wheel, every field optional with a default read by
  its getter.  \<^verbatim>\<open>usize\<close> settings are \<^typ>\<open>nat\<close>.
\<close>

record timer_builder =
  tb_tick_duration :: "duration option"
  tb_num_slots :: "nat option"
  tb_initial_capacity :: "nat option"
  tb_max_capacity :: "nat option"
  tb_max_timeout :: "duration option"
  tb_channel_capacity :: "nat option"
  tb_thread_name :: "string option"

definition timer_builder_new :: timer_builder where
  "timer_builder_new =
     \<lparr>tb_tick_duration = None, tb_num_slots = None, tb_initial_capacity = None,
      tb_max_capacity = None, tb_max_timeout = None, tb_channel_capacity = None,
      tb_thread_name = None\<rparr>"

fun unwrap_or :: "'a option \<Rightarrow> 'a \<Rightarrow> 'a" where
  "unwrap_or (Some x) d = x"
| "unwrap_or None d = d"

definition get_tick_duration :: "timer_builder \<Rightarrow> duration" where
  "get_tick_duration b = unwrap_or (tb_tick_duration b) (from_millis 100)"

definition tick_duration :: "timer_builder \<Rightarrow> duration \<Rightarrow> timer_builder" where
  "tick_duration b d = b\<lparr>tb_tick_duration := Some d\<rparr>"

definition get_num_slots :: "timer_builder \<Rightarrow> nat" where
  "get_num_slots b = unwrap_or (tb_num_slots b) 4096"

definition num_slots :: "timer_builder \<Rightarrow> nat \<Rightarrow> timer_builder" where
  "num_slots b n = b\<lparr>tb_num_slots := Some n\<rparr>"

definition get_channel_capacity :: "timer_builder \<Rightarrow> nat" where
  "get_channel_capacity b = unwrap_or (tb_channel_capacity b) 128"

definition channel_capacity :: "timer_builder \<Rightarrow> nat \<Rightarrow> timer_builder" where
  "channel_capacity b n = b\<lparr>tb_channel_capacity := Some n\<rparr>"

definition get_initial_capacity :: "timer_builder \<Rightarrow> nat" where
  "get_initial_capacity b = max (unwrap_or (tb_initial_capacity b) 256) (get_channel_capacity b)"

definition initial_capacity :: "timer_builder \<Rightarrow> nat \<Rightarrow> timer_builder" where
  "initial_capacity b n = b\<lparr>tb_initial_capacity := Some n\<rparr>"

definition get_max_capacity :: "timer_builder \<Rightarrow> nat" where
  "get_max_capacity b = unwrap_or (tb_max_capacity b) 4194304"

definition max_capacity :: "timer_builder \<Rightarrow> nat \<Rightarrow> timer_builder" where
  "max_capacity b n = b\<lparr>tb_max_capacity := Some n\<rparr>"

text \<open>The default is computed even when a value is set, so its overflow panics in any case.\<close>

definition get_max_timeout :: "timer_builder \<Rightarrow> (unit, duration) res" where
  "get_max_timeout b =
     bindR (duration_mul (get_tick_duration b) (word_of_nat (get_num_slots b))) (\<lambda>d.
     Ok (unwrap_or (tb_max_timeout b) d))"

definition max_timeout :: "timer_builder \<Rightarrow> duration \<Rightarrow> timer_builder" where
  "max_timeout b d = b\<lparr>tb_max_timeout := Some d\<rparr>"

lemmas timer_config_defs =
  timer_builder_new_def get_tick_duration_def tick_duration_def get_num_slots_def num_slots_def
  get_channel_capacity_def channel_capacity_def get_initial_capacity_def initial_capacity_def
  get_max_capacity_def max_capacity_def max_timeout_def

end
