(* ===== verification/Slab_Store.thy ===== *)
theory Slab_Store
  imports Easy_Prelude
begin

text \<open>
  The interface of the \<^verbatim>\<open>slab\<close> crate (version 0.3) as the timer wheel uses it.  The crate is not part
  of the repository: its operations are a parameter of the model, a record of functions on an abstract
  type of stores, and the locale \<open>slab\<close> states what the crate documents about them.  The store
  \<open>vec_slab\<close> at the end is an instance: a vector of cells with a capacity, as in the crate.
\<close>

record ('s, 'v) slab_ops =
  slab_with_capacity :: "nat \<Rightarrow> 's"
  slab_available :: "'s \<Rightarrow> nat"
  slab_len :: "'s \<Rightarrow> nat"
  slab_vacant :: "'s \<Rightarrow> bool"
  slab_reserve_exact :: "'s \<Rightarrow> nat \<Rightarrow> 's"
  slab_insert :: "'s \<Rightarrow> 'v \<Rightarrow> (usize \<times> 's) option"
  slab_get :: "'s \<Rightarrow> usize \<Rightarrow> 'v option"
  slab_set :: "'s \<Rightarrow> usize \<Rightarrow> 'v \<Rightarrow> 's"
  slab_remove :: "'s \<Rightarrow> usize \<Rightarrow> 'v option \<times> 's"

definition isize_max :: nat where "isize_max = 2 ^ 63 - 1"

text \<open>
  Keys are indices below the capacity, hence never \<^verbatim>\<open>usize::MAX\<close>; a key is handed out only while it is
  vacant; reserving makes room, as long as the size stays below \<^verbatim>\<open>isize::MAX\<close>.
\<close>

locale slab =
  fixes sl :: "('s, 'v) slab_ops"
  assumes get_with_capacity: "slab_get sl (slab_with_capacity sl n) = Map.empty"
    and get_max: "slab_get sl s (- 1) = None"
    and finite_keys: "finite (dom (slab_get sl s))"
    and len_keys: "slab_len sl s = card (dom (slab_get sl s))"
    and insert_fresh: "slab_insert sl s v = Some (k, s') \<Longrightarrow>
          slab_get sl s k = None \<and> slab_get sl s' = (slab_get sl s)(k \<mapsto> v)"
    and insert_vacant: "slab_insert sl s v = None \<longleftrightarrow> \<not> slab_vacant sl s"
    and get_reserve: "slab_get sl (slab_reserve_exact sl s n) = slab_get sl s"
    and reserve_vacant: "0 < n \<Longrightarrow> slab_len sl s + n \<le> isize_max \<Longrightarrow>
          slab_vacant sl (slab_reserve_exact sl s n)"
    and get_set: "slab_get sl s k \<noteq> None \<Longrightarrow> slab_get sl (slab_set sl s k v) = (slab_get sl s)(k \<mapsto> v)"
    and remove_value: "fst (slab_remove sl s k) = slab_get sl s k"
    and remove_get: "slab_get sl (snd (slab_remove sl s k)) = (slab_get sl s)(k := None)"
begin

lemma insert_not_max: "slab_insert sl s v = Some (k, s') \<Longrightarrow> k \<noteq> - 1"
  using insert_fresh [of s v k s'] get_max [of s'] by auto

lemma len_insert: "slab_insert sl s v = Some (k, s') \<Longrightarrow> slab_len sl s' = Suc (slab_len sl s)"
  using insert_fresh [of s v k s'] finite_keys [of s]
  by (simp add: len_keys domIff)

end

section \<open>A vector of cells\<close>

record 'v vec_slab =
  cells :: "'v option list"
  capacity :: nat

fun first_none :: "'v option list \<Rightarrow> nat" where
  "first_none [] = 0"
| "first_none (None # cs) = 0"
| "first_none (Some v # cs) = Suc (first_none cs)"

definition cell :: "'v option list \<Rightarrow> usize \<Rightarrow> 'v option" where
  "cell cs k = (if unat k < min (length cs) isize_max then cs ! unat k else None)"

definition filled :: "'v option list \<Rightarrow> nat" where
  "filled cs = length (filter (\<lambda>c. c \<noteq> None) (take isize_max cs))"

definition vec_vacant :: "'v vec_slab \<Rightarrow> bool" where
  "vec_vacant s \<longleftrightarrow> first_none (cells s) < min (capacity s) isize_max"

definition put_cell :: "'v option list \<Rightarrow> nat \<Rightarrow> 'v option \<Rightarrow> 'v option list" where
  "put_cell cs i c = (if i < length cs then cs[i := c] else cs @ [c])"

definition vec_slab_ops :: "('v vec_slab, 'v) slab_ops" where
  "vec_slab_ops =
    \<lparr>slab_with_capacity = (\<lambda>n. \<lparr>cells = [], capacity = n\<rparr>),
     slab_available = (\<lambda>s. capacity s - filled (cells s)),
     slab_len = (\<lambda>s. filled (cells s)),
     slab_vacant = vec_vacant,
     slab_reserve_exact = (\<lambda>s n. s\<lparr>capacity := max (capacity s) (filled (cells s) + n)\<rparr>),
     slab_insert = (\<lambda>s v. if vec_vacant s
        then Some (word_of_nat (first_none (cells s)),
                   s\<lparr>cells := put_cell (cells s) (first_none (cells s)) (Some v)\<rparr>)
        else None),
     slab_get = (\<lambda>s. cell (cells s)),
     slab_set = (\<lambda>s k v. if unat k < length (cells s) then s\<lparr>cells := (cells s)[unat k := Some v]\<rparr> else s),
     slab_remove = (\<lambda>s k. (cell (cells s) k,
        if unat k < min (length (cells s)) isize_max then s\<lparr>cells := (cells s)[unat k := None]\<rparr> else s))\<rparr>"

lemma first_none_le: "first_none cs \<le> length cs"
  by (induction cs rule: first_none.induct) auto

lemma first_none_nth: "first_none cs < length cs \<Longrightarrow> cs ! first_none cs = None"
  by (induction cs rule: first_none.induct) auto

lemma first_none_filled: "i < first_none cs \<Longrightarrow> \<exists>v. cs ! i = Some v"
proof (induction cs arbitrary: i rule: first_none.induct)
  case (3 v cs)
  then show ?case by (cases i) auto
qed auto

lemma first_none_le_filled:
  assumes "first_none cs \<le> n"
  shows "first_none cs \<le> length (filter (\<lambda>c. c \<noteq> None) (take n cs))"
proof -
  let ?f = "first_none cs"
  have "filter (\<lambda>c. c \<noteq> None) (take ?f cs) = take ?f cs"
    using first_none_filled [of _ cs] first_none_le [of cs]
    by (auto simp: filter_id_conv in_set_conv_nth)
  moreover have "take n cs = take ?f cs @ take (n - ?f) (drop ?f cs)"
    using assms by (metis le_add_diff_inverse take_add)
  ultimately show ?thesis using first_none_le [of cs] by simp
qed

lemma isize_max_word: "n < isize_max \<Longrightarrow> unat (word_of_nat n :: usize) = n"
  by (simp add: isize_max_def unat_of_nat)

lemma dom_cell: "dom (cell cs) = word_of_nat ` {i. i < length (take isize_max cs) \<and> take isize_max cs ! i \<noteq> None}"
proof (intro set_eqI iffI)
  fix k :: usize assume "k \<in> dom (cell cs)"
  then have "unat k < length (take isize_max cs)" "take isize_max cs ! unat k \<noteq> None"
    by (auto simp: cell_def dom_def split: if_splits)
  then show "k \<in> word_of_nat ` {i. i < length (take isize_max cs) \<and> take isize_max cs ! i \<noteq> None}"
    by (intro image_eqI [of _ _ "unat k"]) auto
next
  fix k :: usize assume "k \<in> word_of_nat ` {i. i < length (take isize_max cs) \<and> take isize_max cs ! i \<noteq> None}"
  then obtain i where "k = word_of_nat i" "i < length cs" "i < isize_max" "cs ! i \<noteq> None" by auto
  then show "k \<in> dom (cell cs)" by (auto simp: cell_def isize_max_word dom_def)
qed

lemma card_dom_cell: "finite (dom (cell cs))" "card (dom (cell cs)) = filled cs"
proof -
  let ?I = "{i. i < length (take isize_max cs) \<and> take isize_max cs ! i \<noteq> None}"
  show "finite (dom (cell cs))" by (simp add: dom_cell)
  have "inj_on (word_of_nat :: nat \<Rightarrow> usize) ?I"
    by (intro inj_onI) (metis (no_types, lifting) isize_max_word length_take mem_Collect_eq min_less_iff_conj)
  then have "card (dom (cell cs)) = card ?I" by (simp add: dom_cell card_image)
  then show "card (dom (cell cs)) = filled cs"
    by (simp only: filled_def length_filter_conv_card)
qed

lemma cell_put:
  assumes "i \<le> length cs" "i < isize_max"
  shows "cell (put_cell cs i c) = (cell cs)(word_of_nat i := c)"
proof
  fix k :: usize
  have "k = word_of_nat i \<longleftrightarrow> unat k = i" using assms(2) isize_max_word by auto
  then show "cell (put_cell cs i c) k = ((cell cs)(word_of_nat i := c)) k"
    using assms by (auto simp: cell_def put_cell_def nth_append)
qed

lemma cell_update:
  assumes "unat k < min (length cs) isize_max"
  shows "cell (cs[unat k := c]) = (cell cs)(k := c)"
  using cell_put [of "unat k" cs c] assms by (simp add: put_cell_def)

lemma unat_minus_one_usize: "unat (- 1 :: usize) = 2 ^ 64 - 1"
  by (simp add: unsigned_minus_1_eq_mask mask_eq_exp_minus_1)

interpretation vec_slab: slab "vec_slab_ops :: ('v vec_slab, 'v) slab_ops"
proof unfold_locales
  fix n :: nat and s s' :: "'v vec_slab" and k :: usize and v :: 'v
  show "slab_get vec_slab_ops (slab_with_capacity vec_slab_ops n) = (Map.empty :: usize \<Rightarrow> 'v option)"
    by (simp add: vec_slab_ops_def cell_def fun_eq_iff)
  show "slab_get vec_slab_ops s (- 1) = None"
    by (simp add: vec_slab_ops_def cell_def isize_max_def unat_minus_one_usize)
  show "finite (dom (slab_get vec_slab_ops s))" "slab_len vec_slab_ops s = card (dom (slab_get vec_slab_ops s))"
    by (simp_all add: vec_slab_ops_def card_dom_cell)
  show "slab_get vec_slab_ops s k = None \<and> slab_get vec_slab_ops s' = (slab_get vec_slab_ops s)(k \<mapsto> v)"
    if "slab_insert vec_slab_ops s v = Some (k, s')"
  proof -
    let ?i = "first_none (cells s)"
    from that have i: "?i < isize_max" and k: "k = word_of_nat ?i"
      and s': "s' = s\<lparr>cells := put_cell (cells s) ?i (Some v)\<rparr>"
      by (auto simp: vec_slab_ops_def vec_vacant_def split: if_splits)
    have "cell (cells s) k = None"
      using first_none_nth [of "cells s"] i by (auto simp: cell_def k isize_max_word)
    with i k s' show ?thesis by (simp add: vec_slab_ops_def cell_put first_none_le)
  qed
  show "slab_insert vec_slab_ops s v = None \<longleftrightarrow> \<not> slab_vacant vec_slab_ops s"
    "slab_get vec_slab_ops (slab_reserve_exact vec_slab_ops s n) = slab_get vec_slab_ops s"
    "fst (slab_remove vec_slab_ops s k) = slab_get vec_slab_ops s k"
    by (simp_all add: vec_slab_ops_def)
  show "slab_vacant vec_slab_ops (slab_reserve_exact vec_slab_ops s n)"
    if "0 < n" "slab_len vec_slab_ops s + n \<le> isize_max"
  proof -
    have "first_none (cells s) \<le> filled (cells s)"
      if "first_none (cells s) \<le> isize_max"
      using first_none_le_filled [OF that] by (simp add: filled_def)
    moreover have "\<not> isize_max < first_none (cells s)"
    proof
      assume "isize_max < first_none (cells s)"
      then have "\<forall>c \<in> set (take isize_max (cells s)). c \<noteq> None" "isize_max \<le> length (cells s)"
        using first_none_filled [of _ "cells s"] first_none_le [of "cells s"]
        by (auto simp: in_set_conv_nth)
      then have "filled (cells s) = isize_max" by (simp add: filled_def filter_id_conv [THEN iffD2])
      with that show False by (simp add: vec_slab_ops_def)
    qed
    ultimately show ?thesis using that by (auto simp: vec_slab_ops_def vec_vacant_def)
  qed
  show "slab_get vec_slab_ops (slab_set vec_slab_ops s k v) = (slab_get vec_slab_ops s)(k \<mapsto> v)"
    if "slab_get vec_slab_ops s k \<noteq> None"
    using that by (auto simp: vec_slab_ops_def cell_update cell_def split: if_splits)
  show "slab_get vec_slab_ops (snd (slab_remove vec_slab_ops s k)) = (slab_get vec_slab_ops s)(k := None)"
    by (auto simp: vec_slab_ops_def cell_update) (auto simp: cell_def fun_eq_iff)
qed

end
