(* ===== verification/Timer_Wheel.thy ===== *)
theory Timer_Wheel
  imports Timer_Config Slab_Store
begin

text \<open>
  \<^verbatim>\<open>wheel.rs\<close>: the hashed timer wheel.  Every slot of the wheel is the head of a doubly linked list of
  timeouts whose nodes live in a slab; tokens are slab keys and \<open>EMPTY\<close> (\<^verbatim>\<open>usize::MAX\<close>) is the
  null link.  The operations are parameterised by the slab (\<open>sl\<close>) and return the wheel together with
  their outcome.  Tick counts (\<^verbatim>\<open>u64\<close>) are \<^typ>\<open>nat\<close>; the truncation \<^verbatim>\<open>tick as u32\<close> is written out.
  Subtractions that underflow panic, as in a build with overflow checks.
\<close>

unbundle bit_operations_syntax

section \<open>State\<close>

type_synonym token = usize
type_synonym task = usize

definition EMPTY :: token where "EMPTY = - 1"

record slot =
  sl_head :: token
  sl_next :: "instant option"

record timeout =
  to_task :: task
  to_when :: instant
  to_wheel_idx :: nat
  to_prev :: token
  to_next :: token

datatype entry = Reserved | Timeout timeout

record 's wheel =
  w_slots :: "slot list"
  w_slab :: 's
  w_start :: instant
  w_cur_tick :: nat
  w_cur_idx :: token
  w_max_capacity :: nat
  w_tick_ms :: nat
  w_mask :: nat

section \<open>Operations\<close>

definition u64_max :: nat where "u64_max = 2 ^ 64 - 1"

definition millis :: "duration \<Rightarrow> nat" where
  "millis d =
     (let ms = (subsec_nanos d + nanos_per_milli - 1) div nanos_per_milli
      in min u64_max (min u64_max (as_secs d * 1000) + ms))"

definition wheel_new :: "('s, entry) slab_ops \<Rightarrow> timer_builder \<Rightarrow> instant \<Rightarrow> (unit, 's wheel) res" where
  "wheel_new sl b now =
     (let n = get_num_slots b in
      if n = 0 then Panic
      else let mask = n - 1 in
        if n AND mask \<noteq> 0 then Panic
        else Ok \<lparr>w_slots = replicate n \<lparr>sl_head = EMPTY, sl_next = None\<rparr>,
                 w_slab = slab_with_capacity sl (get_initial_capacity b),
                 w_start = now, w_cur_tick = 0, w_cur_idx = EMPTY,
                 w_max_capacity = get_max_capacity b,
                 w_tick_ms = millis (get_tick_duration b), w_mask = mask\<rparr>)"

definition wheel_available :: "('s, entry) slab_ops \<Rightarrow> 's wheel \<Rightarrow> nat" where
  "wheel_available sl w = slab_available sl (w_slab w)"

definition time_to_ticks :: "'s wheel \<Rightarrow> instant \<Rightarrow> (unit, nat) res" where
  "time_to_ticks w time =
     bindR (instant_sub time (w_start w)) (\<lambda>dur.
     let ms = subsec_nanos dur div 1000000; m = as_secs dur * 1000 in
     if u64_max < m \<or> u64_max < m + ms then Panic
     else if w_tick_ms w = 0 then Panic
     else Ok ((m + ms) div w_tick_ms w))"

definition ticks_to_wheel_idx :: "'s wheel \<Rightarrow> nat \<Rightarrow> nat" where
  "ticks_to_wheel_idx w ticks = ticks AND w_mask w"

definition wheel_reserve :: "('s, entry) slab_ops \<Rightarrow> 's wheel \<Rightarrow> 's wheel \<times> (unit, token option) res" where
  "wheel_reserve sl w =
     (let ins = (\<lambda>w. case slab_insert sl (w_slab w) Reserved of
                   Some (k, s) \<Rightarrow> (w\<lparr>w_slab := s\<rparr>, Ok (Some k))
                 | None \<Rightarrow> (w, Ok None)) in
      if \<not> slab_vacant sl (w_slab w) then
        (let len = slab_len sl (w_slab w) in
         if w_max_capacity w < len then (w, Panic)
         else let amt = min len (w_max_capacity w - len) in
           if amt = 0 then (w, Ok None)
           else ins (w\<lparr>w_slab := slab_reserve_exact sl (w_slab w) amt\<rparr>))
      else ins w)"

definition wheel_release :: "('s, entry) slab_ops \<Rightarrow> 's wheel \<Rightarrow> token \<Rightarrow> 's wheel" where
  "wheel_release sl w tk = w\<lparr>w_slab := snd (slab_remove sl (w_slab w) tk)\<rparr>"

text \<open>\<^verbatim>\<open>self.slab[k].timeout()\<close> and an assignment through \<^verbatim>\<open>self.slab[k].timeout_mut()\<close>: a vacant
  key and a reserved entry panic.\<close>

definition slab_timeout :: "('s, entry) slab_ops \<Rightarrow> 's wheel \<Rightarrow> token \<Rightarrow> (unit, timeout) res" where
  "slab_timeout sl w k =
     (case slab_get sl (w_slab w) k of Some (Timeout e) \<Rightarrow> Ok e | _ \<Rightarrow> Panic)"

definition slab_timeout_mut ::
  "('s, entry) slab_ops \<Rightarrow> 's wheel \<Rightarrow> token \<Rightarrow> (timeout \<Rightarrow> timeout) \<Rightarrow> (unit, 's wheel) res" where
  "slab_timeout_mut sl w k f =
     bindR (slab_timeout sl w k) (\<lambda>e. Ok (w\<lparr>w_slab := slab_set sl (w_slab w) k (Timeout (f e))\<rparr>))"

text \<open>\<^verbatim>\<open>self.slab[k] = entry\<close> and assignments to the fields of \<^verbatim>\<open>self.wheel[i]\<close>.\<close>

definition slab_store :: "('s, entry) slab_ops \<Rightarrow> 's wheel \<Rightarrow> token \<Rightarrow> entry \<Rightarrow> (unit, 's wheel) res" where
  "slab_store sl w k e =
     (if slab_get sl (w_slab w) k = None then Panic else Ok (w\<lparr>w_slab := slab_set sl (w_slab w) k e\<rparr>))"

definition slot_update :: "'s wheel \<Rightarrow> nat \<Rightarrow> (slot \<Rightarrow> slot) \<Rightarrow> (unit, 's wheel) res" where
  "slot_update w i f =
     bindR (index (w_slots w) i) (\<lambda>s. Ok (w\<lparr>w_slots := (w_slots w)[i := f s]\<rparr>))"

definition set_timeout ::
  "('s, entry) slab_ops \<Rightarrow> 's wheel \<Rightarrow> token \<Rightarrow> instant \<Rightarrow> task \<Rightarrow> 's wheel \<times> (unit, unit) res" where
  "set_timeout sl w tk at tsk =
     bindS (lift w (time_to_ticks w at)) (\<lambda>w tick0.
     let tick = (if tick0 \<le> w_cur_tick w then w_cur_tick w + 1 else tick0);
         wheel_idx = ticks_to_wheel_idx w tick in
     bindS (lift w (duration_mul (from_millis (w_tick_ms w)) (word_of_nat tick))) (\<lambda>w d.
     bindS (lift w (instant_add (w_start w) d)) (\<lambda>w at.
     bindS (lift w (index (w_slots w) wheel_idx)) (\<lambda>w slot.
     let prev_head = sl_head slot in
     bindS (put w (slot_update w wheel_idx (sl_head_update (\<lambda>_. tk)))) (\<lambda>w _.
     bindS (put w (slab_store sl w tk (Timeout \<lparr>to_task = tsk, to_when = at, to_wheel_idx = wheel_idx,
                                          to_prev = EMPTY, to_next = prev_head\<rparr>))) (\<lambda>w _.
     bindS (if prev_head \<noteq> EMPTY then put w (slab_timeout_mut sl w prev_head (to_prev_update (\<lambda>_. tk)))
            else (w, Ok ())) (\<lambda>w _.
     if at \<le> unwrap_or (sl_next slot) at
     then put w (slot_update w wheel_idx (sl_next_update (\<lambda>_. Some at)))
     else (w, Ok ()))))))))"

definition remove_slab ::
  "('s, entry) slab_ops \<Rightarrow> 's wheel \<Rightarrow> token \<Rightarrow> 's wheel \<times> (unit, entry option) res" where
  "remove_slab sl w k =
     (let (removed, s) = slab_remove sl (w_slab w) k; w = w\<lparr>w_slab := s\<rparr> in
      case removed of
        None \<Rightarrow> (w, Ok None)
      | Some Reserved \<Rightarrow> (w, Ok (Some Reserved))
      | Some (Timeout e) \<Rightarrow>
          bindS (if to_prev e = EMPTY
                 then put w (slot_update w (to_wheel_idx e) (sl_head_update (\<lambda>_. to_next e)))
                 else put w (slab_timeout_mut sl w (to_prev e) (to_next_update (\<lambda>_. to_next e)))) (\<lambda>w _.
          bindS (if to_next e \<noteq> EMPTY
                 then put w (slab_timeout_mut sl w (to_next e) (to_prev_update (\<lambda>_. to_prev e)))
                 else (w, Ok ())) (\<lambda>w _.
          (if w_cur_idx w = k then w\<lparr>w_cur_idx := to_next e\<rparr> else w, Ok (Some (Timeout e))))))"

definition wheel_cancel :: "('s, entry) slab_ops \<Rightarrow> 's wheel \<Rightarrow> token \<Rightarrow> 's wheel \<times> (unit, unit) res" where
  "wheel_cancel sl w k = bindS (remove_slab sl w k) (\<lambda>w _. (w, Ok ()))"

definition move_timeout :: "('s, entry) slab_ops \<Rightarrow> 's wheel \<Rightarrow> token \<Rightarrow> instant \<Rightarrow> task \<Rightarrow> 's wheel" where
  "move_timeout sl w k wh tsk =
     (case slab_get sl (w_slab w) k of
        Some (Timeout e) \<Rightarrow>
          if to_when e = wh
          then w\<lparr>w_slab := slab_set sl (w_slab w) k (Timeout (e\<lparr>to_task := tsk\<rparr>))\<rparr> else w
      | _ \<Rightarrow> w)"

definition next_timeout :: "'s wheel \<Rightarrow> instant option" where
  "next_timeout w =
     fold (\<lambda>s mn. case sl_next s of
              None \<Rightarrow> mn
            | Some a \<Rightarrow> (case mn of Some b \<Rightarrow> if b < a then mn else Some a | None \<Rightarrow> Some a))
       (w_slots w) None"

text \<open>
  The loop of \<^verbatim>\<open>poll\<close>: \<open>poll_step\<close> is one iteration, which either goes on or returns a task.
  The loop follows links, so nothing in the code itself bounds it; \<^const>\<open>None\<close> stands for a loop that
  does not end.
\<close>

datatype poll_next = Continue | Return "task option"

definition poll_step ::
  "('s, entry) slab_ops \<Rightarrow> instant \<Rightarrow> 's wheel \<Rightarrow> 's wheel \<times> (unit, poll_next) res" where
  "poll_step sl at w =
     (let hd_idx = w_cur_idx w; idx = ticks_to_wheel_idx w (w_cur_tick w) in
      bindS (lift w (index (w_slots w) idx)) (\<lambda>w slot.
      bindS (if hd_idx = sl_head slot then put w (slot_update w idx (sl_next_update (\<lambda>_. None)))
             else (w, Ok ())) (\<lambda>w _.
      if hd_idx = EMPTY then
        (let w = w\<lparr>w_cur_tick := w_cur_tick w + 1\<rparr>; idx = ticks_to_wheel_idx w (w_cur_tick w) in
         bindS (lift w (index (w_slots w) idx)) (\<lambda>w slot.
         (w\<lparr>w_cur_idx := sl_head slot\<rparr>, Ok Continue)))
      else
        bindS (lift w (slab_timeout sl w hd_idx)) (\<lambda>w tmo.
        let w = w\<lparr>w_cur_idx := to_next tmo\<rparr>; head_timeout = to_when tmo in
        bindS (lift w (time_to_ticks w head_timeout)) (\<lambda>w th.
        bindS (lift w (time_to_ticks w at)) (\<lambda>w ta.
        if th \<le> ta then
          bindS (remove_slab sl w hd_idx) (\<lambda>w removed.
          (w, Ok (Return (case removed of Some (Timeout v) \<Rightarrow> Some (to_task v) | _ \<Rightarrow> None))))
        else
          bindS (lift w (index (w_slots w) idx)) (\<lambda>w slot.
          if head_timeout \<le> unwrap_or (sl_next slot) head_timeout
          then bindS (put w (slot_update w idx (sl_next_update (\<lambda>_. Some head_timeout)))) (\<lambda>w _. (w, Ok Continue))
          else (w, Ok Continue))))))))"

partial_function (option) poll_loop ::
  "('s, entry) slab_ops \<Rightarrow> instant \<Rightarrow> nat \<Rightarrow> 's wheel \<Rightarrow> ('s wheel \<times> (unit, task option) res) option"
where [code]:
  "poll_loop sl at wheel_tick w =
     (if w_cur_tick w \<le> wheel_tick then
        (case poll_step sl at w of
           (w, Ok Continue) \<Rightarrow> poll_loop sl at wheel_tick w
         | (w, Ok (Return t)) \<Rightarrow> Some (w, Ok t)
         | (w, Err e) \<Rightarrow> Some (w, Err e)
         | (w, Panic) \<Rightarrow> Some (w, Panic))
      else Some (w, Ok None))"

definition wheel_poll ::
  "('s, entry) slab_ops \<Rightarrow> 's wheel \<Rightarrow> instant \<Rightarrow> ('s wheel \<times> (unit, task option) res) option" where
  "wheel_poll sl w at =
     (case time_to_ticks w at of
        Ok wheel_tick \<Rightarrow> poll_loop sl at wheel_tick w
      | Err e \<Rightarrow> Some (w, Err e)
      | Panic \<Rightarrow> Some (w, Panic))"

end
