(* ===== verification/Wheel_Links.thy ===== *)
theory Wheel_Links
  imports Timer_Wheel
begin

text \<open>
  The doubly linked lists of the wheel, over the slab seen as a map from tokens to entries: list
  segments, their behaviour under insertion at the head and under unlinking, and the data of the
  timeouts (task, instant, slot) that the links do not touch.
\<close>

section \<open>Segments\<close>

definition hd_or :: "'a list \<Rightarrow> 'a \<Rightarrow> 'a" where
  "hd_or xs d = (case xs of [] \<Rightarrow> d | x # _ \<Rightarrow> x)"

definition last_or :: "'a list \<Rightarrow> 'a \<Rightarrow> 'a" where
  "last_or xs d = (if xs = [] then d else last xs)"

lemma hd_or_simps [simp]: "hd_or [] d = d" "hd_or (x # xs) d = x"
  by (simp_all add: hd_or_def)

lemma last_or_simps [simp]: "last_or [] d = d" "last_or (xs @ [x]) d = x"
  by (simp_all add: last_or_def)

lemma last_or_Cons [simp]: "last_or (x # xs) d = last_or xs x"
  by (simp add: last_or_def)

lemma last_or_default: "d \<notin> set xs \<Longrightarrow> last_or xs d = d \<longleftrightarrow> xs = []"
  by (cases xs rule: rev_cases) auto

lemma hd_or_default: "d \<notin> set xs \<Longrightarrow> hd_or xs d = d \<longleftrightarrow> xs = []"
  by (cases xs) auto

type_synonym cells = "token \<Rightarrow> entry option"

text \<open>\<open>seg G p xs q\<close>: the tokens \<open>xs\<close> are linked in this order, \<open>p\<close> before and \<open>q\<close> after them.\<close>

fun seg :: "cells \<Rightarrow> token \<Rightarrow> token list \<Rightarrow> token \<Rightarrow> bool" where
  "seg G p [] q = True"
| "seg G p (x # xs) q =
     ((case G x of Some (Timeout e) \<Rightarrow> to_prev e = p \<and> to_next e = hd_or xs q | _ \<Rightarrow> False) \<and> seg G x xs q)"

lemma seg_append: "seg G p (xs @ ys) q \<longleftrightarrow> seg G p xs (hd_or ys q) \<and> seg G (last_or xs p) ys q"
proof (induction xs arbitrary: p)
  case (Cons x xs)
  have "hd_or (xs @ ys) q = hd_or xs (hd_or ys q)" by (cases xs) auto
  with Cons show ?case by (auto split: option.splits entry.splits)
qed simp

lemma seg_frame: "(\<And>x. x \<in> set xs \<Longrightarrow> G x = H x) \<Longrightarrow> seg G p xs q = seg H p xs q"
  by (induction xs arbitrary: p) auto

lemma seg_upd [simp]: "x \<notin> set xs \<Longrightarrow> seg (G(x := v)) p xs q = seg G p xs q"
  by (rule seg_frame) auto

lemma seg_Timeout: "seg G p xs q \<Longrightarrow> x \<in> set xs \<Longrightarrow> \<exists>e. G x = Some (Timeout e)"
  by (induction xs arbitrary: p) (auto split: option.splits entry.splits)

lemma seg_set_prev:
  assumes "seg G p (x # xs) q" "distinct (x # xs)" "G x = Some (Timeout e)"
  shows "seg (G(x \<mapsto> Timeout (e\<lparr>to_prev := p'\<rparr>))) p' (x # xs) q"
proof -
  have "seg (G(x \<mapsto> Timeout (e\<lparr>to_prev := p'\<rparr>))) x xs q = seg G x xs q"
    using assms(2) by (intro seg_frame) auto
  with assms show ?thesis by auto
qed

lemma seg_set_next:
  assumes "seg G p (xs @ [x]) q" "distinct (xs @ [x])" "G x = Some (Timeout e)"
  shows "seg (G(x \<mapsto> Timeout (e\<lparr>to_next := q'\<rparr>))) p (xs @ [x]) q'"
proof -
  have "seg (G(x \<mapsto> Timeout (e\<lparr>to_next := q'\<rparr>))) p xs x = seg G p xs x"
    using assms(2) by (intro seg_frame) auto
  with assms show ?thesis by (auto simp: seg_append)
qed

section \<open>The data of a timeout\<close>

definition pend :: "cells \<Rightarrow> token \<Rightarrow> (task \<times> instant \<times> nat) option" where
  "pend G x =
     (case G x of Some (Timeout e) \<Rightarrow> Some (to_task e, to_when e, to_wheel_idx e) | _ \<Rightarrow> None)"

lemma pend_Some_iff:
  "pend G x = Some (t, wh, i) \<longleftrightarrow>
   (\<exists>e. G x = Some (Timeout e) \<and> to_task e = t \<and> to_when e = wh \<and> to_wheel_idx e = i)"
  by (auto simp: pend_def split: option.splits entry.splits)

lemma pend_upd:
  "pend (G(x := None)) = (pend G)(x := None)"
  "pend (G(x \<mapsto> Reserved)) = (pend G)(x := None)"
  "pend (G(x \<mapsto> Timeout e)) = (pend G)(x \<mapsto> (to_task e, to_when e, to_wheel_idx e))"
  by (auto simp: pend_def fun_eq_iff)

lemma pend_relink:
  assumes "G x = Some (Timeout e)"
  shows "pend (G(x \<mapsto> Timeout (e\<lparr>to_prev := p\<rparr>))) = pend G"
    "pend (G(x \<mapsto> Timeout (e\<lparr>to_next := p\<rparr>))) = pend G"
  using assms by (auto simp: pend_def fun_eq_iff)

section \<open>Insertion and removal\<close>

fun relink_prev :: "cells \<Rightarrow> token \<Rightarrow> token \<Rightarrow> cells" where
  "relink_prev G x p =
     (case G x of Some (Timeout e) \<Rightarrow> G(x \<mapsto> Timeout (e\<lparr>to_prev := p\<rparr>)) | _ \<Rightarrow> G)"

fun relink_next :: "cells \<Rightarrow> token \<Rightarrow> token \<Rightarrow> cells" where
  "relink_next G x q =
     (case G x of Some (Timeout e) \<Rightarrow> G(x \<mapsto> Timeout (e\<lparr>to_next := q\<rparr>)) | _ \<Rightarrow> G)"

declare relink_prev.simps [simp del] relink_next.simps [simp del]

lemma relink_other [simp]:
  "y \<noteq> x \<Longrightarrow> relink_prev G x p y = G y" "y \<noteq> x \<Longrightarrow> relink_next G x p y = G y"
  by (auto simp: relink_prev.simps relink_next.simps split: option.splits entry.splits)

lemma pend_relink_fun [simp]: "pend (relink_prev G x p) = pend G" "pend (relink_next G x p) = pend G"
  by (auto simp: relink_prev.simps relink_next.simps pend_relink split: option.splits entry.splits)

lemma relink_next_Timeout: "G y = Some (Timeout e) \<Longrightarrow> \<exists>e'. relink_next G x q y = Some (Timeout e')"
  by (auto simp: relink_next.simps split: option.splits entry.splits)

lemma relink_dom: "relink_prev G x p y = None \<longleftrightarrow> G y = None" "relink_next G x p y = None \<longleftrightarrow> G y = None"
  by (auto simp: relink_prev.simps relink_next.simps split: option.splits entry.splits)

lemma relink_Reserved:
  "relink_prev G x p y = Some Reserved \<longleftrightarrow> G y = Some Reserved"
  "relink_next G x p y = Some Reserved \<longleftrightarrow> G y = Some Reserved"
  by (auto simp: relink_prev.simps relink_next.simps split: option.splits entry.splits)

text \<open>A node pushed in front of a list, whose old head now points back to it.\<close>

definition push_node :: "cells \<Rightarrow> token \<Rightarrow> timeout \<Rightarrow> cells" where
  "push_node G x e =
     (let G1 = G(x \<mapsto> Timeout e)
      in if to_next e = EMPTY then G1 else relink_prev G1 (to_next e) x)"

lemma seg_push_node:
  assumes "seg G EMPTY xs EMPTY" "distinct (x # xs)" "EMPTY \<notin> set xs"
    and "to_prev e = EMPTY" "to_next e = hd_or xs EMPTY"
  shows "seg (push_node G x e) EMPTY (x # xs) EMPTY"
proof (cases xs)
  case Nil
  with assms show ?thesis by (simp add: push_node_def Let_def)
next
  case (Cons y ys)
  obtain f where f: "G y = Some (Timeout f)" using seg_Timeout [OF assms(1), of y] Cons by auto
  let ?G1 = "G(x \<mapsto> Timeout e)"
  have "seg ?G1 EMPTY xs EMPTY" using assms(1,2) by simp
  moreover have "?G1 y = Some (Timeout f)" using f assms(2) Cons by auto
  ultimately have "seg (?G1(y \<mapsto> Timeout (f\<lparr>to_prev := x\<rparr>))) x xs EMPTY"
    using seg_set_prev [of ?G1 EMPTY y ys EMPTY f x] assms(2) Cons by auto
  moreover have "push_node G x e = ?G1(y \<mapsto> Timeout (f\<lparr>to_prev := x\<rparr>))"
    using assms Cons f by (auto simp: push_node_def relink_prev.simps Let_def)
  ultimately show ?thesis using assms Cons by auto
qed

lemma pend_push_node: "pend (push_node G x e) = (pend G)(x \<mapsto> (to_task e, to_when e, to_wheel_idx e))"
  by (simp add: push_node_def pend_upd Let_def)

lemma push_node_other: "y \<noteq> x \<Longrightarrow> y \<noteq> to_next e \<Longrightarrow> push_node G x e y = G y"
  by (simp add: push_node_def Let_def)

lemma push_node_None: "push_node G x e y = None \<longleftrightarrow> y \<noteq> x \<and> G y = None"
  by (auto simp: push_node_def relink_dom Let_def)

text \<open>A node taken out of a list, its neighbours linked to each other.\<close>

definition unlink :: "cells \<Rightarrow> token \<Rightarrow> timeout \<Rightarrow> cells" where
  "unlink G x e =
     (let G1 = G(x := None);
          G2 = (if to_prev e = EMPTY then G1 else relink_next G1 (to_prev e) (to_next e))
      in if to_next e = EMPTY then G2 else relink_prev G2 (to_next e) (to_prev e))"

lemma pend_unlink: "pend (unlink G x e) = (pend G)(x := None)"
  by (simp add: unlink_def pend_upd Let_def)

lemma unlink_other: "y \<noteq> x \<Longrightarrow> y \<noteq> to_prev e \<Longrightarrow> y \<noteq> to_next e \<Longrightarrow> unlink G x e y = G y"
  by (simp add: unlink_def Let_def)

lemma unlink_None: "unlink G x e y = None \<longleftrightarrow> y = x \<or> G y = None"
  by (auto simp: unlink_def relink_dom Let_def)

lemma unlink_Reserved: "unlink G x e y = Some Reserved \<longleftrightarrow> y \<noteq> x \<and> G y = Some Reserved"
  by (auto simp: unlink_def relink_Reserved Let_def)

lemma seg_node:
  assumes "seg G EMPTY (xs @ x # zs) EMPTY" "G x = Some (Timeout e)"
  shows "to_prev e = last_or xs EMPTY" "to_next e = hd_or zs EMPTY"
    "seg G EMPTY xs x" "seg G x zs EMPTY"
  using assms by (auto simp: seg_append)

lemma relink_next_seg:
  assumes "seg G p xs x" "distinct xs" "xs \<noteq> []"
  shows "seg (relink_next G (last xs) q) p xs q"
proof -
  have xs: "xs = butlast xs @ [last xs]" using assms(3) by simp
  obtain e where e: "G (last xs) = Some (Timeout e)"
    using seg_Timeout [OF assms(1)] assms(3) last_in_set by blast
  have "seg (G(last xs \<mapsto> Timeout (e\<lparr>to_next := q\<rparr>))) p (butlast xs @ [last xs]) q"
    by (rule seg_set_next) (use assms e xs in auto)
  then show ?thesis using e xs by (simp add: relink_next.simps)
qed

lemma relink_prev_seg:
  assumes "seg G x zs q" "distinct zs" "zs \<noteq> []"
  shows "seg (relink_prev G (hd zs) p) p zs q"
proof -
  obtain z zs' where zs: "zs = z # zs'" using assms(3) by (cases zs) auto
  obtain e where e: "G z = Some (Timeout e)" using seg_Timeout [OF assms(1), of z] zs by auto
  have "seg (G(z \<mapsto> Timeout (e\<lparr>to_prev := p\<rparr>))) p (z # zs') q"
    by (rule seg_set_prev) (use assms e zs in auto)
  then show ?thesis using e zs by (simp add: relink_prev.simps)
qed

lemma seg_unlink:
  assumes "seg G EMPTY (xs @ x # zs) EMPTY" "distinct (xs @ x # zs)" "EMPTY \<notin> set (xs @ x # zs)"
    and "G x = Some (Timeout e)"
  shows "seg (unlink G x e) EMPTY (xs @ zs) EMPTY"
proof -
  note node = seg_node [OF assms(1,4)]
  let ?p = "last_or xs EMPTY" and ?q = "hd_or zs EMPTY"
  let ?G1 = "G(x := None)"
  let ?G2 = "if to_prev e = EMPTY then ?G1 else relink_next ?G1 (to_prev e) (to_next e)"
  let ?G3 = "unlink G x e"
  have s1: "seg ?G1 EMPTY xs x" "seg ?G1 x zs EMPTY"
    using node(3,4) assms(2) by auto
  have p: "?p = EMPTY \<longleftrightarrow> xs = []" "?p = (if xs = [] then EMPTY else last xs)"
    using assms(3) by (simp_all add: last_or_default) (simp add: last_or_def)
  have q: "?q = EMPTY \<longleftrightarrow> zs = []" using assms(3) by (simp add: hd_or_default)
  have s2: "seg ?G2 EMPTY xs ?q" "seg ?G2 x zs EMPTY"
  proof -
    show "seg ?G2 EMPTY xs ?q"
      using relink_next_seg [OF s1(1), of ?q] assms(2) node(1,2) p by (cases "xs = []") auto
    have "?G2 y = ?G1 y" if "y \<in> set zs" for y
    proof (cases "xs = []")
      case False
      then have "y \<noteq> last xs"
        using that assms(2) last_in_set [OF False] by (metis disjoint_iff distinct_append list.set_intros(2))
      then show ?thesis using False node(1) p by simp
    qed (use node(1) in simp)
    then show "seg ?G2 x zs EMPTY" using s1(2) seg_frame [of zs ?G2 ?G1] by blast
  qed
  have G3: "?G3 = (if to_next e = EMPTY then ?G2 else relink_prev ?G2 (to_next e) (to_prev e))"
    by (simp add: unlink_def Let_def)
  have "seg ?G3 ?p zs EMPTY"
  proof (cases zs)
    case (Cons z zs')
    then have "?G3 = relink_prev ?G2 (hd zs) ?p" using G3 node q by auto
    then show ?thesis using relink_prev_seg [OF s2(2), of ?p] assms(2) Cons by simp
  qed simp
  moreover have "?G3 y = ?G2 y" if "y \<in> set xs" for y
  proof -
    have "y \<noteq> to_next e" using that assms(2,3) node(2) by (cases zs) auto
    then show ?thesis using G3 by auto
  qed
  then have "seg ?G3 EMPTY xs ?q" using s2(1) seg_frame [of xs ?G3 ?G2] by blast
  ultimately show ?thesis by (simp add: seg_append)
qed

end
