(* ===== verification/Wheel_Invariant.thy ===== *)
theory Wheel_Invariant
  imports Wheel_Links
begin

text \<open>
  The invariant of the timer wheel and that its operations keep it: the slots are the heads of
  well-formed lists that together hold every pending timeout; a timeout scheduled for tick \<open>k\<close> sits in
  slot \<open>k mod n\<close>; no tick already passed by the cursor is still pending, and those of the current tick
  are still ahead of the cursor.
\<close>

section \<open>Ticks and instants\<close>

definition tick_nanos :: "'s wheel \<Rightarrow> nat" where
  "tick_nanos w = w_tick_ms w * nanos_per_milli"

definition tick_instant :: "'s wheel \<Rightarrow> nat \<Rightarrow> instant" where
  "tick_instant w k = Instant (nanos (w_start w) + k * tick_nanos w)"

definition ticks_at :: "'s wheel \<Rightarrow> instant \<Rightarrow> nat" where
  "ticks_at w at = (nanos at - nanos (w_start w)) div tick_nanos w"

text \<open>
  The instants the wheel can handle: not before its start, and within \<open>2 ^ 32\<close> ticks of it, so that
  \<^verbatim>\<open>tick as u32\<close> loses nothing.  The clock is assumed to read less than \<open>2 ^ 53\<close> seconds there.
\<close>

definition in_horizon :: "'s wheel \<Rightarrow> instant \<Rightarrow> bool" where
  "in_horizon w at \<longleftrightarrow>
     nanos (w_start w) \<le> nanos at \<and> nanos at < nanos (w_start w) + 2 ^ 32 * tick_nanos w"

definition clock_ok :: "'s wheel \<Rightarrow> bool" where
  "clock_ok w \<longleftrightarrow> 0 < w_tick_ms w \<and> nanos (w_start w) + 2 ^ 32 * tick_nanos w < 2 ^ 53 * nanos_per_sec"

definition slots_ok :: "'s wheel \<Rightarrow> bool" where
  "slots_ok w \<longleftrightarrow> (\<exists>k. length (w_slots w) = 2 ^ k) \<and> w_mask w = length (w_slots w) - 1"

lemma millis_split: "d div nanos_per_sec * 1000 + d mod nanos_per_sec div 1000000 = d div nanos_per_milli"
proof -
  have "d = nanos_per_milli * (1000 * (d div nanos_per_sec)) + d mod nanos_per_sec"
    by (simp add: nanos_per_sec_def nanos_per_milli_def)
  then have "d div nanos_per_milli = 1000 * (d div nanos_per_sec) + d mod nanos_per_sec div nanos_per_milli"
    by (metis div_mult_self4 nanos_per_milli_def add.commute zero_neq_numeral)
  then show ?thesis by (simp add: nanos_per_milli_def)
qed

lemma time_to_ticks_in:
  assumes "clock_ok w" "in_horizon w at"
  shows "time_to_ticks w at = Ok (ticks_at w at)"
proof -
  let ?d = "nanos at - nanos (w_start w)"
  have "?d < 2 ^ 53 * nanos_per_sec" using assms by (auto simp: clock_ok_def in_horizon_def)
  then have "?d div nanos_per_milli < 2 ^ 53 * 1000"
    by (simp add: less_mult_imp_div_less nanos_per_sec_def nanos_per_milli_def)
  moreover have "(2::nat) ^ 53 * 1000 < u64_max" by (simp add: u64_max_def)
  ultimately have lim: "?d div nanos_per_milli \<le> u64_max" by linarith
  have "?d div nanos_per_sec * 1000 \<le> u64_max" using millis_split [of ?d] lim by linarith
  then show ?thesis
    using assms lim millis_split [of ?d]
    by (simp add: time_to_ticks_def instant_sub_def in_horizon_def clock_ok_def as_secs_def
        subsec_nanos_def ticks_at_def tick_nanos_def Let_def div_mult2_eq mult.commute)
qed

lemma tick_nanos_pos: "clock_ok w \<Longrightarrow> 0 < tick_nanos w"
  by (simp add: clock_ok_def tick_nanos_def nanos_per_milli_def)

lemma ticks_at_bound: "in_horizon w at \<Longrightarrow> ticks_at w at < 2 ^ 32"
  unfolding in_horizon_def ticks_at_def by (rule less_mult_imp_div_less) linarith

lemma tick_instant_horizon: "clock_ok w \<Longrightarrow> k < 2 ^ 32 \<Longrightarrow> in_horizon w (tick_instant w k)"
  using tick_nanos_pos [of w] by (simp add: in_horizon_def tick_instant_def)

lemma ticks_at_instant [simp]: "clock_ok w \<Longrightarrow> ticks_at w (tick_instant w k) = k"
  using tick_nanos_pos [of w] by (simp add: ticks_at_def tick_instant_def)

lemma tick_instant_add:
  assumes "clock_ok w" "k < 2 ^ 32"
  shows "bindR (duration_mul (from_millis (w_tick_ms w)) (word_of_nat k)) (instant_add (w_start w))
    = Ok (tick_instant w k)"
proof -
  have k: "unat (word_of_nat k :: u32) = k" using assms(2) by (simp add: unat_of_nat)
  have "k * tick_nanos w \<le> 2 ^ 32 * tick_nanos w" using assms(2) by (intro mult_right_mono) auto
  then have lim: "nanos (w_start w) + k * tick_nanos w < 2 ^ 53 * nanos_per_sec"
    using assms(1) unfolding clock_ok_def by linarith
  then have "k * tick_nanos w < duration_limit" "nanos (w_start w) + k * tick_nanos w < instant_limit"
    by (simp_all add: duration_limit_def instant_limit_def nanos_per_sec_def)
  then show ?thesis
    by (simp add: duration_mul_def from_millis_def instant_add_def tick_instant_def k
        tick_nanos_def [symmetric] mult.commute [of _ k] Let_def)
qed

lemma ticks_to_wheel_idx_mod: "slots_ok w \<Longrightarrow> ticks_to_wheel_idx w t = t mod length (w_slots w)"
  by (auto simp: slots_ok_def ticks_to_wheel_idx_def take_bit_eq_mod [symmetric] take_bit_eq_mask
      mask_eq_exp_minus_1)

lemma slots_ok_length: "slots_ok w \<Longrightarrow> 0 < length (w_slots w)"
  by (auto simp: slots_ok_def)

lemma slots_ok_index: "slots_ok w \<Longrightarrow> t mod length (w_slots w) < length (w_slots w)"
  using slots_ok_length [of w] by simp

text \<open>The assertion of \<^verbatim>\<open>Wheel::new\<close> accepts exactly the powers of two.\<close>

lemma and_pred_zero:
  fixes n :: nat
  assumes "0 < n" "n AND (n - 1) = 0"
  shows "\<exists>k. n = 2 ^ k"
  using assms
proof (induction n rule: less_induct)
  case (less n)
  show ?case
  proof (cases "even n")
    case True
    then obtain m where m: "n = 2 * m" by (elim evenE)
    have "(n - 1) div 2 = m - 1" using m less.prems(1) by simp
    then have "m AND (m - 1) = 0"
      using less.prems(2) and_rec [of n "n - 1"] m by simp
    then obtain k where "m = 2 ^ k" using less.IH [of m] m less.prems(1) by auto
    then have "n = 2 ^ Suc k" using m by simp
    then show ?thesis ..
  next
    case False
    then obtain m where m: "n = 2 * m + 1" by (elim oddE)
    then have "2 * m = 0" using less.prems(2) and_rec [of n "n - 1"] by simp
    then have "n = 2 ^ 0" using m by simp
    then show ?thesis ..
  qed
qed

lemma and_pred_power: "(2 ^ k :: nat) AND (2 ^ k - 1) = 0"
proof -
  have "(2 ^ k :: nat) AND mask k = 0"
    unfolding take_bit_eq_mask [symmetric] by (simp add: take_bit_eq_mod)
  then show ?thesis by (simp only: mask_eq_exp_minus_1)
qed

section \<open>The slot lists\<close>

definition links_ok :: "cells \<Rightarrow> slot list \<Rightarrow> (nat \<Rightarrow> token list) \<Rightarrow> bool" where
  "links_ok G ss L \<longleftrightarrow>
     G EMPTY = None \<and>
     (\<forall>i < length ss. sl_head (ss ! i) = hd_or (L i) EMPTY \<and> seg G EMPTY (L i) EMPTY \<and> distinct (L i) \<and>
        (\<forall>x. x \<in> set (L i) \<longleftrightarrow> (\<exists>t wh. pend G x = Some (t, wh, i)))) \<and>
     (\<forall>x t wh i. pend G x = Some (t, wh, i) \<longrightarrow> i < length ss)"

lemma links_okD:
  assumes "links_ok G ss L"
  shows "G EMPTY = None"
    "i < length ss \<Longrightarrow> sl_head (ss ! i) = hd_or (L i) EMPTY"
    "i < length ss \<Longrightarrow> seg G EMPTY (L i) EMPTY"
    "i < length ss \<Longrightarrow> distinct (L i)"
    "i < length ss \<Longrightarrow> x \<in> set (L i) \<longleftrightarrow> (\<exists>t wh. pend G x = Some (t, wh, i))"
    "pend G x = Some (t, wh, i) \<Longrightarrow> i < length ss"
  using assms by (auto simp: links_ok_def)

lemma pend_EMPTY: "G EMPTY = None \<Longrightarrow> pend G EMPTY = None"
  by (simp add: pend_def)

lemma links_ok_EMPTY: "links_ok G ss L \<Longrightarrow> i < length ss \<Longrightarrow> EMPTY \<notin> set (L i)"
  using links_okD(5) [of G ss L i EMPTY] pend_EMPTY [of G] links_okD(1) [of G ss L] by simp

lemma links_ok_heads: "links_ok G ss L \<Longrightarrow> map sl_head ss' = map sl_head ss \<Longrightarrow> links_ok G ss' L"
proof -
  assume ok: "links_ok G ss L" and eq: "map sl_head ss' = map sl_head ss"
  then have "length ss' = length ss" by (metis length_map)
  moreover from this have "sl_head (ss' ! i) = sl_head (ss ! i)" if "i < length ss" for i
    using eq that by (metis nth_map)
  ultimately show ?thesis using ok by (simp add: links_ok_def)
qed

lemma links_ok_frame:
  assumes "links_ok G ss L" "pend H = pend G" "H EMPTY = None"
    and "\<And>x. pend G x \<noteq> None \<Longrightarrow> H x = G x"
  shows "links_ok H ss L"
proof -
  have "seg H EMPTY (L i) EMPTY" if "i < length ss" for i
  proof -
    have "H x = G x" if "x \<in> set (L i)" for x
      using that assms(4) [of x] links_okD(5) [OF assms(1) \<open>i < length ss\<close>] by auto
    then show ?thesis using links_okD(3) [OF assms(1) that] seg_frame [of "L i" H G] by simp
  qed
  with assms(1-3) show ?thesis by (auto simp: links_ok_def)
qed

lemma links_disjoint:
  assumes "links_ok G ss L" "i < length ss" "j < length ss" "i \<noteq> j" "x \<in> set (L i)"
  shows "x \<notin> set (L j)"
  using assms by (auto simp: links_okD(5))

lemma links_push:
  assumes ok: "links_ok G ss L" and x: "pend G x = None" "x \<noteq> EMPTY" and i: "i < length ss"
    and e: "to_prev e = EMPTY" "to_next e = sl_head (ss ! i)" "to_wheel_idx e = i"
  shows "links_ok (push_node G x e) (ss[i := (ss ! i)\<lparr>sl_head := x\<rparr>]) (L(i := x # L i))"
proof -
  let ?G = "push_node G x e" and ?L = "L(i := x # L i)"
  note okD = links_okD [OF ok]
  have notin: "x \<notin> set (L j)" if "j < length ss" for j using x that by (simp add: okD(5))
  have nxt: "to_next e = hd_or (L i) EMPTY" using e i by (simp add: okD(2))
  have segs: "seg ?G EMPTY (?L j) EMPTY" if "j < length ss" for j
  proof (cases "j = i")
    case True
    show ?thesis unfolding True
      using seg_push_node [of G "L i" x e] okD(3,4) [OF i] notin [OF i] links_ok_EMPTY [OF ok i] e nxt by simp
  next
    case False
    have "?G y = G y" if "y \<in> set (L j)" for y
    proof (rule push_node_other)
      show "y \<noteq> x" using that notin [OF \<open>j < length ss\<close>] by auto
      have "y \<noteq> EMPTY" using links_ok_EMPTY [OF ok \<open>j < length ss\<close>] that by auto
      moreover have "y \<notin> set (L i)" using links_disjoint [OF ok \<open>j < length ss\<close> i False that] .
      ultimately show "y \<noteq> to_next e" using nxt by (cases "L i") auto
    qed
    then show ?thesis using False okD(3) [OF that] seg_frame [of "L j" ?G G] by simp
  qed
  have mem: "y \<in> set (?L j) \<longleftrightarrow> (\<exists>t wh. pend ?G y = Some (t, wh, j))" if "j < length ss" for j y
    using okD(5) [OF that] notin [OF that] e(3) x(1) by (auto simp: pend_push_node)
  have "?G EMPTY = None" using okD(1) x(2) by (simp add: push_node_None)
  moreover have "j < length ss" if "pend ?G y = Some (t, wh, j)" for y t wh j
    using that okD(6) e(3) i by (auto simp: pend_push_node split: if_splits)
  moreover have "distinct (?L j)" "sl_head (ss[i := (ss ! i)\<lparr>sl_head := x\<rparr>] ! j) = hd_or (?L j) EMPTY"
    if "j < length ss" for j
    using okD(2,4) [OF that] notin [OF i] that by (auto simp: nth_list_update)
  ultimately show ?thesis using segs mem unfolding links_ok_def by (simp only: length_list_update) blast
qed

lemma links_split:
  assumes "links_ok G ss L" "G x = Some (Timeout e)"
  obtains ys zs where "to_wheel_idx e < length ss" "L (to_wheel_idx e) = ys @ x # zs"
    "to_prev e = last_or ys EMPTY" "to_next e = hd_or zs EMPTY" "x \<notin> set ys" "x \<notin> set zs" "x \<noteq> EMPTY"
proof -
  have p: "pend G x = Some (to_task e, to_when e, to_wheel_idx e)" using assms(2) by (simp add: pend_def)
  then have i: "to_wheel_idx e < length ss" using links_okD(6) [OF assms(1)] by blast
  then have "x \<in> set (L (to_wheel_idx e))" using p links_okD(5) [OF assms(1) i] by blast
  then obtain ys zs where L: "L (to_wheel_idx e) = ys @ x # zs" by (auto simp: in_set_conv_decomp)
  have sg: "seg G EMPTY (ys @ x # zs) EMPTY" and "distinct (ys @ x # zs)"
    using links_okD(3,4) [OF assms(1) i] L by auto
  then show ?thesis
    using that [OF i L] seg_node [OF sg assms(2)] links_ok_EMPTY [OF assms(1) i] L by auto
qed

lemma links_unlink:
  assumes ok: "links_ok G ss L" and x: "G x = Some (Timeout e)"
  defines "i \<equiv> to_wheel_idx e"
  shows "links_ok (unlink G x e)
    (if to_prev e = EMPTY then ss[i := (ss ! i)\<lparr>sl_head := to_next e\<rparr>] else ss) (L(i := remove1 x (L i)))"
    (is "links_ok ?G ?ss ?L")
proof -
  note okD = links_okD [OF ok]
  obtain ys zs where i: "i < length ss" and L: "L i = ys @ x # zs"
    and pn: "to_prev e = last_or ys EMPTY" "to_next e = hd_or zs EMPTY" and nx: "x \<notin> set ys" "x \<notin> set zs" "x \<noteq> EMPTY"
    using links_split [OF ok x] unfolding i_def by metis
  have Li: "?L i = ys @ zs" using L nx by (simp add: remove1_append)
  have len: "length ?ss = length ss" by simp
  have dist: "distinct (ys @ x # zs)" using okD(4) [OF i] L by simp
  have segs: "seg ?G EMPTY (?L j) EMPTY" if "j < length ss" for j
  proof (cases "j = i")
    case True
    have "seg G EMPTY (ys @ x # zs) EMPTY" "EMPTY \<notin> set (ys @ x # zs)"
      using okD(3) [OF i] links_ok_EMPTY [OF ok i] L by simp_all
    then show ?thesis unfolding True Li using seg_unlink dist x by blast
  next
    case False
    have "?G y = G y" if y: "y \<in> set (L j)" for y
    proof (rule unlink_other)
      have "y \<notin> set (L i)" "y \<noteq> EMPTY"
        using links_disjoint [OF ok \<open>j < length ss\<close> i False y] links_ok_EMPTY [OF ok \<open>j < length ss\<close>] y by auto
      then show "y \<noteq> x" "y \<noteq> to_prev e" "y \<noteq> to_next e"
        using L pn last_in_set [of ys] by (auto simp: last_or_def hd_or_def split: list.splits)
    qed
    then show ?thesis using False okD(3) [OF that] seg_frame [of "L j" ?G G] by simp
  qed
  have mem: "y \<in> set (?L j) \<longleftrightarrow> (\<exists>t wh. pend ?G y = Some (t, wh, j))" if "j < length ss" for j y
  proof (cases "j = i")
    case True
    then show ?thesis unfolding pend_unlink True Li using okD(5) [OF i, of y] L nx by auto
  next
    case False
    have "pend G x = Some (to_task e, to_when e, i)" using x by (simp add: pend_def i_def)
    then show ?thesis using okD(5) [OF that, of y] False by (auto simp: pend_unlink)
  qed
  have "?G EMPTY = None" using okD(1) by (simp add: unlink_None)
  moreover have "j < length ss" if "pend ?G y = Some (t, wh, j)" for y t wh j
    using that okD(6) by (auto simp: pend_unlink split: if_splits)
  moreover have "distinct (?L j)" if "j < length ss" for j
    using okD(4) [OF that] by (auto simp: distinct_remove1)
  moreover have "sl_head (?ss ! j) = hd_or (?L j) EMPTY" if "j < length ss" for j
  proof (cases "j = i")
    case True
    have "to_prev e = EMPTY \<longleftrightarrow> ys = []"
      using pn(1) links_ok_EMPTY [OF ok i] L by (simp add: last_or_default)
    then show ?thesis unfolding True Li using okD(2) [OF i] L pn i by (cases ys) auto
  next
    case False
    then show ?thesis using okD(2) [OF that] by (simp add: nth_list_update)
  qed
  ultimately show ?thesis using segs mem unfolding links_ok_def len by blast
qed

end
