(* ===== verification/Wheel_Ops.thy ===== *)
theory Wheel_Ops
  imports Wheel_Invariant
begin

text \<open>
  The operations of the wheel keep its invariant, and what they do to the pending timeouts: reserving,
  arming (\<^verbatim>\<open>set_timeout\<close>), cancelling, and one step of \<^verbatim>\<open>poll\<close>.
\<close>

section \<open>The invariant\<close>

text \<open>The nodes of the current slot that the cursor has still to visit.\<close>

definition rest :: "'s wheel \<Rightarrow> (nat \<Rightarrow> token list) \<Rightarrow> token list" where
  "rest w L = dropWhile (\<lambda>y. y \<noteq> w_cur_idx w) (L (w_cur_tick w mod length (w_slots w)))"

definition ticks_ok :: "cells \<Rightarrow> 's wheel \<Rightarrow> (nat \<Rightarrow> token list) \<Rightarrow> bool" where
  "ticks_ok G w L \<longleftrightarrow>
     (\<forall>x t wh i. pend G x = Some (t, wh, i) \<longrightarrow>
        (\<exists>k < 2 ^ 32. wh = tick_instant w k \<and> i = k mod length (w_slots w) \<and> w_cur_tick w \<le> k \<and>
           (k = w_cur_tick w \<longrightarrow> x \<in> set (rest w L))))"

definition wheel_wf :: "('s, entry) slab_ops \<Rightarrow> 's wheel \<Rightarrow> (nat \<Rightarrow> token list) \<Rightarrow> bool" where
  "wheel_wf sl w L \<longleftrightarrow>
     clock_ok w \<and> slots_ok w \<and> links_ok (slab_get sl (w_slab w)) (w_slots w) L \<and>
     (w_cur_idx w = EMPTY \<or> w_cur_idx w \<in> set (L (w_cur_tick w mod length (w_slots w)))) \<and>
     ticks_ok (slab_get sl (w_slab w)) w L"

text \<open>The pending timeouts of a wheel: token to task and instant.\<close>

definition timers :: "('s, entry) slab_ops \<Rightarrow> 's wheel \<Rightarrow> token \<Rightarrow> (task \<times> instant) option" where
  "timers sl w x = (case slab_get sl (w_slab w) x of
      Some (Timeout e) \<Rightarrow> Some (to_task e, to_when e) | _ \<Rightarrow> None)"

lemma timers_pend: "timers sl w = (\<lambda>x. map_option (\<lambda>(t, wh, i). (t, wh)) (pend (slab_get sl (w_slab w)) x))"
  by (auto simp: timers_def pend_def fun_eq_iff split: option.splits entry.splits)

lemma rest_wheel_cong:
  "w_cur_idx w' = w_cur_idx w \<Longrightarrow> w_cur_tick w' = w_cur_tick w \<Longrightarrow> length (w_slots w') = length (w_slots w) \<Longrightarrow>
   rest w' L = rest w L"
  by (simp add: rest_def)

lemma wheel_wfD:
  assumes "wheel_wf sl w L"
  shows "clock_ok w" "slots_ok w" "links_ok (slab_get sl (w_slab w)) (w_slots w) L"
    "w_cur_idx w = EMPTY \<or> w_cur_idx w \<in> set (L (w_cur_tick w mod length (w_slots w)))"
    "ticks_ok (slab_get sl (w_slab w)) w L"
  using assms by (simp_all add: wheel_wf_def)

lemma tick_simps [simp]:
  "tick_instant (w\<lparr>w_slots := a\<rparr>) = tick_instant w" "tick_instant (w\<lparr>w_slab := b\<rparr>) = tick_instant w"
  "tick_instant (w\<lparr>w_cur_idx := c\<rparr>) = tick_instant w" "tick_instant (w\<lparr>w_cur_tick := d\<rparr>) = tick_instant w"
  "clock_ok (w\<lparr>w_slots := a\<rparr>) = clock_ok w" "clock_ok (w\<lparr>w_slab := b\<rparr>) = clock_ok w"
  "clock_ok (w\<lparr>w_cur_idx := c\<rparr>) = clock_ok w" "clock_ok (w\<lparr>w_cur_tick := d\<rparr>) = clock_ok w"
  "slots_ok (w\<lparr>w_slab := b\<rparr>) = slots_ok w" "slots_ok (w\<lparr>w_cur_idx := c\<rparr>) = slots_ok w"
  "slots_ok (w\<lparr>w_cur_tick := d\<rparr>) = slots_ok w"
  by (simp_all add: tick_instant_def tick_nanos_def clock_ok_def slots_ok_def fun_eq_iff)

lemma ticks_at_simps [simp]:
  "ticks_at (w\<lparr>w_slots := a\<rparr>) = ticks_at w" "ticks_at (w\<lparr>w_slab := b\<rparr>) = ticks_at w"
  "ticks_at (w\<lparr>w_cur_idx := c\<rparr>) = ticks_at w" "ticks_at (w\<lparr>w_cur_tick := d\<rparr>) = ticks_at w"
  "in_horizon (w\<lparr>w_slots := a\<rparr>) = in_horizon w" "in_horizon (w\<lparr>w_slab := b\<rparr>) = in_horizon w"
  "in_horizon (w\<lparr>w_cur_idx := c\<rparr>) = in_horizon w" "in_horizon (w\<lparr>w_cur_tick := d\<rparr>) = in_horizon w"
  by (simp_all add: ticks_at_def in_horizon_def tick_nanos_def fun_eq_iff)

lemma clock_cong:
  assumes "w_start w' = w_start w" "w_tick_ms w' = w_tick_ms w"
  shows "tick_instant w' = tick_instant w" "clock_ok w' = clock_ok w" "ticks_at w' = ticks_at w"
    "in_horizon w' = in_horizon w"
  using assms by (simp_all add: tick_instant_def tick_nanos_def clock_ok_def ticks_at_def in_horizon_def fun_eq_iff)

lemma slots_ok_update: "length a = length (w_slots w) \<Longrightarrow> slots_ok (w\<lparr>w_slots := a\<rparr>) = slots_ok w"
  by (simp add: slots_ok_def)

lemma ticks_ok_instant:
  assumes "ticks_ok G w L" "pend G x = Some (t, wh, i)"
  obtains k where "k < 2 ^ 32" "wh = tick_instant w k" "i = k mod length (w_slots w)" "w_cur_tick w \<le> k"
    "k = w_cur_tick w \<longrightarrow> x \<in> set (rest w L)"
  using assms unfolding ticks_ok_def by blast

lemma slot_update_in:
  "i < length (w_slots w) \<Longrightarrow> slot_update w i f = Ok (w\<lparr>w_slots := (w_slots w)[i := f (w_slots w ! i)]\<rparr>)"
  by (simp add: slot_update_def index_in)

lemma index_slot: "slots_ok w \<Longrightarrow>
    (index (w_slots w) (ticks_to_wheel_idx w t) :: (unit, slot) res)
      = Ok (w_slots w ! (t mod length (w_slots w)))"
  by (simp add: ticks_to_wheel_idx_mod index_in slots_ok_index)

text \<open>Changing the \<open>next_timeout\<close> of a slot is invisible to the invariant.\<close>

lemma map_head_next: "map sl_head (ss[i := (ss ! i)\<lparr>sl_next := v\<rparr>]) = map sl_head ss"
  by (cases "i < length ss") (simp_all add: map_update list_update_same_conv list_update_beyond)

lemma wheel_wf_next:
  assumes "wheel_wf sl w L"
  shows "wheel_wf sl (w\<lparr>w_slots := (w_slots w)[i := (w_slots w ! i)\<lparr>sl_next := v\<rparr>]\<rparr>) L"
proof -
  let ?w = "w\<lparr>w_slots := (w_slots w)[i := (w_slots w ! i)\<lparr>sl_next := v\<rparr>]\<rparr>"
  have "links_ok (slab_get sl (w_slab w)) (w_slots ?w) L"
    using links_ok_heads [OF wheel_wfD(3) [OF assms]] by (simp add: map_head_next)
  moreover have "rest ?w L = rest w L" by (simp add: rest_def)
  ultimately show ?thesis
    using wheel_wfD [OF assms] by (simp add: wheel_wf_def ticks_ok_def slots_ok_update)
qed

text \<open>The slots after a timeout has left its list.\<close>

definition slots_unlinked :: "'s wheel \<Rightarrow> timeout \<Rightarrow> slot list" where
  "slots_unlinked w e = (if to_prev e = EMPTY
     then (w_slots w)[to_wheel_idx e := (w_slots w ! to_wheel_idx e)\<lparr>sl_head := to_next e\<rparr>] else w_slots w)"

section \<open>Operations over a lawful slab\<close>

locale wheel_slab = slab sl for sl :: "('s, entry) slab_ops"
begin

lemma timeout_mut_Ok:
  assumes "slab_get sl (w_slab w) k = Some (Timeout e)"
  shows "\<exists>s. slab_timeout_mut sl w k f = Ok (w\<lparr>w_slab := s\<rparr>) \<and>
    slab_get sl s = (slab_get sl (w_slab w))(k \<mapsto> Timeout (f e))"
  using assms get_set [of "w_slab w" k "Timeout (f e)"]
  by (intro exI [of _ "slab_set sl (w_slab w) k (Timeout (f e))"])
    (simp add: slab_timeout_mut_def slab_timeout_def)

lemma timeout_relink:
  assumes "slab_get sl (w_slab w) k = Some (Timeout e)"
  shows "\<exists>s. slab_timeout_mut sl w k (to_next_update (\<lambda>_. q)) = Ok (w\<lparr>w_slab := s\<rparr>) \<and>
      slab_get sl s = relink_next (slab_get sl (w_slab w)) k q"
    "\<exists>s. slab_timeout_mut sl w k (to_prev_update (\<lambda>_. q)) = Ok (w\<lparr>w_slab := s\<rparr>) \<and>
      slab_get sl s = relink_prev (slab_get sl (w_slab w)) k q"
  using timeout_mut_Ok [OF assms] assms by (simp_all add: relink_next.simps relink_prev.simps)

text \<open>The two halves of unlinking: the node or slot before, and the node after.\<close>

lemma unlink_before:
  assumes "to_wheel_idx e < length (w_slots w)"
    and "to_prev e \<noteq> EMPTY \<Longrightarrow> \<exists>f. slab_get sl (w_slab w) (to_prev e) = Some (Timeout f)"
  shows "\<exists>s. (if to_prev e = EMPTY
        then put w (slot_update w (to_wheel_idx e) (sl_head_update (\<lambda>_. to_next e)))
        else put w (slab_timeout_mut sl w (to_prev e) (to_next_update (\<lambda>_. to_next e))))
      = (w\<lparr>w_slab := s, w_slots := slots_unlinked w e\<rparr>, Ok ()) \<and>
    slab_get sl s = (if to_prev e = EMPTY then slab_get sl (w_slab w)
      else relink_next (slab_get sl (w_slab w)) (to_prev e) (to_next e))"
proof (cases "to_prev e = EMPTY")
  case True
  then show ?thesis using assms(1) by (intro exI [of _ "w_slab w"]) (simp add: slot_update_in slots_unlinked_def)
next
  case False
  then obtain s where "slab_timeout_mut sl w (to_prev e) (to_next_update (\<lambda>_. to_next e)) = Ok (w\<lparr>w_slab := s\<rparr>)"
      "slab_get sl s = relink_next (slab_get sl (w_slab w)) (to_prev e) (to_next e)"
    using assms(2) timeout_relink(1) by meson
  then show ?thesis using False by (intro exI [of _ s]) (simp add: slots_unlinked_def)
qed

lemma unlink_after:
  assumes "to_next e \<noteq> EMPTY \<Longrightarrow> \<exists>f. slab_get sl (w_slab w) (to_next e) = Some (Timeout f)"
  shows "\<exists>s. (if to_next e \<noteq> EMPTY
        then put w (slab_timeout_mut sl w (to_next e) (to_prev_update (\<lambda>_. to_prev e))) else (w, Ok ()))
      = (w\<lparr>w_slab := s\<rparr>, Ok ()) \<and>
    slab_get sl s = (if to_next e = EMPTY then slab_get sl (w_slab w)
      else relink_prev (slab_get sl (w_slab w)) (to_next e) (to_prev e))"
proof (cases "to_next e = EMPTY")
  case True
  then show ?thesis by (intro exI [of _ "w_slab w"]) simp
next
  case False
  then obtain s where "slab_timeout_mut sl w (to_next e) (to_prev_update (\<lambda>_. to_prev e)) = Ok (w\<lparr>w_slab := s\<rparr>)"
      "slab_get sl s = relink_prev (slab_get sl (w_slab w)) (to_next e) (to_prev e)"
    using assms timeout_relink(2) by meson
  then show ?thesis using False by (intro exI [of _ s]) simp
qed

text \<open>Unlinking a pending timeout succeeds: its neighbours are where its links say.\<close>

lemma remove_slab_Timeout:
  assumes ok: "links_ok (slab_get sl (w_slab w)) (w_slots w) L"
    and x: "slab_get sl (w_slab w) x = Some (Timeout e)"
  shows "\<exists>s. slab_get sl s = unlink (slab_get sl (w_slab w)) x e \<and>
    remove_slab sl w x =
      (w\<lparr>w_slab := s, w_slots := slots_unlinked w e,
         w_cur_idx := (if w_cur_idx w = x then to_next e else w_cur_idx w)\<rparr>, Ok (Some (Timeout e)))"
proof -
  let ?G = "slab_get sl (w_slab w)" and ?G1 = "(slab_get sl (w_slab w))(x := None)"
  obtain ys zs where i: "to_wheel_idx e < length (w_slots w)" and L: "L (to_wheel_idx e) = ys @ x # zs"
    and pn: "to_prev e = last_or ys EMPTY" "to_next e = hd_or zs EMPTY" and nx: "x \<notin> set ys" "x \<notin> set zs"
    using links_split [OF ok x] by metis
  have seg: "seg ?G EMPTY (ys @ x # zs) EMPTY" using links_okD(3) [OF ok i] L by simp
  have node: "\<exists>f. ?G1 y = Some (Timeout f)" if "y \<in> set ys \<union> set zs" for y
    using that seg_Timeout [OF seg, of y] nx by auto
  obtain s1 where s1: "slab_remove sl (w_slab w) x = (Some (Timeout e), s1)" "slab_get sl s1 = ?G1"
    using remove_value [of "w_slab w" x] remove_get [of "w_slab w" x] x
    by (cases "slab_remove sl (w_slab w) x") simp
  let ?w1 = "w\<lparr>w_slab := s1\<rparr>"
  have "\<exists>f. slab_get sl (w_slab ?w1) (to_prev e) = Some (Timeout f)" if "to_prev e \<noteq> EMPTY"
    using that node [of "to_prev e"] pn(1) s1(2) by (simp add: last_or_def split: if_splits)
  note before = unlink_before [of e ?w1, OF _ this]
  have su: "slots_unlinked ?w1 e = slots_unlinked w e" by (simp add: slots_unlinked_def)
  obtain s2 where s2: "(if to_prev e = EMPTY
        then put ?w1 (slot_update ?w1 (to_wheel_idx e) (sl_head_update (\<lambda>_. to_next e)))
        else put ?w1 (slab_timeout_mut sl ?w1 (to_prev e) (to_next_update (\<lambda>_. to_next e))))
      = (w\<lparr>w_slab := s2, w_slots := slots_unlinked w e\<rparr>, Ok ())"
    and G2: "slab_get sl s2 = (if to_prev e = EMPTY then ?G1 else relink_next ?G1 (to_prev e) (to_next e))"
    using before i unfolding su s1(2) [symmetric] by auto
  let ?w2 = "w\<lparr>w_slab := s2, w_slots := slots_unlinked w e\<rparr>"
  have "\<exists>f. slab_get sl (w_slab ?w2) (to_next e) = Some (Timeout f)" if "to_next e \<noteq> EMPTY"
  proof -
    have "to_next e \<in> set zs" using that pn(2) by (cases zs) auto
    then obtain f where "?G1 (to_next e) = Some (Timeout f)" using node by blast
    then show ?thesis using relink_next_Timeout [of ?G1 "to_next e" f] by (auto simp: G2)
  qed
  from unlink_after [of e ?w2, OF this] obtain s3 where s3: "(if to_next e \<noteq> EMPTY
        then put ?w2 (slab_timeout_mut sl ?w2 (to_next e) (to_prev_update (\<lambda>_. to_prev e))) else (?w2, Ok ()))
      = (?w2\<lparr>w_slab := s3\<rparr>, Ok ())" "slab_get sl s3 = unlink ?G x e"
    by (auto simp: unlink_def Let_def G2)
  then show ?thesis by (intro exI [of _ s3]) (simp add: remove_slab_def s1(1) s2 Let_def)
qed

text \<open>Slab changes that do not touch a pending timeout.\<close>

lemma wheel_wf_frame:
  assumes "wheel_wf sl w L" and "pend (slab_get sl s) = pend (slab_get sl (w_slab w))"
    and "\<And>x. pend (slab_get sl (w_slab w)) x \<noteq> None \<Longrightarrow> slab_get sl s x = slab_get sl (w_slab w) x"
  shows "wheel_wf sl (w\<lparr>w_slab := s\<rparr>) L"
proof -
  have "slab_get sl s EMPTY = None" using get_max [of s] by (simp add: EMPTY_def)
  then have "links_ok (slab_get sl s) (w_slots w) L"
    using links_ok_frame [OF wheel_wfD(3) [OF assms(1)] assms(2)] assms(3) by simp
  then show ?thesis
    using wheel_wfD [OF assms(1)] assms(2) by (simp add: wheel_wf_def ticks_ok_def rest_def)
qed

lemma wheel_insert_wf:
  assumes wf: "wheel_wf sl w L" and ins: "slab_insert sl (w_slab w) Reserved = Some (k, s)"
  shows "wheel_wf sl (w\<lparr>w_slab := s\<rparr>) L" "timers sl (w\<lparr>w_slab := s\<rparr>) = timers sl w"
    "slab_get sl (w_slab w) k = None" "slab_get sl s k = Some Reserved"
    "pend (slab_get sl s) = pend (slab_get sl (w_slab w))"
proof -
  let ?G = "slab_get sl (w_slab w)"
  have k: "?G k = None" "slab_get sl s = ?G(k \<mapsto> Reserved)" using insert_fresh [OF ins] by auto
  then have p: "pend (slab_get sl s) = pend ?G" by (auto simp: pend_upd pend_def fun_eq_iff)
  show "wheel_wf sl (w\<lparr>w_slab := s\<rparr>) L"
    using wf p by (rule wheel_wf_frame) (auto simp: k pend_def)
  show "timers sl (w\<lparr>w_slab := s\<rparr>) = timers sl w" using p by (simp add: timers_pend)
  show "?G k = None" "slab_get sl s k = Some Reserved" "pend (slab_get sl s) = pend ?G" using k p by simp_all
qed

lemma wheel_reserve_wf:
  assumes wf: "wheel_wf sl w L" and lim: "slab_len sl (w_slab w) \<le> w_max_capacity w" "w_max_capacity w \<le> isize_max"
  shows "\<exists>w' r. wheel_reserve sl w = (w', Ok r) \<and> wheel_wf sl w' L \<and> timers sl w' = timers sl w \<and>
    w_cur_tick w' = w_cur_tick w \<and> w_start w' = w_start w \<and> w_tick_ms w' = w_tick_ms w \<and>
    w_max_capacity w' = w_max_capacity w \<and> w_slots w' = w_slots w \<and> w_cur_idx w' = w_cur_idx w \<and>
    pend (slab_get sl (w_slab w')) = pend (slab_get sl (w_slab w)) \<and>
    (case r of Some k \<Rightarrow> slab_get sl (w_slab w) k = None \<and> slab_get sl (w_slab w') k = Some Reserved
     | None \<Rightarrow> w' = w \<and> (slab_len sl (w_slab w) = 0 \<or> slab_len sl (w_slab w) = w_max_capacity w))"
proof (cases "slab_vacant sl (w_slab w)")
  case True
  then obtain k s where ins: "slab_insert sl (w_slab w) Reserved = Some (k, s)"
    using insert_vacant [of "w_slab w" Reserved] by (cases "slab_insert sl (w_slab w) Reserved") auto
  then show ?thesis using True wheel_insert_wf [OF wf ins] by (simp add: wheel_reserve_def Let_def)
next
  case False
  let ?len = "slab_len sl (w_slab w)"
  let ?amt = "min ?len (w_max_capacity w - ?len)"
  let ?w = "w\<lparr>w_slab := slab_reserve_exact sl (w_slab w) ?amt\<rparr>"
  show ?thesis
  proof (cases "?amt = 0")
    case True
    then show ?thesis using False lim wf by (auto simp: wheel_reserve_def Let_def min_def split: if_splits)
  next
    case amt: False
    have wf': "wheel_wf sl ?w L" using wf by (rule wheel_wf_frame) (simp_all add: get_reserve)
    have "?len + ?amt \<le> isize_max" using lim min.cobounded2 [of ?len "w_max_capacity w - ?len"] by linarith
    then have "slab_vacant sl (w_slab ?w)" using reserve_vacant [of ?amt "w_slab w"] amt by simp
    then obtain k s where ins: "slab_insert sl (w_slab ?w) Reserved = Some (k, s)"
      using insert_vacant [of "w_slab ?w" Reserved] by (cases "slab_insert sl (w_slab ?w) Reserved") auto
    have "timers sl ?w = timers sl w" by (simp add: timers_def get_reserve fun_eq_iff)
    then show ?thesis
      using False amt lim wheel_insert_wf [OF wf' ins] ins
      by (simp add: wheel_reserve_def Let_def get_reserve)
  qed
qed

end

section \<open>The cursor\<close>

lemma dropWhile_neq_mid: "x \<notin> set ys \<Longrightarrow> dropWhile (\<lambda>y. y \<noteq> x) (ys @ x # zs) = x # zs"
  by (induction ys) auto

lemma dropWhile_neq_hd:
  assumes "distinct (ys @ zs)" "d \<notin> set (ys @ zs)"
  shows "dropWhile (\<lambda>y. y \<noteq> hd_or zs d) (ys @ zs) = zs"
proof (cases zs)
  case Nil
  then show ?thesis using assms(2) by (auto simp: dropWhile_eq_Nil_conv)
next
  case (Cons z zs')
  then show ?thesis using assms(1) dropWhile_neq_mid [of z ys zs'] by simp
qed

lemma dropWhile_neq_remove:
  assumes "c \<noteq> x" "y \<in> set (dropWhile (\<lambda>y. y \<noteq> c) (ys @ x # zs))" "y \<noteq> x"
  shows "y \<in> set (dropWhile (\<lambda>y. y \<noteq> c) (ys @ zs))"
proof (cases "c \<in> set ys")
  case True
  then show ?thesis using assms by (auto simp: dropWhile_append1)
next
  case False
  then have "dropWhile (\<lambda>y. y \<noteq> c) (ys @ us) = dropWhile (\<lambda>y. y \<noteq> c) us" for us
    by (intro dropWhile_append2) auto
  then show ?thesis using assms by simp
qed

lemma dropWhile_neq_drop:
  assumes "distinct (ys @ x # zs)" "EMPTY \<notin> set (ys @ x # zs)"
    and "y \<in> set (dropWhile (\<lambda>y. y \<noteq> c) (ys @ x # zs))" "y \<noteq> x"
  shows "y \<in> set (dropWhile (\<lambda>y. y \<noteq> (if c = x then hd_or zs EMPTY else c)) (ys @ zs))"
proof (cases "c = x")
  case True
  then have "y \<in> set zs" using assms dropWhile_neq_mid [of x ys zs] by simp
  then show ?thesis using True assms(1,2) dropWhile_neq_hd [of ys zs EMPTY] by simp
next
  case False
  then show ?thesis using dropWhile_neq_remove [OF False assms(3,4)] by simp
qed

text \<open>When node \<open>x\<close> leaves its list, the cursor moves on if it stood there, and what it has still to visit stays.\<close>

lemma cursor_remove:
  assumes "L i = ys @ x # zs" "distinct (ys @ x # zs)" "EMPTY \<notin> set (ys @ x # zs)"
    and "i \<noteq> c \<Longrightarrow> cur \<noteq> x" "cur = EMPTY \<or> cur \<in> set (L c)"
  defines "cur' \<equiv> (if cur = x then hd_or zs EMPTY else cur)" and "L' \<equiv> L(i := ys @ zs)"
  shows "cur' = EMPTY \<or> cur' \<in> set (L' c)"
    and "y \<in> set (dropWhile (\<lambda>y. y \<noteq> cur) (L c)) \<Longrightarrow> y \<noteq> x \<Longrightarrow> y \<in> set (dropWhile (\<lambda>y. y \<noteq> cur') (L' c))"
proof -
  show "cur' = EMPTY \<or> cur' \<in> set (L' c)"
    using assms(1,4,5) by (cases "i = c"; cases zs) (auto simp: cur'_def L'_def)
  show "y \<in> set (dropWhile (\<lambda>y. y \<noteq> cur') (L' c))" if "y \<in> set (dropWhile (\<lambda>y. y \<noteq> cur) (L c))" "y \<noteq> x"
    using that assms(1,4) dropWhile_neq_drop [OF assms(2,3), of y cur] by (cases "i = c") (auto simp: cur'_def L'_def)
qed

lemma ticks_ok_shrink:
  assumes "ticks_ok G w L" and "tick_instant w' = tick_instant w" "w_cur_tick w' = w_cur_tick w"
    "length (w_slots w') = length (w_slots w)"
    and "\<And>x v. pend G' x = Some v \<Longrightarrow> pend G x = Some v \<and> (x \<in> set (rest w L) \<longrightarrow> x \<in> set (rest w' L'))"
  shows "ticks_ok G' w' L'"
  unfolding ticks_ok_def
proof (intro allI impI)
  fix x t wh i assume "pend G' x = Some (t, wh, i)"
  then have p: "pend G x = Some (t, wh, i)" "x \<in> set (rest w L) \<longrightarrow> x \<in> set (rest w' L')" using assms(5) by auto
  show "\<exists>k < 2 ^ 32. wh = tick_instant w' k \<and> i = k mod length (w_slots w') \<and> w_cur_tick w' \<le> k \<and>
      (k = w_cur_tick w' \<longrightarrow> x \<in> set (rest w' L'))"
    using ticks_ok_instant [OF assms(1) p(1)] p(2) assms(2-4) by metis
qed

lemma ticks_ok_add:
  assumes "ticks_ok G w L" and "tick_instant w' = tick_instant w" "w_cur_tick w' = w_cur_tick w"
    "length (w_slots w') = length (w_slots w)" "rest w' L' = rest w L"
    and "pend G' = (pend G)(tk \<mapsto> (tsk, tick_instant w k, k mod length (w_slots w)))" "k < 2 ^ 32" "w_cur_tick w < k"
  shows "ticks_ok G' w' L'"
  unfolding ticks_ok_def assms(2-5)
proof (intro allI impI)
  fix x t wh j assume "pend G' x = Some (t, wh, j)"
  then consider "wh = tick_instant w k" "j = k mod length (w_slots w)" | "pend G x = Some (t, wh, j)"
    using assms(6) by (auto split: if_splits)
  then show "\<exists>k < 2 ^ 32. wh = tick_instant w k \<and> j = k mod length (w_slots w) \<and> w_cur_tick w \<le> k \<and>
      (k = w_cur_tick w \<longrightarrow> x \<in> set (rest w L))"
  proof cases
    case 1
    then show ?thesis using assms(7,8) by (intro exI [of _ k]) simp
  next
    case 2
    then show ?thesis using assms(1) by (simp add: ticks_ok_def)
  qed
qed

section \<open>Creating, cancelling and arming\<close>

lemma seg_map_empty: "links_ok Map.empty (replicate n \<lparr>sl_head = EMPTY, sl_next = None\<rparr>) (\<lambda>_. [])"
  by (simp add: links_ok_def pend_def)

text \<open>What arming a token computes.\<close>

definition armed :: "'s wheel \<Rightarrow> 's \<Rightarrow> token \<Rightarrow> nat \<Rightarrow> instant \<Rightarrow> 's wheel" where
  "armed w s tk i at = w\<lparr>w_slab := s, w_slots := (w_slots w)[i := \<lparr>sl_head = tk, sl_next =
     (if at \<le> unwrap_or (sl_next (w_slots w ! i)) at then Some at else sl_next (w_slots w ! i))\<rparr>]\<rparr>"

lemma armed_simps [simp]:
  "w_slab (armed w s tk i at) = s" "w_cur_tick (armed w s tk i at) = w_cur_tick w" "w_cur_idx (armed w s tk i at) = w_cur_idx w"
  "w_start (armed w s tk i at) = w_start w" "w_tick_ms (armed w s tk i at) = w_tick_ms w"
  "w_max_capacity (armed w s tk i at) = w_max_capacity w" "length (w_slots (armed w s tk i at)) = length (w_slots w)"
  "w_mask (armed w s tk i at) = w_mask w"
  by (simp_all add: armed_def)

context wheel_slab
begin

lemma wheel_new_wf:
  assumes new: "wheel_new sl b now = Ok w" and clock: "clock_ok w"
  shows "wheel_wf sl w (\<lambda>_. [])" "timers sl w = Map.empty"
proof -
  let ?n = "get_num_slots b"
  have n: "0 < ?n" "?n AND (?n - 1) = 0"
    using new by (auto simp: wheel_new_def Let_def split: if_splits)
  have w: "w_slots w = replicate ?n \<lparr>sl_head = EMPTY, sl_next = None\<rparr>" "w_mask w = ?n - 1"
    "w_slab w = slab_with_capacity sl (get_initial_capacity b)" "w_cur_idx w = EMPTY"
    using new n by (auto simp: wheel_new_def Let_def)
  have "slots_ok w" using and_pred_zero [OF n] w by (simp add: slots_ok_def)
  moreover have "pend (slab_get sl (w_slab w)) = Map.empty"
    by (simp add: w get_with_capacity pend_def fun_eq_iff)
  ultimately show "wheel_wf sl w (\<lambda>_. [])"
    using clock seg_map_empty w by (simp add: wheel_wf_def ticks_ok_def get_with_capacity)
  show "timers sl w = Map.empty" by (simp add: timers_def w get_with_capacity fun_eq_iff)
qed

text \<open>Removing a pending timeout; the one removed need not be ahead of the cursor.\<close>

lemma remove_slab_links:
  assumes "clock_ok w" "slots_ok w" "links_ok (slab_get sl (w_slab w)) (w_slots w) L"
    and "w_cur_idx w = EMPTY \<or> w_cur_idx w \<in> set (L (w_cur_tick w mod length (w_slots w)))"
    and "ticks_ok ((slab_get sl (w_slab w))(x := None)) w L"
    and x: "slab_get sl (w_slab w) x = Some (Timeout e)"
  shows "\<exists>w'. remove_slab sl w x = (w', Ok (Some (Timeout e))) \<and>
    wheel_wf sl w' (L(to_wheel_idx e := remove1 x (L (to_wheel_idx e)))) \<and>
    pend (slab_get sl (w_slab w')) = (pend (slab_get sl (w_slab w)))(x := None) \<and>
    (\<forall>y. slab_get sl (w_slab w') y = None \<longleftrightarrow> y = x \<or> slab_get sl (w_slab w) y = None) \<and>
    (\<forall>y. slab_get sl (w_slab w') y = Some Reserved \<longleftrightarrow> slab_get sl (w_slab w) y = Some Reserved) \<and>
    w_cur_tick w' = w_cur_tick w \<and> w_start w' = w_start w \<and> w_tick_ms w' = w_tick_ms w \<and>
    map sl_next (w_slots w') = map sl_next (w_slots w) \<and> w_max_capacity w' = w_max_capacity w \<and>
    w_mask w' = w_mask w \<and> w_cur_idx w' = (if w_cur_idx w = x then to_next e else w_cur_idx w) \<and>
    (\<forall>y. y \<in> set (rest w L) \<and> y \<noteq> x \<longrightarrow> y \<in> set (rest w' (L(to_wheel_idx e := remove1 x (L (to_wheel_idx e))))))"
proof -
  let ?G = "slab_get sl (w_slab w)" and ?i = "to_wheel_idx e" and ?n = "length (w_slots w)"
  let ?c = "w_cur_tick w mod ?n" and ?L = "L(to_wheel_idx e := remove1 x (L (to_wheel_idx e)))"
  note D = assms(1-5)
  obtain s w' where s: "slab_get sl s = unlink ?G x e" and rm: "remove_slab sl w x = (w', Ok (Some (Timeout e)))"
    and w': "w' = w\<lparr>w_slab := s, w_slots := slots_unlinked w e, w_cur_idx := (if w_cur_idx w = x then to_next e else w_cur_idx w)\<rparr>"
    using remove_slab_Timeout [OF D(3) x] by metis
  have F: "w_slab w' = s" "w_cur_tick w' = w_cur_tick w" "w_start w' = w_start w" "w_tick_ms w' = w_tick_ms w"
    "w_mask w' = w_mask w" "w_max_capacity w' = w_max_capacity w" "length (w_slots w') = ?n"
    "w_cur_idx w' = (if w_cur_idx w = x then to_next e else w_cur_idx w)"
    by (simp_all add: w' slots_unlinked_def)
  note same_clock = clock_cong [OF F(3,4)]
  obtain ys zs where i: "?i < ?n" and Li: "L ?i = ys @ x # zs"
    and nx: "to_next e = hd_or zs EMPTY" "x \<notin> set ys" "x \<noteq> EMPTY"
    using links_split [OF D(3) x] by metis
  have L': "?L = L(?i := ys @ zs)" using Li nx by (simp add: remove1_append)
  have links: "links_ok (slab_get sl s) (w_slots w') ?L"
    using links_unlink [OF D(3) x] by (simp add: s w' slots_unlinked_def)
  have distinct: "distinct (ys @ x # zs)" "EMPTY \<notin> set (ys @ x # zs)"
    using links_okD(4) [OF D(3) i] links_ok_EMPTY [OF D(3) i] Li by simp_all
  have other: "w_cur_idx w \<noteq> x" if "?i \<noteq> ?c"
    using D(4) that nx(3) links_disjoint [OF D(3) slots_ok_index [OF D(2)] i, of "w_cur_tick w"] Li by auto
  note cursor = cursor_remove [where L = L and c = ?c, OF Li distinct other D(4), folded L' nx(1)]
  have keep: "y \<in> set (rest w' ?L)" if "y \<in> set (rest w L)" "y \<noteq> x" for y
    using cursor(2) [of y] that unfolding rest_def F(2,7,8) by blast
  have "ticks_ok (slab_get sl s) w' ?L"
    using D(5) same_clock(1) F(2,7)
    by (rule ticks_ok_shrink) (use keep in \<open>auto simp: s pend_unlink pend_upd split: if_splits\<close>)
  then have "wheel_wf sl w' ?L"
    unfolding wheel_wf_def F(1,2,7) using D(1,2) links cursor(1) F same_clock by (simp add: slots_ok_def)
  moreover have "map sl_next (w_slots w') = map sl_next (w_slots w)"
    using i by (simp add: w' slots_unlinked_def map_update list_update_same_conv)
  ultimately show ?thesis
    using rm F s x keep by (intro exI [of _ w']) (auto simp: pend_unlink unlink_None unlink_Reserved)
qed

lemma remove_slab_wf:
  assumes "wheel_wf sl w L" and "slab_get sl (w_slab w) x = Some (Timeout e)"
  shows "\<exists>w'. remove_slab sl w x = (w', Ok (Some (Timeout e))) \<and>
    wheel_wf sl w' (L(to_wheel_idx e := remove1 x (L (to_wheel_idx e)))) \<and>
    pend (slab_get sl (w_slab w')) = (pend (slab_get sl (w_slab w)))(x := None) \<and>
    (\<forall>y. slab_get sl (w_slab w') y = None \<longleftrightarrow> y = x \<or> slab_get sl (w_slab w) y = None) \<and>
    w_cur_tick w' = w_cur_tick w \<and> w_start w' = w_start w \<and> w_tick_ms w' = w_tick_ms w \<and>
    w_max_capacity w' = w_max_capacity w \<and> map sl_next (w_slots w') = map sl_next (w_slots w) \<and>
    (\<forall>y. y \<in> set (rest w L) \<and> y \<noteq> x \<longrightarrow> y \<in> set (rest w' (L(to_wheel_idx e := remove1 x (L (to_wheel_idx e))))))"
proof -
  have "ticks_ok ((slab_get sl (w_slab w))(x := None)) w L"
    using wheel_wfD(5) [OF assms(1)] by (auto simp: ticks_ok_def pend_upd)
  from remove_slab_links [OF wheel_wfD(1-4) [OF assms(1)] this assms(2)] show ?thesis by blast
qed

lemma wheel_cancel_wf:
  assumes wf: "wheel_wf sl w L"
  shows "\<exists>w' L'. wheel_cancel sl w x = (w', Ok ()) \<and> wheel_wf sl w' L' \<and>
    timers sl w' = (timers sl w)(x := None) \<and>
    pend (slab_get sl (w_slab w')) = (pend (slab_get sl (w_slab w)))(x := None) \<and>
    (\<forall>y. slab_get sl (w_slab w') y = None \<longleftrightarrow> y = x \<or> slab_get sl (w_slab w) y = None) \<and>
    w_cur_tick w' = w_cur_tick w \<and> w_start w' = w_start w \<and> w_tick_ms w' = w_tick_ms w \<and>
    w_max_capacity w' = w_max_capacity w \<and> map sl_next (w_slots w') = map sl_next (w_slots w) \<and>
    (\<forall>y. y \<in> set (rest w L) \<and> y \<noteq> x \<longrightarrow> y \<in> set (rest w' L'))"
proof (cases "\<exists>e. slab_get sl (w_slab w) x = Some (Timeout e)")
  case True
  then obtain e where "slab_get sl (w_slab w) x = Some (Timeout e)" ..
  from remove_slab_wf [OF wf this] obtain w' L' where "remove_slab sl w x = (w', Ok (Some (Timeout e)))"
    "wheel_wf sl w' L'" "pend (slab_get sl (w_slab w')) = (pend (slab_get sl (w_slab w)))(x := None)"
    "\<forall>y. slab_get sl (w_slab w') y = None \<longleftrightarrow> y = x \<or> slab_get sl (w_slab w) y = None"
    "w_cur_tick w' = w_cur_tick w" "w_start w' = w_start w" "w_tick_ms w' = w_tick_ms w"
    "w_max_capacity w' = w_max_capacity w" "map sl_next (w_slots w') = map sl_next (w_slots w)"
    "\<forall>y. y \<in> set (rest w L) \<and> y \<noteq> x \<longrightarrow> y \<in> set (rest w' L')"
    by blast
  then show ?thesis by (intro exI [of _ w'] exI [of _ L']) (auto simp: wheel_cancel_def timers_pend)
next
  case False
  let ?G = "slab_get sl (w_slab w)"
  obtain s where s: "slab_remove sl (w_slab w) x = (?G x, s)" "slab_get sl s = ?G(x := None)"
    using remove_value [of "w_slab w" x] remove_get [of "w_slab w" x]
    by (cases "slab_remove sl (w_slab w) x") simp
  have np: "pend ?G x = None" using False by (auto simp: pend_def split: option.splits entry.splits)
  then have p: "pend (slab_get sl s) = pend ?G" by (auto simp: s(2) pend_upd)
  have "wheel_wf sl (w\<lparr>w_slab := s\<rparr>) L"
    using wf p by (rule wheel_wf_frame) (use np s(2) in auto)
  moreover have "wheel_cancel sl w x = (w\<lparr>w_slab := s\<rparr>, Ok ())"
    using False s(1) by (auto simp: wheel_cancel_def remove_slab_def Let_def split: option.splits entry.splits)
  moreover have "timers sl (w\<lparr>w_slab := s\<rparr>) = (timers sl w)(x := None)"
    using np by (auto simp: timers_pend p fun_eq_iff)
  moreover have "rest (w\<lparr>w_slab := s\<rparr>) L = rest w L" by (simp add: rest_def)
  ultimately show ?thesis
    using s(2) by (intro exI [of _ "w\<lparr>w_slab := s\<rparr>"] exI [of _ L]) (auto simp: pend_upd)
qed

lemma push_timeout:
  assumes links: "links_ok (slab_get sl (w_slab w)) ss L" and i: "i < length ss"
    and tk: "slab_get sl (w_slab w) tk = Some Reserved"
    and e: "to_next e = sl_head (ss ! i)"
  shows "\<exists>s. slab_get sl s = push_node (slab_get sl (w_slab w)) tk e \<and>
    bindS (put w (slab_store sl w tk (Timeout e))) (\<lambda>w _.
      if to_next e \<noteq> EMPTY then put w (slab_timeout_mut sl w (to_next e) (to_prev_update (\<lambda>_. tk))) else (w, Ok ()))
    = (w\<lparr>w_slab := s\<rparr>, Ok ())"
proof -
  let ?G = "slab_get sl (w_slab w)"
  let ?s1 = "slab_set sl (w_slab w) tk (Timeout e)"
  have s1: "slab_get sl ?s1 = ?G(tk \<mapsto> Timeout e)" using get_set tk by simp
  have st: "slab_store sl w tk (Timeout e) = Ok (w\<lparr>w_slab := ?s1\<rparr>)" using tk by (simp add: slab_store_def)
  show ?thesis
  proof (cases "to_next e = EMPTY")
    case True
    then show ?thesis using s1 st by (intro exI [of _ ?s1]) (simp add: push_node_def)
  next
    case False
    have "sl_head (ss ! i) = hd_or (L i) EMPTY" by (rule links_okD(2) [OF links i])
    then have "to_next e \<in> set (L i)" using e False by (cases "L i") auto
    then obtain f where f: "?G (to_next e) = Some (Timeout f)" using seg_Timeout [OF links_okD(3) [OF links i]] by blast
    then have ne: "to_next e \<noteq> tk" using tk by auto
    obtain s where s: "slab_timeout_mut sl (w\<lparr>w_slab := ?s1\<rparr>) (to_next e) (to_prev_update (\<lambda>_. tk))
          = Ok (w\<lparr>w_slab := s\<rparr>)"
        "slab_get sl s = ?G(tk \<mapsto> Timeout e, to_next e \<mapsto> Timeout (f\<lparr>to_prev := tk\<rparr>))"
      using timeout_mut_Ok [of "w\<lparr>w_slab := ?s1\<rparr>" "to_next e" f "to_prev_update (\<lambda>_. tk)"] f s1 ne by auto
    show ?thesis
      using False f ne st s by (intro exI [of _ s]) (simp add: push_node_def relink_prev.simps)
  qed
qed

lemma set_timeout_armed:
  assumes wf: "wheel_wf sl w L" and tk: "slab_get sl (w_slab w) tk = Some Reserved"
    and at: "in_horizon w at" and room: "w_cur_tick w + 1 < 2 ^ 32"
  defines "k \<equiv> max (ticks_at w at) (w_cur_tick w + 1)"
  defines "i \<equiv> k mod length (w_slots w)"
  shows "\<exists>s. set_timeout sl w tk at tsk = (armed w s tk i (tick_instant w k), Ok ()) \<and>
    slab_get sl s = push_node (slab_get sl (w_slab w)) tk
      \<lparr>to_task = tsk, to_when = tick_instant w k, to_wheel_idx = i, to_prev = EMPTY, to_next = sl_head (w_slots w ! i)\<rparr>"
proof -
  note D = wheel_wfD [OF wf]
  let ?slot = "w_slots w ! i" and ?at = "tick_instant w k"
  have k: "k < 2 ^ 32" using ticks_at_bound [OF at] room by (auto simp: k_def)
  have i: "i < length (w_slots w)" unfolding i_def by (rule slots_ok_index [OF D(2)])
  have tick: "(if ticks_at w at \<le> w_cur_tick w then w_cur_tick w + 1 else ticks_at w at) = k"
    by (auto simp: k_def)
  obtain d where d: "(duration_mul (from_millis (w_tick_ms w)) (word_of_nat k) :: (unit, duration) res) = Ok d"
      "(instant_add (w_start w) d :: (unit, instant) res) = Ok ?at"
    using tick_instant_add [OF D(1) k] by (auto simp: outcome_simps)
  have idx: "ticks_to_wheel_idx w k = i" by (simp add: ticks_to_wheel_idx_mod [OF D(2)] i_def)
  define e where "e = \<lparr>to_task = tsk, to_when = ?at, to_wheel_idx = i, to_prev = EMPTY, to_next = sl_head ?slot\<rparr>"
  define w0 where "w0 = w\<lparr>w_slots := (w_slots w)[i := ?slot\<lparr>sl_head := tk\<rparr>]\<rparr>"
  obtain s where s: "slab_get sl s = push_node (slab_get sl (w_slab w)) tk e"
    and push: "bindS (put w0 (slab_store sl w0 tk (Timeout e))) (\<lambda>w _.
      if to_next e \<noteq> EMPTY then put w (slab_timeout_mut sl w (to_next e) (to_prev_update (\<lambda>_. tk))) else (w, Ok ()))
      = (w0\<lparr>w_slab := s\<rparr>, Ok ())"
    using push_timeout [of w0 "w_slots w" L i tk e] D(3) i tk by (auto simp: e_def w0_def)
  let ?upd = "?at \<le> unwrap_or (sl_next ?slot) ?at"
  have "set_timeout sl w tk at tsk = bindS (bindS (put w0 (slab_store sl w0 tk (Timeout e))) (\<lambda>w _.
      if to_next e \<noteq> EMPTY then put w (slab_timeout_mut sl w (to_next e) (to_prev_update (\<lambda>_. tk))) else (w, Ok ())))
      (\<lambda>w _. if ?upd then put w (slot_update w i (sl_next_update (\<lambda>_. Some ?at))) else (w, Ok ()))"
    unfolding set_timeout_def time_to_ticks_in [OF D(1) at] bindS_lift_Ok Let_def tick idx d index_in [OF i]
      slot_update_in [OF i] put.simps bindS.simps(1) w0_def [symmetric] bindS_assoc
    by (simp add: e_def cong: if_cong)
  also have "\<dots> = (armed w s tk i ?at, Ok ())"
    unfolding push using slot_update_in [of i "w0\<lparr>w_slab := s\<rparr>"] i by (cases ?slot) (simp add: armed_def w0_def)
  finally show ?thesis using s unfolding e_def by blast
qed

lemma set_timeout_wf:
  assumes wf: "wheel_wf sl w L" and tk: "slab_get sl (w_slab w) tk = Some Reserved"
    and at: "in_horizon w at" and room: "w_cur_tick w + 1 < 2 ^ 32"
  defines "k \<equiv> max (ticks_at w at) (w_cur_tick w + 1)"
  defines "i \<equiv> k mod length (w_slots w)"
  shows "\<exists>w'. set_timeout sl w tk at tsk = (w', Ok ()) \<and> wheel_wf sl w' (L(i := tk # L i)) \<and>
    timers sl w' = (timers sl w)(tk \<mapsto> (tsk, tick_instant w k)) \<and>
    w_cur_tick w' = w_cur_tick w \<and> w_start w' = w_start w \<and> w_tick_ms w' = w_tick_ms w \<and>
    w_max_capacity w' = w_max_capacity w \<and> rest w' (L(i := tk # L i)) = rest w L \<and>
    (\<forall>y. slab_get sl (w_slab w') y = None \<longleftrightarrow> slab_get sl (w_slab w) y = None) \<and>
    pend (slab_get sl (w_slab w')) = (pend (slab_get sl (w_slab w)))(tk \<mapsto> (tsk, tick_instant w k, i)) \<and>
    w_slots w' = (w_slots w)[i := \<lparr>sl_head = tk, sl_next =
       (if tick_instant w k \<le> unwrap_or (sl_next (w_slots w ! i)) (tick_instant w k)
        then Some (tick_instant w k) else sl_next (w_slots w ! i))\<rparr>]"
proof -
  note D = wheel_wfD [OF wf]
  let ?G = "slab_get sl (w_slab w)" and ?at = "tick_instant w k" and ?L = "L(i := tk # L i)"
  let ?c = "w_cur_tick w mod length (w_slots w)"
  let ?e = "\<lparr>to_task = tsk, to_when = ?at, to_wheel_idx = i, to_prev = EMPTY, to_next = sl_head (w_slots w ! i)\<rparr>"
  have k: "k < 2 ^ 32" "w_cur_tick w < k" using ticks_at_bound [OF at] room by (auto simp: k_def)
  have i: "i < length (w_slots w)" unfolding i_def by (rule slots_ok_index [OF D(2)])
  obtain s where run: "set_timeout sl w tk at tsk = (armed w s tk i ?at, Ok ())" and s: "slab_get sl s = push_node ?G tk ?e"
    using set_timeout_armed [OF wf tk at room, of tsk] unfolding k_def i_def by blast
  let ?w = "armed w s tk i ?at"
  have tk': "tk \<noteq> EMPTY" "pend ?G tk = None" using tk links_okD(1) [OF D(3)] by (auto simp: pend_def)
  have "links_ok (slab_get sl s) ((w_slots w)[i := (w_slots w ! i)\<lparr>sl_head := tk\<rparr>]) ?L"
    using links_push [OF D(3) tk'(2,1) i, of ?e] by (simp add: s)
  then have links: "links_ok (slab_get sl s) (w_slots ?w) ?L"
    by (rule links_ok_heads) (simp add: armed_def map_update)
  have pend: "pend (slab_get sl s) = (pend ?G)(tk \<mapsto> (tsk, ?at, i))" by (simp add: s pend_push_node)
  have "tk \<notin> set (L ?c)" using tk'(2) links_okD(5) [OF D(3) slots_ok_index [OF D(2)]] by simp
  then have "tk \<noteq> w_cur_idx w" using D(4) tk'(1) by auto
  then have rest: "rest ?w ?L = rest w L" by (auto simp: rest_def)
  have clock: "tick_instant ?w = tick_instant w" "clock_ok ?w" using clock_cong [of ?w w] D(1) by simp_all
  have "ticks_ok (slab_get sl s) ?w ?L"
    by (rule ticks_ok_add [OF D(5) clock(1) _ _ rest _ k]) (simp_all add: pend i_def)
  then have "wheel_wf sl ?w ?L"
    using D(2,4) links clock(2) by (auto simp: wheel_wf_def slots_ok_def)
  moreover have "timers sl ?w = (timers sl w)(tk \<mapsto> (tsk, ?at))" using pend by (auto simp: timers_pend fun_eq_iff)
  moreover have "\<forall>y. slab_get sl s y = None \<longleftrightarrow> ?G y = None" using tk by (auto simp: s push_node_None)
  ultimately show ?thesis
    using run rest pend by (intro exI [of _ ?w]) (simp add: armed_def)
qed

end

end
