(* ===== verification/Wheel_Poll.thy ===== *)
theory Wheel_Poll
  imports Wheel_Ops
begin

text \<open>
  \<^verbatim>\<open>poll\<close>: one step of its loop, that the loop ends, and what it returns; the hints of the slots
  (\<open>next_timeout\<close>).
\<close>

section \<open>One step of the loop\<close>

definition cur_slot :: "'s wheel \<Rightarrow> nat" where
  "cur_slot w = w_cur_tick w mod length (w_slots w)"

text \<open>The wheel after the hint of the current slot has been cleared, when the cursor is at its head.\<close>

definition clear_next :: "'s wheel \<Rightarrow> 's wheel" where
  "clear_next w =
     (if w_cur_idx w = sl_head (w_slots w ! cur_slot w)
      then w\<lparr>w_slots := (w_slots w)[cur_slot w := (w_slots w ! cur_slot w)\<lparr>sl_next := None\<rparr>]\<rparr> else w)"

lemma clear_next_simps [simp]:
  "w_slab (clear_next w) = w_slab w" "w_cur_tick (clear_next w) = w_cur_tick w"
  "w_cur_idx (clear_next w) = w_cur_idx w" "w_start (clear_next w) = w_start w"
  "w_tick_ms (clear_next w) = w_tick_ms w" "w_mask (clear_next w) = w_mask w"
  "w_max_capacity (clear_next w) = w_max_capacity w"
  "length (w_slots (clear_next w)) = length (w_slots w)"
  by (simp_all add: clear_next_def)

lemma clear_next_wf: "wheel_wf sl w L \<Longrightarrow> wheel_wf sl (clear_next w) L"
  using wheel_wf_next [of sl w L "cur_slot w" None] by (simp add: clear_next_def)

lemma cur_slot_less: "slots_ok w \<Longrightarrow> cur_slot w < length (w_slots w)"
  unfolding cur_slot_def by (rule slots_ok_index)

lemma cur_slot_idx: "slots_ok w \<Longrightarrow> ticks_to_wheel_idx w (w_cur_tick w) = cur_slot w"
  by (simp add: ticks_to_wheel_idx_mod cur_slot_def)

lemma clear_next_step:
  assumes "slots_ok w"
  shows "(if w_cur_idx w = sl_head (w_slots w ! cur_slot w)
      then put w (slot_update w (cur_slot w) (sl_next_update (\<lambda>_. None))) else (w, Ok ())) = (clear_next w, Ok ())"
  using cur_slot_less [OF assms] by (simp add: clear_next_def slot_update_in)

lemma poll_step_advance:
  assumes "slots_ok w" "w_cur_idx w = EMPTY"
  shows "poll_step sl at w =
    ((clear_next w)\<lparr>w_cur_tick := w_cur_tick w + 1,
       w_cur_idx := sl_head (w_slots (clear_next w) ! ((w_cur_tick w + 1) mod length (w_slots w)))\<rparr>, Ok Continue)"
proof -
  let ?w1 = "(clear_next w)\<lparr>w_cur_tick := w_cur_tick w + 1\<rparr>"
  have "slots_ok ?w1" using assms(1) by (simp add: slots_ok_def)
  from index_slot [OF this, of "w_cur_tick w + 1"] show ?thesis
    unfolding poll_step_def Let_def cur_slot_idx [OF assms(1)] index_in [OF cur_slot_less [OF assms(1)]]
      bindS_lift_Ok clear_next_step [OF assms(1)] bindS.simps(1)
    using assms(2) by simp
qed

text \<open>The cursor on a node that is not due: it goes on, and the slot's hint takes the node into account.\<close>

definition note_next :: "'s wheel \<Rightarrow> instant \<Rightarrow> 's wheel" where
  "note_next w wh =
     (let slot = w_slots w ! cur_slot w in
      if wh \<le> unwrap_or (sl_next slot) wh
      then w\<lparr>w_slots := (w_slots w)[cur_slot w := slot\<lparr>sl_next := Some wh\<rparr>]\<rparr> else w)"

lemma note_next_simps [simp]:
  "w_slab (note_next w h) = w_slab w" "w_cur_tick (note_next w h) = w_cur_tick w"
  "w_cur_idx (note_next w h) = w_cur_idx w" "w_start (note_next w h) = w_start w"
  "w_tick_ms (note_next w h) = w_tick_ms w" "w_max_capacity (note_next w h) = w_max_capacity w"
  "length (w_slots (note_next w h)) = length (w_slots w)"
  by (simp_all add: note_next_def Let_def)

lemma note_next_wf: "wheel_wf sl w L \<Longrightarrow> wheel_wf sl (note_next w wh) L"
  unfolding note_next_def Let_def by (simp only: wheel_wf_next split: if_split) simp

lemma poll_step_node:
  assumes ok: "slots_ok w" "clock_ok w" and x: "w_cur_idx w = x" "x \<noteq> EMPTY"
    and e: "slab_get sl (w_slab w) x = Some (Timeout e)" and h: "in_horizon w (to_when e)" "in_horizon w at"
  defines "w1 \<equiv> (clear_next w)\<lparr>w_cur_idx := to_next e\<rparr>"
  shows "poll_step sl at w =
    (if ticks_at w (to_when e) \<le> ticks_at w at
     then bindS (remove_slab sl w1 x) (\<lambda>w removed.
          (w, Ok (Return (case removed of Some (Timeout v) \<Rightarrow> Some (to_task v) | _ \<Rightarrow> None))))
     else (note_next w1 (to_when e), Ok Continue))"
proof -
  have w1: "slots_ok w1" "clock_ok w1" "cur_slot w1 = cur_slot w"
    using ok clock_cong(2) [of w1 w] by (simp_all add: w1_def slots_ok_def cur_slot_def)
  have t: "time_to_ticks w1 (to_when e) = Ok (ticks_at w (to_when e))" "time_to_ticks w1 at = Ok (ticks_at w at)"
    using time_to_ticks_in [OF w1(2)] h clock_cong(3,4) [of w1 w] by (simp_all add: w1_def)
  have i: "cur_slot w < length (w_slots w1)" using cur_slot_less [OF w1(1)] w1(3) by simp
  have tmo: "slab_timeout sl (clear_next w) x = Ok e" using e by (simp add: slab_timeout_def)
  have "poll_step sl at w = (if ticks_at w (to_when e) \<le> ticks_at w at
      then bindS (remove_slab sl w1 x) (\<lambda>w removed.
          (w, Ok (Return (case removed of Some (Timeout v) \<Rightarrow> Some (to_task v) | _ \<Rightarrow> None))))
      else bindS (lift w1 (index (w_slots w1) (cur_slot w))) (\<lambda>w slot.
          if to_when e \<le> unwrap_or (sl_next slot) (to_when e)
          then bindS (put w1 (slot_update w1 (cur_slot w1) (sl_next_update (\<lambda>_. Some (to_when e))))) (\<lambda>w _. (w, Ok Continue))
          else (w1, Ok Continue)))"
    using x(2) unfolding poll_step_def Let_def cur_slot_idx [OF ok(1)] x(1) index_in [OF cur_slot_less [OF ok(1)]] bindS_lift_Ok
      clear_next_step [OF ok(1), unfolded x(1)] bindS.simps(1) tmo w1_def [symmetric] t w1(3)
    using i by (simp add: index_in)
  also have "\<dots> = (if ticks_at w (to_when e) \<le> ticks_at w at
      then bindS (remove_slab sl w1 x) (\<lambda>w removed.
          (w, Ok (Return (case removed of Some (Timeout v) \<Rightarrow> Some (to_task v) | _ \<Rightarrow> None))))
      else (note_next w1 (to_when e), Ok Continue))"
    using i w1(3) by (simp add: index_in slot_update_in note_next_def Let_def)
  finally show ?thesis .
qed

section \<open>Hints\<close>

text \<open>
  A slot's \<open>next_timeout\<close> is a hint: it is no later than any timeout in the slot.  While \<^verbatim>\<open>poll\<close> is under
  way this holds of the nodes behind the cursor.
\<close>

definition hinted :: "'s wheel \<Rightarrow> nat \<Rightarrow> instant \<Rightarrow> bool" where
  "hinted w i wh \<longleftrightarrow> (\<exists>m. sl_next (w_slots w ! i) = Some m \<and> m \<le> wh)"

definition hints_ok :: "('s, entry) slab_ops \<Rightarrow> 's wheel \<Rightarrow> bool" where
  "hints_ok sl w \<longleftrightarrow> (\<forall>x t wh i. pend (slab_get sl (w_slab w)) x = Some (t, wh, i) \<longrightarrow> hinted w i wh)"

definition hints_behind :: "('s, entry) slab_ops \<Rightarrow> 's wheel \<Rightarrow> (nat \<Rightarrow> token list) \<Rightarrow> bool" where
  "hints_behind sl w L \<longleftrightarrow>
     (\<forall>x t wh i. pend (slab_get sl (w_slab w)) x = Some (t, wh, i) \<longrightarrow> x \<in> set (rest w L) \<or> hinted w i wh)"

lemma hints_ok_behind: "hints_ok sl w \<Longrightarrow> hints_behind sl w L"
  by (auto simp: hints_ok_def hints_behind_def)

lemma hinted_clear_other:
  "slots_ok w \<Longrightarrow> i \<noteq> cur_slot w \<or> w_cur_idx w \<noteq> sl_head (w_slots w ! cur_slot w) \<Longrightarrow>
   hinted (clear_next w) i wh = hinted w i wh"
  by (auto simp: hinted_def clear_next_def)

lemma hinted_cong: "map sl_next (w_slots w) = map sl_next (w_slots w') \<Longrightarrow> i < length (w_slots w) \<Longrightarrow>
    hinted w i wh = hinted w' i wh"
  by (metis hinted_def length_map nth_map)

lemma hinted_note:
  assumes "cur_slot w < length (w_slots w)" "wh \<le> v \<and> i = cur_slot w \<or> hinted w i v"
  shows "hinted (note_next w wh) i v"
proof (cases "i = cur_slot w")
  case True
  then show ?thesis using assms
    by (cases "sl_next (w_slots w ! cur_slot w)") (auto simp: hinted_def note_next_def Let_def)
next
  case False
  then show ?thesis using assms by (auto simp: hinted_def note_next_def Let_def)
qed

section \<open>The step keeps the invariant\<close>

lemma rest_EMPTY:
  assumes "wheel_wf sl w L" "w_cur_idx w = EMPTY"
  shows "rest w L = []"
proof -
  have "EMPTY \<notin> set (L (w_cur_tick w mod length (w_slots w)))"
    using links_ok_EMPTY [OF wheel_wfD(3) [OF assms(1)] slots_ok_index [OF wheel_wfD(2) [OF assms(1)]]] .
  then show ?thesis using assms(2) by (auto simp: rest_def dropWhile_eq_Nil_conv)
qed

lemma cursor_split:
  assumes wf: "wheel_wf sl w L" and x: "w_cur_idx w = x" "x \<noteq> EMPTY"
  obtains e ys zs k where "slab_get sl (w_slab w) x = Some (Timeout e)" "to_wheel_idx e = cur_slot w"
    "L (cur_slot w) = ys @ x # zs" "to_next e = hd_or zs EMPTY" "rest w L = x # zs"
    "distinct (ys @ x # zs)" "EMPTY \<notin> set (ys @ x # zs)" "to_when e = tick_instant w k" "k < 2 ^ 32"
    "sl_head (w_slots w ! cur_slot w) = x \<longleftrightarrow> ys = []"
proof -
  note D = wheel_wfD [OF wf] and c = cur_slot_less [OF wheel_wfD(2) [OF wf]]
  have "x \<in> set (L (cur_slot w))" using D(4) x by (simp add: cur_slot_def)
  then obtain t wh where p: "pend (slab_get sl (w_slab w)) x = Some (t, wh, cur_slot w)"
    using links_okD(5) [OF D(3) c] by blast
  then obtain e where e: "slab_get sl (w_slab w) x = Some (Timeout e)" "to_when e = wh" "to_wheel_idx e = cur_slot w"
    by (auto simp: pend_Some_iff)
  obtain ys zs where L: "L (cur_slot w) = ys @ x # zs" "to_next e = hd_or zs EMPTY"
    "x \<notin> set ys"
    using links_split [OF D(3) e(1)] e(3) by metis
  have dist: "distinct (ys @ x # zs)" "EMPTY \<notin> set (ys @ x # zs)"
    using links_okD(4) [OF D(3) c] links_ok_EMPTY [OF D(3) c] L(1) by simp_all
  have rest: "rest w L = x # zs"
    unfolding rest_def cur_slot_def [symmetric] x(1) L(1) by (rule dropWhile_neq_mid [OF L(3)])
  have head: "sl_head (w_slots w ! cur_slot w) = x \<longleftrightarrow> ys = []"
    using links_okD(2) [OF D(3) c] L(1,3) by (cases ys) auto
  obtain k where "k < 2 ^ 32" "wh = tick_instant w k" using ticks_ok_instant [OF D(5) p] by metis
  with e L dist rest head show ?thesis by (intro that) auto
qed

lemma step_advance_wf:
  assumes wf: "wheel_wf sl w L" and x: "w_cur_idx w = EMPTY"
  defines "w' \<equiv> (clear_next w)\<lparr>w_cur_tick := w_cur_tick w + 1,
       w_cur_idx := sl_head (w_slots (clear_next w) ! ((w_cur_tick w + 1) mod length (w_slots w)))\<rparr>"
  shows "wheel_wf sl w' L" "hints_behind sl w L \<Longrightarrow> hints_ok sl w'"
proof -
  note D = wheel_wfD [OF wf] and C = wheel_wfD [OF clear_next_wf [OF wf]]
  let ?n = "length (w_slots w)"
  let ?c = "(w_cur_tick w + 1) mod ?n"
  have F: "w_slab w' = w_slab w" "w_slots w' = w_slots (clear_next w)" "w_cur_tick w' = w_cur_tick w + 1"
    "length (w_slots w') = ?n" "w_cur_idx w' = hd_or (L ?c) EMPTY"
    using links_okD(2) [OF C(3), of ?c] slots_ok_index [OF D(2)] by (simp_all add: w'_def)
  have clk: "tick_instant w' = tick_instant w" "clock_ok w' = clock_ok w"
    by (rule clock_cong; simp add: w'_def)+
  have c: "?c < ?n" using slots_ok_index [OF D(2)] .
  have rest': "rest w' L = L ?c"
    using dropWhile_neq_hd [of "[]" "L ?c" EMPTY] links_okD(4) [OF D(3) c] links_ok_EMPTY [OF D(3) c]
    by (simp add: rest_def F)
  have "ticks_ok (slab_get sl (w_slab w)) w' L"
    unfolding ticks_ok_def
  proof (intro allI impI)
    fix y t wh i assume p: "pend (slab_get sl (w_slab w)) y = Some (t, wh, i)"
    obtain k where k: "k < 2 ^ 32" "wh = tick_instant w k" "i = k mod ?n" "w_cur_tick w \<le> k" "k \<noteq> w_cur_tick w"
      using ticks_ok_instant [OF D(5) p] rest_EMPTY [OF wf x] by (metis list.distinct(1) list.set_cases)
    moreover have "y \<in> set (L i)" using links_okD(5,6) [OF D(3)] p by blast
    ultimately show "\<exists>k < 2 ^ 32. wh = tick_instant w' k \<and> i = k mod length (w_slots w') \<and> w_cur_tick w' \<le> k \<and>
        (k = w_cur_tick w' \<longrightarrow> y \<in> set (rest w' L))"
      unfolding rest' F clk by (intro exI [of _ k]) auto
  qed
  moreover have "w_cur_idx w' = EMPTY \<or> w_cur_idx w' \<in> set (L ?c)" using F(5) by (cases "L ?c") auto
  ultimately show "wheel_wf sl w' L"
    using D(1,2) C(3) F clk by (simp add: wheel_wf_def slots_ok_def) (simp add: w'_def)
  show "hints_ok sl w'" if hb: "hints_behind sl w L"
    unfolding hints_ok_def F
  proof (intro allI impI)
    fix y t wh i assume p: "pend (slab_get sl (w_slab w)) y = Some (t, wh, i)"
    then have "hinted w i wh" using hb rest_EMPTY [OF wf x] by (auto simp: hints_behind_def)
    moreover have "y \<in> set (L i)" using links_okD(5,6) [OF D(3)] p by blast
    then have "i \<noteq> cur_slot w \<or> w_cur_idx w \<noteq> sl_head (w_slots w ! cur_slot w)"
      using links_okD(2) [OF D(3) cur_slot_less [OF D(2)]] links_ok_EMPTY [OF D(3) cur_slot_less [OF D(2)]] x
      by (cases "L i") auto
    ultimately have "hinted (clear_next w) i wh" using hinted_clear_other [OF D(2)] by simp
    then show "hinted w' i wh" by (simp add: hinted_def F(2))
  qed
qed

text \<open>The cursor moved past its node: only that node may have fallen behind it.\<close>

lemma step_past_node:
  assumes wf: "wheel_wf sl w L" and x: "w_cur_idx w = x" "x \<noteq> EMPTY"
    and e: "slab_get sl (w_slab w) x = Some (Timeout e)"
  defines "w1 \<equiv> (clear_next w)\<lparr>w_cur_idx := to_next e\<rparr>"
  shows "clock_ok w1" "slots_ok w1" "links_ok (slab_get sl (w_slab w1)) (w_slots w1) L"
    "w_cur_idx w1 = EMPTY \<or> w_cur_idx w1 \<in> set (L (w_cur_tick w1 mod length (w_slots w1)))"
    "ticks_ok ((slab_get sl (w_slab w1))(x := None)) w1 L" "rest w L = x # rest w1 L" "x \<notin> set (rest w1 L)"
    "hints_behind sl w L \<Longrightarrow> pend (slab_get sl (w_slab w)) y = Some (t, wh, i) \<Longrightarrow> y \<noteq> x \<Longrightarrow>
       y \<in> set (rest w1 L) \<or> hinted w1 i wh"
proof -
  note C = wheel_wfD [OF clear_next_wf [OF wf]]
  obtain e' ys zs where "slab_get sl (w_slab w) x = Some (Timeout e')"
    and L: "L (cur_slot w) = ys @ x # zs" and nxt: "to_next e' = hd_or zs EMPTY" and rest: "rest w L = x # zs"
    and dist: "distinct (ys @ x # zs)" "EMPTY \<notin> set (ys @ x # zs)"
    and hd: "sl_head (w_slots w ! cur_slot w) = x \<longleftrightarrow> ys = []"
    using cursor_split [OF wf x] by metis
  then have nx: "to_next e = hd_or zs EMPTY" using e by simp
  have Lc: "L (w_cur_tick w mod length (w_slots w)) = ys @ x # zs" using L by (simp add: cur_slot_def)
  have dw: "dropWhile (\<lambda>y. y \<noteq> hd_or zs EMPTY) ((ys @ [x]) @ zs) = zs"
    using dist by (intro dropWhile_neq_hd) auto
  have rest1: "rest w1 L = zs" unfolding rest_def using dw by (simp add: w1_def Lc nx)
  show "clock_ok w1" "slots_ok w1" "links_ok (slab_get sl (w_slab w1)) (w_slots w1) L"
    using C(1-3) by (simp_all add: w1_def)
  show "w_cur_idx w1 = EMPTY \<or> w_cur_idx w1 \<in> set (L (w_cur_tick w1 mod length (w_slots w1)))"
    by (cases zs) (simp_all add: w1_def nx Lc)
  show "ticks_ok ((slab_get sl (w_slab w1))(x := None)) w1 L"
    by (rule ticks_ok_shrink [OF C(5)])
      (use rest1 rest in \<open>auto simp: w1_def pend_upd rest_wheel_cong [of "clear_next w" w] split: if_splits\<close>)
  show "rest w L = x # rest w1 L" "x \<notin> set (rest w1 L)" using rest rest1 dist by simp_all
  show "y \<in> set (rest w1 L) \<or> hinted w1 i wh"
    if hb: "hints_behind sl w L" and p: "pend (slab_get sl (w_slab w)) y = Some (t, wh, i)" and ne: "y \<noteq> x"
  proof (cases "y \<in> set zs")
    case False
    then have h: "hinted w i wh" using hb p ne rest by (auto simp: hints_behind_def)
    have "y \<in> set (L i)" using links_okD(5,6) [OF wheel_wfD(3) [OF wf]] p by blast
    then have "i \<noteq> cur_slot w \<or> w_cur_idx w \<noteq> sl_head (w_slots w ! cur_slot w)"
      using False ne L hd x by (cases ys) auto
    then have "hinted (clear_next w) i wh" using h hinted_clear_other [OF wheel_wfD(2) [OF wf]] by simp
    then show ?thesis by (simp add: hinted_def w1_def)
  qed (simp add: rest1)
qed

lemma step_skip_wf:
  assumes wf: "wheel_wf sl w L" and x: "w_cur_idx w = x" "x \<noteq> EMPTY"
    and e: "slab_get sl (w_slab w) x = Some (Timeout e)" and later: "w_cur_tick w < ticks_at w (to_when e)"
  defines "w' \<equiv> note_next ((clear_next w)\<lparr>w_cur_idx := to_next e\<rparr>) (to_when e)"
  shows "wheel_wf sl w' L" "length (rest w' L) < length (rest w L)"
    "hints_behind sl w L \<Longrightarrow> hints_behind sl w' L"
proof -
  let ?w1 = "(clear_next w)\<lparr>w_cur_idx := to_next e\<rparr>" and ?G = "slab_get sl (w_slab w)"
  note S = step_past_node [OF wf x e]
  have "ticks_ok ?G ?w1 L"
    unfolding ticks_ok_def
  proof (intro allI impI)
    fix y t wh i assume p: "pend ?G y = Some (t, wh, i)"
    show "\<exists>k < 2 ^ 32. wh = tick_instant ?w1 k \<and> i = k mod length (w_slots ?w1) \<and> w_cur_tick ?w1 \<le> k \<and>
        (k = w_cur_tick ?w1 \<longrightarrow> y \<in> set (rest ?w1 L))"
    proof (cases "y = x")
      case True
      then have "wh = to_when e" using p e by (simp add: pend_def)
      obtain k where k: "k < 2 ^ 32" "wh = tick_instant w k" "i = k mod length (w_slots w)" "w_cur_tick w \<le> k"
        using ticks_ok_instant [OF wheel_wfD(5) [OF wf] p] by metis
      then have "k \<noteq> w_cur_tick w"
        using later \<open>wh = to_when e\<close> ticks_at_instant [OF wheel_wfD(1) [OF wf], of k] by auto
      then show ?thesis using k clock_cong(1) [of ?w1 w] by (intro exI [of _ k]) simp
    next
      case False
      then show ?thesis using S(5) p by (simp add: ticks_ok_def pend_upd)
    qed
  qed
  then have wf1: "wheel_wf sl ?w1 L" using S(1-4) by (simp add: wheel_wf_def)
  then show "wheel_wf sl w' L" unfolding w'_def by (rule note_next_wf)
  have rest': "rest w' L = rest ?w1 L" unfolding w'_def by (rule rest_wheel_cong) simp_all
  then show "length (rest w' L) < length (rest w L)" using S(6) by simp
  show "hints_behind sl w' L" if hb: "hints_behind sl w L"
    unfolding hints_behind_def rest'
  proof (intro allI impI)
    fix y t wh i assume "pend (slab_get sl (w_slab w')) y = Some (t, wh, i)"
    then have p: "pend ?G y = Some (t, wh, i)" by (simp add: w'_def)
    have c: "cur_slot ?w1 < length (w_slots ?w1)" by (rule cur_slot_less [OF S(2)])
    show "y \<in> set (rest ?w1 L) \<or> hinted w' i wh"
    proof (cases "y = x")
      case True
      then have "wh = to_when e" "i = to_wheel_idx e" using p e by (simp_all add: pend_def)
      moreover obtain e' where "?G x = Some (Timeout e')" "to_wheel_idx e' = cur_slot w"
        using cursor_split [OF wf x] by metis
      then have "to_wheel_idx e = cur_slot ?w1" using e by (simp add: cur_slot_def)
      ultimately show ?thesis unfolding w'_def using hinted_note [OF c, of "to_when e" wh i] by simp
    next
      case False
      then show ?thesis unfolding w'_def using S(8) [OF hb p False] hinted_note [OF c, of "to_when e" wh i] by auto
    qed
  qed
qed

context wheel_slab
begin

lemma step_fire_wf:
  assumes wf: "wheel_wf sl w L" and x: "w_cur_idx w = x" "x \<noteq> EMPTY"
    and e: "slab_get sl (w_slab w) x = Some (Timeout e)"
  shows "\<exists>w' L'. remove_slab sl ((clear_next w)\<lparr>w_cur_idx := to_next e\<rparr>) x = (w', Ok (Some (Timeout e))) \<and>
    wheel_wf sl w' L' \<and> pend (slab_get sl (w_slab w')) = (pend (slab_get sl (w_slab w)))(x := None) \<and>
    (\<forall>y. slab_get sl (w_slab w') y = None \<longleftrightarrow> y = x \<or> slab_get sl (w_slab w) y = None) \<and>
    w_cur_tick w' = w_cur_tick w \<and> w_start w' = w_start w \<and> w_tick_ms w' = w_tick_ms w \<and>
    w_max_capacity w' = w_max_capacity w \<and> (hints_behind sl w L \<longrightarrow> hints_behind sl w' L')"
proof -
  let ?w1 = "(clear_next w)\<lparr>w_cur_idx := to_next e\<rparr>" and ?i = "to_wheel_idx e"
  let ?L = "L(?i := remove1 x (L ?i))"
  note S = step_past_node [OF wf x e]
  from remove_slab_links [OF S(1-5)] e obtain w' where
    w': "remove_slab sl ?w1 x = (w', Ok (Some (Timeout e)))" "wheel_wf sl w' ?L"
      "pend (slab_get sl (w_slab w')) = (pend (slab_get sl (w_slab w)))(x := None)"
      "\<forall>y. slab_get sl (w_slab w') y = None \<longleftrightarrow> y = x \<or> slab_get sl (w_slab w) y = None"
      "w_cur_tick w' = w_cur_tick w" "w_start w' = w_start w" "w_tick_ms w' = w_tick_ms w"
      "map sl_next (w_slots w') = map sl_next (w_slots (clear_next w))" "w_max_capacity w' = w_max_capacity w"
      "w_cur_idx w' = (if to_next e = x then to_next e else to_next e)"
    by auto
  obtain e' ys zs where "slab_get sl (w_slab w) x = Some (Timeout e')" "to_wheel_idx e' = cur_slot w"
      "L (cur_slot w) = ys @ x # zs" "to_next e' = hd_or zs EMPTY" "rest w L = x # zs"
      "distinct (ys @ x # zs)" "EMPTY \<notin> set (ys @ x # zs)"
    using cursor_split [OF wf x] by metis
  then have i: "?i = cur_slot w" and L: "L ?i = ys @ x # zs" and nx: "to_next e = hd_or zs EMPTY"
    and rest: "rest w L = x # zs" and dist: "distinct (ys @ x # zs)" "EMPTY \<notin> set (ys @ x # zs)"
    using e by auto
  have len: "length (w_slots w') = length (w_slots w)"
    using arg_cong [OF w'(8), of length] by simp
  have c: "w_cur_tick w' mod length (w_slots w') = ?i" using i w'(5) len by (simp add: cur_slot_def)
  have "?L ?i = ys @ zs" using L dist by (simp add: remove1_append)
  then have rest': "rest w' ?L = zs"
    unfolding rest_def c using dropWhile_neq_hd [of ys zs EMPTY] dist w'(10) nx by simp
  have "hints_behind sl w' ?L" if hb: "hints_behind sl w L"
    unfolding hints_behind_def
  proof (intro allI impI)
    fix y t wh j assume "pend (slab_get sl (w_slab w')) y = Some (t, wh, j)"
    then have p: "pend (slab_get sl (w_slab w)) y = Some (t, wh, j)" and ne: "y \<noteq> x"
      by (auto simp: w'(3) split: if_splits)
    have j: "j < length (w_slots w)" using links_okD(6) [OF wheel_wfD(3) [OF wf] p] .
    have "hinted ?w1 j wh = hinted w' j wh"
      using w'(8) j by (intro hinted_cong) simp_all
    then show "y \<in> set (rest w' ?L) \<or> hinted w' j wh"
      using S(8) [OF hb p ne] S(6) rest rest' by simp
  qed
  with w' show ?thesis by (intro exI [of _ w'] exI [of _ ?L]) simp
qed

lemma poll_step_wf:
  assumes wf: "wheel_wf sl w L" and at: "in_horizon w at" and cur: "w_cur_tick w \<le> ticks_at w at"
  shows "\<exists>w' L'. wheel_wf sl w' L' \<and> w_start w' = w_start w \<and> w_tick_ms w' = w_tick_ms w \<and>
    w_max_capacity w' = w_max_capacity w \<and> (hints_behind sl w L \<longrightarrow> hints_behind sl w' L') \<and>
    (poll_step sl at w = (w', Ok Continue) \<and> slab_get sl (w_slab w') = slab_get sl (w_slab w) \<and>
       (w_cur_tick w' = w_cur_tick w + 1 \<and> (hints_behind sl w L \<longrightarrow> hints_ok sl w') \<or>
        w_cur_tick w' = w_cur_tick w \<and> length (rest w' L') < length (rest w L)) \<or>
     (\<exists>x t wh i. poll_step sl at w = (w', Ok (Return (Some t))) \<and>
        pend (slab_get sl (w_slab w)) x = Some (t, wh, i) \<and> ticks_at w wh \<le> ticks_at w at \<and>
        pend (slab_get sl (w_slab w')) = (pend (slab_get sl (w_slab w)))(x := None) \<and>
        (\<forall>y. slab_get sl (w_slab w') y = None \<longleftrightarrow> y = x \<or> slab_get sl (w_slab w) y = None) \<and>
        w_cur_tick w' = w_cur_tick w))"
proof (cases "w_cur_idx w = EMPTY")
  case True
  note A = step_advance_wf [OF wf True]
  show ?thesis
    using A hints_ok_behind poll_step_advance [OF wheel_wfD(2) [OF wf] True, of sl at]
    by (intro exI conjI disjI1) (rule A(1), auto)
next
  case False
  obtain e k where e: "slab_get sl (w_slab w) (w_cur_idx w) = Some (Timeout e)"
      and k: "to_when e = tick_instant w k" "k < 2 ^ 32"
    using cursor_split [OF wf refl False] by metis
  have h: "in_horizon w (to_when e)" using tick_instant_horizon [OF wheel_wfD(1) [OF wf] k(2)] k(1) by simp
  note step = poll_step_node [OF wheel_wfD(2,1) [OF wf] refl False e h at]
  show ?thesis
  proof (cases "ticks_at w (to_when e) \<le> ticks_at w at")
    case True
    obtain w' L' where w': "remove_slab sl ((clear_next w)\<lparr>w_cur_idx := to_next e\<rparr>) (w_cur_idx w) = (w', Ok (Some (Timeout e)))"
      "wheel_wf sl w' L'" "pend (slab_get sl (w_slab w')) = (pend (slab_get sl (w_slab w)))(w_cur_idx w := None)"
      "\<forall>y. slab_get sl (w_slab w') y = None \<longleftrightarrow> y = w_cur_idx w \<or> slab_get sl (w_slab w) y = None"
      "w_cur_tick w' = w_cur_tick w" "w_start w' = w_start w" "w_tick_ms w' = w_tick_ms w"
      "w_max_capacity w' = w_max_capacity w" "hints_behind sl w L \<longrightarrow> hints_behind sl w' L'"
      using step_fire_wf [OF wf refl False e] by metis
    have "poll_step sl at w = (w', Ok (Return (Some (to_task e))))" using step True w'(1) by simp
    moreover have "pend (slab_get sl (w_slab w)) (w_cur_idx w) = Some (to_task e, to_when e, to_wheel_idx e)"
      using e by (simp add: pend_def)
    ultimately show ?thesis using True w'(2-9) by blast
  next
    case late: False
    then have later: "w_cur_tick w < ticks_at w (to_when e)" using cur by simp
    let ?w' = "note_next ((clear_next w)\<lparr>w_cur_idx := to_next e\<rparr>) (to_when e)"
    note K = step_skip_wf [OF wf refl False e later]
    show ?thesis using K step late by (intro exI [of _ ?w'] exI [of _ L]) simp
  qed
qed

text \<open>
  What \<open>poll\<close> for tick \<open>T\<close> does to the slab, the cursor and the hints: it returns no task and passes tick
  \<open>T\<close>, or it takes out one due timeout and returns its task.
\<close>

definition poll_result :: "nat \<Rightarrow> 's wheel \<Rightarrow> (nat \<Rightarrow> token list) \<Rightarrow> 's wheel \<Rightarrow> (nat \<Rightarrow> token list) \<Rightarrow> task option \<Rightarrow> bool" where
  "poll_result T w L w' L' r \<longleftrightarrow>
     w_start w' = w_start w \<and> w_tick_ms w' = w_tick_ms w \<and> w_max_capacity w' = w_max_capacity w \<and>
     (hints_behind sl w L \<longrightarrow> hints_behind sl w' L') \<and>
     (case r of
       None \<Rightarrow> slab_get sl (w_slab w') = slab_get sl (w_slab w) \<and> w_cur_tick w' = max (w_cur_tick w) (T + 1) \<and>
         (hints_behind sl w L \<and> w_cur_tick w \<le> T \<or> hints_ok sl w \<longrightarrow> hints_ok sl w')
     | Some t \<Rightarrow> w_cur_tick w' \<le> T \<and> w_cur_tick w \<le> w_cur_tick w' \<and>
         (\<exists>x wh i. pend (slab_get sl (w_slab w)) x = Some (t, wh, i) \<and> ticks_at w wh \<le> T \<and>
         pend (slab_get sl (w_slab w')) = (pend (slab_get sl (w_slab w)))(x := None) \<and>
         (\<forall>y. slab_get sl (w_slab w') y = None \<longleftrightarrow> y = x \<or> slab_get sl (w_slab w) y = None)))"

lemma poll_result_step:
  assumes "w_start w1 = w_start w" "w_tick_ms w1 = w_tick_ms w" "w_max_capacity w1 = w_max_capacity w"
    and "slab_get sl (w_slab w1) = slab_get sl (w_slab w)" "hints_behind sl w L \<longrightarrow> hints_behind sl w1 L1"
    and "w_cur_tick w \<le> T"
    and "w_cur_tick w1 = w_cur_tick w + 1 \<and> (hints_behind sl w L \<longrightarrow> hints_ok sl w1) \<or> w_cur_tick w1 = w_cur_tick w"
    and "poll_result T w1 L1 w' L' r"
  shows "poll_result T w L w' L' r"
  using assms hints_ok_behind [of sl w L] clock_cong(3) [OF assms(1,2)]
  by (cases r) (auto simp: poll_result_def)

text \<open>
  The loop ends: every step either moves the cursor to the next tick, of which there are finitely many
  up to the one polled for, or shortens what is left of the slot.
\<close>

lemma poll_loop_spec:
  assumes "wheel_wf sl w L" "in_horizon w at" "ticks_at w at = T"
  shows "\<exists>w' L' r. poll_loop sl at T w = Some (w', Ok r) \<and> wheel_wf sl w' L' \<and> poll_result T w L w' L' r"
  using assms
proof (induction "(w, L)" arbitrary: w L rule: lex_measure_induct
    [where f = "\<lambda>(w, L). Suc T - w_cur_tick w" and g = "\<lambda>(w, L). length (rest w L)"])
  case 1
  note wf = "1.prems"(1)
  show ?case
  proof (cases "w_cur_tick w \<le> T")
    case False
    then have "poll_loop sl at T w = Some (w, Ok None)" by (subst poll_loop.simps) simp
    moreover have "poll_result T w L w L None" using False by (simp add: poll_result_def)
    ultimately show ?thesis using wf by blast
  next
    case True
    have "w_cur_tick w \<le> ticks_at w at" using True "1.prems"(3) by simp
    from poll_step_wf [OF wf "1.prems"(2) this] obtain w' L' where
      w': "wheel_wf sl w' L'" "w_start w' = w_start w" "w_tick_ms w' = w_tick_ms w"
        "w_max_capacity w' = w_max_capacity w" "hints_behind sl w L \<longrightarrow> hints_behind sl w' L'" and
      disj: "poll_step sl at w = (w', Ok Continue) \<and> slab_get sl (w_slab w') = slab_get sl (w_slab w) \<and>
         (w_cur_tick w' = w_cur_tick w + 1 \<and> (hints_behind sl w L \<longrightarrow> hints_ok sl w') \<or>
          w_cur_tick w' = w_cur_tick w \<and> length (rest w' L') < length (rest w L)) \<or>
       (\<exists>x t wh i. poll_step sl at w = (w', Ok (Return (Some t))) \<and>
          pend (slab_get sl (w_slab w)) x = Some (t, wh, i) \<and> ticks_at w wh \<le> ticks_at w at \<and>
          pend (slab_get sl (w_slab w')) = (pend (slab_get sl (w_slab w)))(x := None) \<and>
          (\<forall>y. slab_get sl (w_slab w') y = None \<longleftrightarrow> y = x \<or> slab_get sl (w_slab w) y = None) \<and>
          w_cur_tick w' = w_cur_tick w)"
      by blast
    note clk = clock_cong [OF w'(2,3)]
    from disj show ?thesis
    proof (elim disjE exE conjE)
      fix x t wh i
      assume "poll_step sl at w = (w', Ok (Return (Some t)))"
        "pend (slab_get sl (w_slab w)) x = Some (t, wh, i)" "ticks_at w wh \<le> ticks_at w at"
        "pend (slab_get sl (w_slab w')) = (pend (slab_get sl (w_slab w)))(x := None)"
        "\<forall>y. slab_get sl (w_slab w') y = None \<longleftrightarrow> y = x \<or> slab_get sl (w_slab w) y = None"
        "w_cur_tick w' = w_cur_tick w"
      note fired = this
      have "poll_loop sl at T w = Some (w', Ok (Some t))"
        using True fired(1) by (subst poll_loop.simps) simp
      moreover have "poll_result T w L w' L' (Some t)"
        using fired(2-6) True w'(2-5) "1.prems"(3) by (auto simp: poll_result_def)
      ultimately show ?thesis using w'(1) by blast
    next
      assume st: "poll_step sl at w = (w', Ok Continue)" "slab_get sl (w_slab w') = slab_get sl (w_slab w)"
        and t: "w_cur_tick w' = w_cur_tick w + 1" "hints_behind sl w L \<longrightarrow> hints_ok sl w'"
      have "poll_loop sl at T w = poll_loop sl at T w'" using True st by (subst poll_loop.simps) simp
      moreover have "Suc T - w_cur_tick w' < Suc T - w_cur_tick w" using t True by simp
      ultimately show ?thesis
        using "1.hyps" [of w' L'] w'(1) clk "1.prems"(2,3) poll_result_step [OF w'(2-4) st(2) w'(5) True] t
        by fastforce
    next
      assume st: "poll_step sl at w = (w', Ok Continue)" "slab_get sl (w_slab w') = slab_get sl (w_slab w)"
        and t: "w_cur_tick w' = w_cur_tick w" and lt: "length (rest w' L') < length (rest w L)"
      have "poll_loop sl at T w = poll_loop sl at T w'" using True st by (subst poll_loop.simps) simp
      then show ?thesis
        using "1.hyps" [of w' L'] w'(1) clk "1.prems"(2,3) poll_result_step [OF w'(2-4) st(2) w'(5) True] t lt
        by fastforce
    qed
  qed
qed

end

end
