(* ===== verification/Timer_Service.thy ===== *)
theory Timer_Service
  imports Clock "HOL-Library.Multiset"
begin

text \<open>
  The contract between the timer wheel and the poller, as a locale: timers are a finite map from tokens
  to a task and an instant; polling either takes out one due timer and returns its task, or returns
  nothing when no timer is due.  Polling until nothing is returned, the way the poller does it, then
  terminates and yields the tasks of exactly the due timers, each once.
\<close>

locale timer_service =
  fixes inv :: "'w \<Rightarrow> bool"
    and timers :: "'w \<Rightarrow> 'k \<Rightarrow> ('t \<times> instant) option"
    and ready :: "'w \<Rightarrow> instant \<Rightarrow> bool"
    and due :: "'w \<Rightarrow> instant \<Rightarrow> instant \<Rightarrow> bool"
    and poll :: "'w \<Rightarrow> instant \<Rightarrow> ('w \<times> (unit, 't option) res) option"
  assumes finite_timers: "inv w \<Longrightarrow> finite (dom (timers w))"
    and poll_returns: "inv w \<Longrightarrow> ready w at \<Longrightarrow>
      \<exists>w' r. poll w at = Some (w', Ok r) \<and> inv w' \<and> ready w' at \<and> due w' = due w"
    and poll_None: "inv w \<Longrightarrow> ready w at \<Longrightarrow> poll w at = Some (w', Ok None) \<Longrightarrow>
      timers w' = timers w \<and> (\<forall>x t wh. timers w x = Some (t, wh) \<longrightarrow> \<not> due w at wh)"
    and poll_Some: "inv w \<Longrightarrow> ready w at \<Longrightarrow> poll w at = Some (w', Ok (Some t)) \<Longrightarrow>
      \<exists>x wh. timers w x = Some (t, wh) \<and> due w at wh \<and> timers w' = (timers w)(x := None)"
begin

inductive polls :: "'w \<Rightarrow> instant \<Rightarrow> 't list \<Rightarrow> 'w \<Rightarrow> bool" where
  polls_done: "poll w at = Some (w', Ok None) \<Longrightarrow> polls w at [] w'"
| polls_task: "poll w at = Some (w', Ok (Some t)) \<Longrightarrow> polls w' at ts w'' \<Longrightarrow> polls w at (t # ts) w''"

definition due_tokens :: "'w \<Rightarrow> instant \<Rightarrow> 'k set" where
  "due_tokens w at = {x. \<exists>t wh. timers w x = Some (t, wh) \<and> due w at wh}"

definition task_of :: "'w \<Rightarrow> 'k \<Rightarrow> 't" where
  "task_of w x = fst (the (timers w x))"

lemma finite_due: "inv w \<Longrightarrow> finite (due_tokens w at)"
  by (rule finite_subset [OF _ finite_timers]) (auto simp: due_tokens_def)

lemma polls_all:
  assumes "inv w" "ready w at"
  shows "\<exists>ts w'. polls w at ts w' \<and> inv w' \<and> due w' = due w \<and>
    mset ts = image_mset (task_of w) (mset_set (due_tokens w at)) \<and> timers w' = (timers w) |` (- due_tokens w at)"
  using assms
proof (induction "card (dom (timers w))" arbitrary: w rule: less_induct)
  case less
  obtain w' r where p: "poll w at = Some (w', Ok r)" and w': "inv w'" "ready w' at" "due w' = due w"
    using poll_returns [OF less.prems] by blast
  show ?case
  proof (cases r)
    case None
    with p have "timers w' = timers w" "due_tokens w at = {}"
      using poll_None [OF less.prems] by (auto simp: due_tokens_def)
    then show ?thesis using p None w' by (intro exI [of _ "[]"] exI [of _ w']) (auto intro: polls_done)
  next
    case (Some t)
    with p poll_Some [OF less.prems] obtain x wh where
      x: "timers w x = Some (t, wh)" "due w at wh" "timers w' = (timers w)(x := None)" by blast
    have "dom (timers w') = dom (timers w) - {x}" using x by auto
    then have "card (dom (timers w')) < card (dom (timers w))"
      using finite_timers [OF less.prems(1)] x(1) by (auto intro: psubset_card_mono)
    from less.hyps [OF this w'(1,2)] obtain ts w'' where ts: "polls w' at ts w''" "inv w''" "due w'' = due w'"
      "mset ts = image_mset (task_of w') (mset_set (due_tokens w' at))"
      "timers w'' = (timers w') |` (- due_tokens w' at)" by blast
    have D: "due_tokens w at = insert x (due_tokens w' at)" "x \<notin> due_tokens w' at"
      using x w'(3) by (auto simp: due_tokens_def split: if_splits)
    have "image_mset (task_of w') (mset_set (due_tokens w' at)) = image_mset (task_of w) (mset_set (due_tokens w' at))"
      using D(2) finite_due [OF w'(1)] x(3) by (intro image_mset_cong) (auto simp: task_of_def)
    then have "mset (t # ts) = image_mset (task_of w) (mset_set (due_tokens w at))"
      using ts(4) D x(1) finite_due [OF w'(1)] by (simp add: task_of_def)
    moreover have "timers w'' = (timers w) |` (- due_tokens w at)"
      using ts(5) x(3) D by (auto simp: restrict_map_def fun_eq_iff)
    ultimately show ?thesis
      using ts(1-3) w'(3) p Some by (intro exI [of _ "t # ts"] exI [of _ w'']) (auto intro: polls_task)
  qed
qed

lemma polls_unique: "polls w at ts w' \<Longrightarrow> polls w at us w'' \<Longrightarrow> ts = us \<and> w' = w''"
proof (induction arbitrary: us w'' rule: polls.induct)
  case (polls_done w at w')
  then show ?case by (auto elim: polls.cases)
next
  case (polls_task w at w' t ts w1)
  from polls_task.prems polls_task.hyps(1) obtain us' where "us = t # us'" "polls w' at us' w''"
    by (cases rule: polls.cases) auto
  with polls_task.IH show ?case by auto
qed

end

end
