(* ===== verification/Wheel_Spec.thy ===== *)
theory Wheel_Spec
  imports Wheel_Poll Timer_Service
begin

text \<open>
  What the timer wheel promises: its invariant holds in every reachable state, each operation has its
  effect on the map of pending timers, and the wheel is a \<open>timer_service\<close>.
\<close>

section \<open>The invariant with its hints\<close>

definition wheel_inv :: "('s, entry) slab_ops \<Rightarrow> 's wheel \<Rightarrow> bool" where
  "wheel_inv sl w \<longleftrightarrow> (\<exists>L. wheel_wf sl w L \<and> hints_behind sl w L)"

definition wheel_ready :: "'s wheel \<Rightarrow> instant \<Rightarrow> bool" where
  "wheel_ready w at \<longleftrightarrow> in_horizon w at"

definition wheel_due :: "'s wheel \<Rightarrow> instant \<Rightarrow> instant \<Rightarrow> bool" where
  "wheel_due w at wh \<longleftrightarrow> ticks_at w wh \<le> ticks_at w at"

lemma timers_Some: "timers sl w x = Some (t, wh) \<longleftrightarrow> (\<exists>i. pend (slab_get sl (w_slab w)) x = Some (t, wh, i))"
  by (auto simp: timers_pend)

lemma timers_drop: "pend (slab_get sl (w_slab w')) = (pend (slab_get sl (w_slab w)))(x := None) \<Longrightarrow>
    timers sl w' = (timers sl w)(x := None)"
  by (auto simp: timers_pend)

lemma wheel_inv_ticks:
  assumes "wheel_inv sl w" "timers sl w x = Some (t, wh)"
  obtains k where "k < 2 ^ 32" "wh = tick_instant w k" "ticks_at w wh = k" "w_cur_tick w \<le> k"
proof -
  obtain L i where wf: "wheel_wf sl w L" and p: "pend (slab_get sl (w_slab w)) x = Some (t, wh, i)"
    using assms by (auto simp: wheel_inv_def timers_Some)
  from ticks_ok_instant [OF wheel_wfD(5) [OF wf] p] ticks_at_instant [OF wheel_wfD(1) [OF wf]] that
  show ?thesis by metis
qed

text \<open>
  When a timer asked for at an instant fires: at the tick of that instant, or at the next tick of the wheel if that is later.
\<close>

definition fires_at :: "'s wheel \<Rightarrow> instant \<Rightarrow> instant" where
  "fires_at w at = tick_instant w (max (ticks_at w at) (w_cur_tick w + 1))"

lemma less_tick_instant:
  assumes "clock_ok w" "in_horizon w now"
  shows "tick_instant w k \<le> now \<longleftrightarrow> k \<le> ticks_at w now"
proof -
  have "tick_instant w k \<le> now \<longleftrightarrow> k * tick_nanos w \<le> nanos now - nanos (w_start w)"
    using assms(2) by (auto simp: less_eq_instant_def tick_instant_def in_horizon_def)
  also have "\<dots> \<longleftrightarrow> k \<le> ticks_at w now"
    using tick_nanos_pos [OF assms(1)] by (simp add: ticks_at_def less_eq_div_iff_mult_less_eq)
  finally show ?thesis .
qed

lemma fires_at_bounds:
  assumes "clock_ok w" "in_horizon w at"
  shows "nanos at < nanos (fires_at w at) + tick_nanos w"
    "fires_at w at \<le> at \<or> fires_at w at = tick_instant w (w_cur_tick w + 1)"
proof -
  have "0 < tick_nanos w" using tick_nanos_pos assms(1) .
  note bounds = dividend_less_div_times [OF this, of "nanos at - nanos (w_start w)"]
  have "nanos at < nanos (tick_instant w (ticks_at w at)) + tick_nanos w"
    using assms(2) bounds unfolding tick_instant_def ticks_at_def in_horizon_def instant.sel by linarith
  moreover have "nanos (tick_instant w (ticks_at w at)) \<le> nanos (fires_at w at)" by (simp add: fires_at_def tick_instant_def)
  ultimately show "nanos at < nanos (fires_at w at) + tick_nanos w" by linarith
  show "fires_at w at \<le> at \<or> fires_at w at = tick_instant w (w_cur_tick w + 1)"
    using less_tick_instant [OF assms, of "ticks_at w at"] by (auto simp: fires_at_def max_def)
qed

context wheel_slab
begin

lemma wheel_new_inv:
  assumes "wheel_new sl b now = Ok w" "clock_ok w"
  shows "wheel_inv sl w" "timers sl w = Map.empty"
proof -
  note new = wheel_new_wf [OF assms]
  have "pend (slab_get sl (w_slab w)) x = None" for x
    using fun_cong [OF new(2), of x] by (simp add: timers_pend)
  then have "hints_behind sl w (\<lambda>_. [])" by (simp add: hints_behind_def)
  with new show "wheel_inv sl w" "timers sl w = Map.empty" by (auto simp: wheel_inv_def)
qed

lemma hints_frame:
  assumes "hints_behind sl w L" "map sl_next (w_slots w') = map sl_next (w_slots w)" "wheel_wf sl w L"
    and "\<And>x v. pend (slab_get sl (w_slab w')) x = Some v \<Longrightarrow> pend (slab_get sl (w_slab w)) x = Some v"
    and "\<And>x. pend (slab_get sl (w_slab w')) x \<noteq> None \<Longrightarrow> x \<in> set (rest w L) \<Longrightarrow> x \<in> set (rest w' L')"
  shows "hints_behind sl w' L'"
  unfolding hints_behind_def
proof (intro allI impI)
  fix x t wh i assume p: "pend (slab_get sl (w_slab w')) x = Some (t, wh, i)"
  have "i < length (w_slots w)" using links_okD(6) [OF wheel_wfD(3) [OF assms(3)] assms(4) [OF p]] .
  then have "hinted w' i wh = hinted w i wh" using assms(2) hinted_cong by metis
  then show "x \<in> set (rest w' L') \<or> hinted w' i wh"
    using assms(1) assms(4) [OF p] assms(5) [of x] p by (auto simp: hints_behind_def)
qed

lemma wheel_cancel_inv:
  assumes "wheel_inv sl w"
  shows "\<exists>w'. wheel_cancel sl w x = (w', Ok ()) \<and> wheel_inv sl w' \<and> timers sl w' = (timers sl w)(x := None) \<and>
    (\<forall>y. slab_get sl (w_slab w') y = None \<longleftrightarrow> y = x \<or> slab_get sl (w_slab w) y = None) \<and>
    w_cur_tick w' = w_cur_tick w \<and> w_start w' = w_start w \<and> w_tick_ms w' = w_tick_ms w \<and>
    w_max_capacity w' = w_max_capacity w"
proof -
  obtain L where wf: "wheel_wf sl w L" and hb: "hints_behind sl w L" using assms by (auto simp: wheel_inv_def)
  from wheel_cancel_wf [OF wf] obtain w' L' where w': "wheel_cancel sl w x = (w', Ok ())" "wheel_wf sl w' L'"
    "timers sl w' = (timers sl w)(x := None)"
    "\<forall>y. slab_get sl (w_slab w') y = None \<longleftrightarrow> y = x \<or> slab_get sl (w_slab w) y = None"
    "w_cur_tick w' = w_cur_tick w" "w_start w' = w_start w" "w_tick_ms w' = w_tick_ms w"
    "w_max_capacity w' = w_max_capacity w" "map sl_next (w_slots w') = map sl_next (w_slots w)"
    "pend (slab_get sl (w_slab w')) = (pend (slab_get sl (w_slab w)))(x := None)"
    "\<forall>y. y \<in> set (rest w L) \<and> y \<noteq> x \<longrightarrow> y \<in> set (rest w' L')"
    by blast
  have "hints_behind sl w' L'"
    by (rule hints_frame [OF hb w'(9) wf]) (use w'(10,11) in \<open>auto split: if_splits\<close>)
  with w' show ?thesis by (auto simp: wheel_inv_def)
qed

lemma wheel_reserve_inv:
  assumes "wheel_inv sl w" "slab_len sl (w_slab w) \<le> w_max_capacity w" "w_max_capacity w \<le> isize_max"
  shows "\<exists>w' r. wheel_reserve sl w = (w', Ok r) \<and> wheel_inv sl w' \<and> timers sl w' = timers sl w \<and>
    w_cur_tick w' = w_cur_tick w \<and> w_start w' = w_start w \<and> w_tick_ms w' = w_tick_ms w \<and>
    w_max_capacity w' = w_max_capacity w \<and>
    (case r of Some k \<Rightarrow> slab_get sl (w_slab w) k = None \<and> slab_get sl (w_slab w') k = Some Reserved
     | None \<Rightarrow> w' = w \<and> (slab_len sl (w_slab w) = 0 \<or> slab_len sl (w_slab w) = w_max_capacity w))"
proof -
  obtain L where wf: "wheel_wf sl w L" and hb: "hints_behind sl w L" using assms(1) by (auto simp: wheel_inv_def)
  from wheel_reserve_wf [OF wf assms(2,3)] obtain w' r where w': "wheel_reserve sl w = (w', Ok r)" "wheel_wf sl w' L"
    "timers sl w' = timers sl w" "w_cur_tick w' = w_cur_tick w" "w_start w' = w_start w" "w_tick_ms w' = w_tick_ms w"
    "w_max_capacity w' = w_max_capacity w" "w_slots w' = w_slots w" "w_cur_idx w' = w_cur_idx w"
    "pend (slab_get sl (w_slab w')) = pend (slab_get sl (w_slab w))"
    "case r of Some k \<Rightarrow> slab_get sl (w_slab w) k = None \<and> slab_get sl (w_slab w') k = Some Reserved
     | None \<Rightarrow> w' = w \<and> (slab_len sl (w_slab w) = 0 \<or> slab_len sl (w_slab w) = w_max_capacity w)"
    by blast
  have "hints_behind sl w' L"
    by (rule hints_frame [OF hb _ wf]) (use w'(4,8-10) in \<open>auto simp: rest_def\<close>)
  with w' show ?thesis by (auto simp: wheel_inv_def)
qed

lemma set_timeout_inv:
  assumes inv: "wheel_inv sl w" and tk: "slab_get sl (w_slab w) tk = Some Reserved"
    and at: "in_horizon w at" and room: "w_cur_tick w + 1 < 2 ^ 32"
  defines "k \<equiv> max (ticks_at w at) (w_cur_tick w + 1)"
  shows "\<exists>w'. set_timeout sl w tk at tsk = (w', Ok ()) \<and> wheel_inv sl w' \<and>
    timers sl w' = (timers sl w)(tk \<mapsto> (tsk, tick_instant w k)) \<and>
    (\<forall>y. slab_get sl (w_slab w') y = None \<longleftrightarrow> slab_get sl (w_slab w) y = None) \<and>
    w_cur_tick w' = w_cur_tick w \<and> w_start w' = w_start w \<and> w_tick_ms w' = w_tick_ms w \<and>
    w_max_capacity w' = w_max_capacity w"
proof -
  obtain L where wf: "wheel_wf sl w L" and hb: "hints_behind sl w L" using inv by (auto simp: wheel_inv_def)
  let ?i = "k mod length (w_slots w)" and ?at = "tick_instant w k"
  let ?slot = "w_slots w ! ?i"
  from set_timeout_wf [OF wf tk at room, of tsk] obtain w' where w': "set_timeout sl w tk at tsk = (w', Ok ())"
    "wheel_wf sl w' (L(?i := tk # L ?i))" "timers sl w' = (timers sl w)(tk \<mapsto> (tsk, ?at))"
    "\<forall>y. slab_get sl (w_slab w') y = None \<longleftrightarrow> slab_get sl (w_slab w) y = None"
    "w_cur_tick w' = w_cur_tick w" "w_start w' = w_start w" "w_tick_ms w' = w_tick_ms w"
    "w_max_capacity w' = w_max_capacity w"
    "rest w' (L(?i := tk # L ?i)) = rest w L"
    "pend (slab_get sl (w_slab w')) = (pend (slab_get sl (w_slab w)))(tk \<mapsto> (tsk, ?at, ?i))"
    "w_slots w' = (w_slots w)[?i := \<lparr>sl_head = tk, sl_next =
       (if ?at \<le> unwrap_or (sl_next ?slot) ?at then Some ?at else sl_next ?slot)\<rparr>]"
    unfolding k_def by blast
  have i: "?i < length (w_slots w)" by (rule slots_ok_index [OF wheel_wfD(2) [OF wf]])
  have new: "hinted w' ?i ?at"
    using i by (cases "sl_next ?slot") (auto simp: hinted_def w'(11))
  have old: "hinted w' j wh" if "hinted w j wh" for j wh
    using that i by (cases "j = ?i"; cases "sl_next ?slot") (auto simp: hinted_def w'(11))
  have "hints_behind sl w' (L(?i := tk # L ?i))"
    unfolding hints_behind_def w'(9)
  proof (intro allI impI)
    fix x t wh j assume "pend (slab_get sl (w_slab w')) x = Some (t, wh, j)"
    then consider "wh = ?at" "j = ?i" | "pend (slab_get sl (w_slab w)) x = Some (t, wh, j)"
      by (auto simp: w'(10) split: if_splits)
    then show "x \<in> set (rest w L) \<or> hinted w' j wh"
    proof cases
      case 2
      then have "x \<in> set (rest w L) \<or> hinted w j wh" using hb by (simp add: hints_behind_def)
      then show ?thesis using old by blast
    qed (use new in simp)
  qed
  with w' show ?thesis by (auto simp: wheel_inv_def)
qed

text \<open>Polling, on the map of timers.\<close>

lemma wheel_poll_inv:
  assumes inv: "wheel_inv sl w" and at: "in_horizon w at"
  shows "\<exists>w' r. wheel_poll sl w at = Some (w', Ok r) \<and> wheel_inv sl w' \<and> w_start w' = w_start w \<and>
    w_tick_ms w' = w_tick_ms w \<and> w_max_capacity w' = w_max_capacity w \<and>
    w_cur_tick w \<le> w_cur_tick w' \<and> w_cur_tick w' \<le> max (w_cur_tick w) (ticks_at w at + 1) \<and>
    (case r of
       None \<Rightarrow> timers sl w' = timers sl w \<and> slab_get sl (w_slab w') = slab_get sl (w_slab w) \<and>
         (\<forall>x t wh. timers sl w x = Some (t, wh) \<longrightarrow> ticks_at w at < ticks_at w wh) \<and>
         (w_cur_tick w \<le> ticks_at w at \<or> hints_ok sl w \<longrightarrow> hints_ok sl w')
     | Some t \<Rightarrow> \<exists>x wh. timers sl w x = Some (t, wh) \<and> ticks_at w wh \<le> ticks_at w at \<and>
         timers sl w' = (timers sl w)(x := None) \<and>
         (\<forall>y. slab_get sl (w_slab w') y = None \<longleftrightarrow> y = x \<or> slab_get sl (w_slab w) y = None))"
proof -
  obtain L where wf: "wheel_wf sl w L" and hb: "hints_behind sl w L" using inv by (auto simp: wheel_inv_def)
  let ?T = "ticks_at w at"
  from poll_loop_spec [OF wf at refl] obtain w' L' r where
    run: "poll_loop sl at ?T w = Some (w', Ok r)" and wf': "wheel_wf sl w' L'" and res: "poll_result ?T w L w' L' r"
    by blast
  have wp: "wheel_poll sl w at = Some (w', Ok r)"
    using run time_to_ticks_in [OF wheel_wfD(1) [OF wf] at] by (simp add: wheel_poll_def)
  have inv': "wheel_inv sl w'" using wf' res hb by (auto simp: wheel_inv_def poll_result_def)
  show ?thesis
  proof (cases r)
    case None
    then have n: "slab_get sl (w_slab w') = slab_get sl (w_slab w)" "w_cur_tick w' = max (w_cur_tick w) (?T + 1)"
      "w_start w' = w_start w" "w_tick_ms w' = w_tick_ms w"
      using res by (simp_all add: poll_result_def)
    then have same: "timers sl w' = timers sl w" by (simp add: timers_def fun_eq_iff)
    have "?T < ticks_at w wh" if "timers sl w x = Some (t, wh)" for x t wh
    proof -
      have "w_cur_tick w' \<le> ticks_at w' wh"
        using wheel_inv_ticks [OF inv'] that same by metis
      then show ?thesis using n(2) clock_cong(3) [OF n(3,4)] by simp
    qed
    with None wp inv' same n res hb show ?thesis
      by (intro exI [of _ w'] exI [of _ r]) (auto simp: poll_result_def)
  next
    case (Some t)
    with res obtain x wh i where x: "pend (slab_get sl (w_slab w)) x = Some (t, wh, i)" "ticks_at w wh \<le> ?T"
      "pend (slab_get sl (w_slab w')) = (pend (slab_get sl (w_slab w)))(x := None)"
      "\<forall>y. slab_get sl (w_slab w') y = None \<longleftrightarrow> y = x \<or> slab_get sl (w_slab w) y = None"
      by (auto simp: poll_result_def)
    have "timers sl w x = Some (t, wh)" using x(1) by (auto simp: timers_Some)
    moreover have "timers sl w' = (timers sl w)(x := None)" using timers_drop [OF x(3)] .
    ultimately show ?thesis
      using Some wp inv' res x(2,4) by (intro exI [of _ w'] exI [of _ r]) (auto simp: poll_result_def)
  qed
qed

lemma finite_pending: "finite (dom (timers sl w))"
  by (rule finite_subset [OF _ finite_keys [of "w_slab w"]])
    (auto simp: timers_def dom_def split: option.splits entry.splits)

end

sublocale wheel_slab \<subseteq> wheel_timers: timer_service "wheel_inv sl" "timers sl" wheel_ready wheel_due "wheel_poll sl"
proof unfold_locales
  fix w w' :: "'s wheel" and at :: instant and t :: task
  show "finite (dom (timers sl w))" by (rule finite_pending)
  assume inv: "wheel_inv sl w" and "wheel_ready w at"
  then have at: "in_horizon w at" by (simp add: wheel_ready_def)
  note P = wheel_poll_inv [OF inv at]
  show "\<exists>w' r. wheel_poll sl w at = Some (w', Ok r) \<and> wheel_inv sl w' \<and> wheel_ready w' at \<and> wheel_due w' = wheel_due w"
  proof -
    from P obtain w1 r where w1: "wheel_poll sl w at = Some (w1, Ok r)" "wheel_inv sl w1"
      "w_start w1 = w_start w" "w_tick_ms w1 = w_tick_ms w" by blast
    note clk = clock_cong(3,4) [OF w1(3,4)]
    have "wheel_ready w1 at" "wheel_due w1 = wheel_due w"
      using at clk by (simp_all add: wheel_ready_def wheel_due_def fun_eq_iff)
    with w1 show ?thesis by blast
  qed
  show "timers sl w' = timers sl w \<and> (\<forall>x t wh. timers sl w x = Some (t, wh) \<longrightarrow> \<not> wheel_due w at wh)"
    if "wheel_poll sl w at = Some (w', Ok None)"
    using P that by (simp add: wheel_due_def not_le)
  show "\<exists>x wh. timers sl w x = Some (t, wh) \<and> wheel_due w at wh \<and> timers sl w' = (timers sl w)(x := None)"
    if "wheel_poll sl w at = Some (w', Ok (Some t))"
    using P that by (auto simp: wheel_due_def)
qed

interpretation vec_wheel: wheel_slab "vec_slab_ops :: (entry vec_slab, entry) slab_ops"
  by (rule wheel_slab.intro) (rule vec_slab.slab_axioms)

end
