(* ===== verification/Wheel_Properties.thy ===== *)
theory Wheel_Properties
  imports Wheel_Spec
begin

text \<open>
  The properties of the timer wheel, stated over every slab that behaves as the crate documents:
  reachable wheels, arming, cancelling, polling, and the next timeout.
\<close>

section \<open>Reachable wheels\<close>

text \<open>
  What a client may do with a wheel: create it, reserve a token, arm a reserved token, cancel any
  token, release a token that is not armed, change the task of a timeout, and poll.
\<close>

inductive wheel_reach :: "('s, entry) slab_ops \<Rightarrow> 's wheel \<Rightarrow> bool" for sl where
  reach_new: "wheel_new sl b now = Ok w \<Longrightarrow> clock_ok w \<Longrightarrow> wheel_reach sl w"
| reach_reserve: "wheel_reach sl w \<Longrightarrow> wheel_reserve sl w = (w', r) \<Longrightarrow> wheel_reach sl w'"
| reach_arm: "wheel_reach sl w \<Longrightarrow> slab_get sl (w_slab w) tk = Some Reserved \<Longrightarrow> in_horizon w at \<Longrightarrow>
    w_cur_tick w + 1 < 2 ^ 32 \<Longrightarrow> set_timeout sl w tk at tsk = (w', r) \<Longrightarrow> wheel_reach sl w'"
| reach_cancel: "wheel_reach sl w \<Longrightarrow> wheel_cancel sl w tk = (w', r) \<Longrightarrow> wheel_reach sl w'"
| reach_release: "wheel_reach sl w \<Longrightarrow> (\<And>e. slab_get sl (w_slab w) tk \<noteq> Some (Timeout e)) \<Longrightarrow>
    wheel_reach sl (wheel_release sl w tk)"
| reach_move: "wheel_reach sl w \<Longrightarrow> wheel_reach sl (move_timeout sl w tk wh tsk)"
| reach_poll: "wheel_reach sl w \<Longrightarrow> in_horizon w at \<Longrightarrow> wheel_poll sl w at = Some (w', r) \<Longrightarrow> wheel_reach sl w'"

lemma seg_retask:
  "G x = Some (Timeout e) \<Longrightarrow> seg (G(x \<mapsto> Timeout (e\<lparr>to_task := t\<rparr>))) p xs q = seg G p xs q"
  by (induction xs arbitrary: p) auto

context wheel_slab
begin

lemma wheel_inv_frame:
  assumes "wheel_inv sl w" "pend (slab_get sl s) = pend (slab_get sl (w_slab w))"
    and "\<And>x. pend (slab_get sl (w_slab w)) x \<noteq> None \<Longrightarrow> slab_get sl s x = slab_get sl (w_slab w) x"
  shows "wheel_inv sl (w\<lparr>w_slab := s\<rparr>)"
proof -
  obtain L where wf: "wheel_wf sl w L" and hb: "hints_behind sl w L" using assms(1) by (auto simp: wheel_inv_def)
  have "hints_behind sl (w\<lparr>w_slab := s\<rparr>) L"
    using hb assms(2) by (simp add: hints_behind_def rest_def hinted_def)
  with wheel_wf_frame [OF wf assms(2,3)] show ?thesis by (auto simp: wheel_inv_def)
qed

lemma reserve_any_inv:
  assumes inv: "wheel_inv sl w" and res: "wheel_reserve sl w = (w', r)"
  shows "wheel_inv sl w'"
proof -
  have ins: "wheel_inv sl (v\<lparr>w_slab := s\<rparr>)" if "wheel_inv sl v" "slab_insert sl (w_slab v) Reserved = Some (k, s)"
    for v k s
  proof (rule wheel_inv_frame [OF that(1)])
    have "slab_get sl (w_slab v) k = None" "slab_get sl s = (slab_get sl (w_slab v))(k \<mapsto> Reserved)"
      using insert_fresh [OF that(2)] by auto
    then show "pend (slab_get sl s) = pend (slab_get sl (w_slab v))"
      "\<And>x. pend (slab_get sl (w_slab v)) x \<noteq> None \<Longrightarrow> slab_get sl s x = slab_get sl (w_slab v) x"
      by (auto simp: pend_def fun_eq_iff)
  qed
  have "wheel_inv sl (w\<lparr>w_slab := slab_reserve_exact sl (w_slab w) n\<rparr>)" for n
    by (rule wheel_inv_frame [OF inv]) (simp_all add: get_reserve)
  then show ?thesis
    using res inv ins unfolding wheel_reserve_def Let_def
    by (fastforce split: if_splits option.splits prod.splits)
qed

lemma release_inv:
  assumes "wheel_inv sl w" "\<And>e. slab_get sl (w_slab w) tk \<noteq> Some (Timeout e)"
  shows "wheel_inv sl (wheel_release sl w tk)"
  unfolding wheel_release_def
proof (rule wheel_inv_frame [OF assms(1)])
  have np: "pend (slab_get sl (w_slab w)) tk = None"
    using assms(2) by (auto simp: pend_def split: option.splits entry.splits)
  then show "pend (slab_get sl (snd (slab_remove sl (w_slab w) tk))) = pend (slab_get sl (w_slab w))"
    by (auto simp: remove_get pend_upd)
  show "slab_get sl (snd (slab_remove sl (w_slab w) tk)) x = slab_get sl (w_slab w) x"
    if "pend (slab_get sl (w_slab w)) x \<noteq> None" for x
    using that np by (auto simp: remove_get)
qed

lemma move_inv:
  assumes "wheel_inv sl w"
  shows "wheel_inv sl (move_timeout sl w tk wh tsk)"
proof (cases "\<exists>e. slab_get sl (w_slab w) tk = Some (Timeout e) \<and> to_when e = wh")
  case False
  then have "move_timeout sl w tk wh tsk = w"
    by (auto simp: move_timeout_def split: option.splits entry.splits)
  with assms show ?thesis by simp
next
  case True
  then obtain e where e: "slab_get sl (w_slab w) tk = Some (Timeout e)" "to_when e = wh" by blast
  obtain L where wf: "wheel_wf sl w L" and hb: "hints_behind sl w L" using assms by (auto simp: wheel_inv_def)
  let ?G = "slab_get sl (w_slab w)" and ?f = "Timeout (e\<lparr>to_task := tsk\<rparr>)"
  let ?w = "w\<lparr>w_slab := slab_set sl (w_slab w) tk ?f\<rparr>"
  have G: "slab_get sl (w_slab ?w) = ?G(tk \<mapsto> ?f)" using get_set e(1) by simp
  have p: "pend (?G(tk \<mapsto> ?f)) = (pend ?G)(tk \<mapsto> (tsk, to_when e, to_wheel_idx e))" by (simp add: pend_upd)
  have old: "pend ?G tk = Some (to_task e, to_when e, to_wheel_idx e)" using e by (simp add: pend_def)
  have slot: "(\<exists>t wh. pend (?G(tk \<mapsto> ?f)) x = Some (t, wh, i)) \<longleftrightarrow> (\<exists>t wh. pend ?G x = Some (t, wh, i))" for x i
    using old by (auto simp: p)
  have D: "links_ok ?G (w_slots w) L" "ticks_ok ?G w L" using wheel_wfD(3,5) [OF wf] .
  have "links_ok (?G(tk \<mapsto> ?f)) (w_slots w) L"
    using D(1) e(1) seg_retask [of ?G tk e tsk] unfolding links_ok_def slot
    by (auto simp: p split: if_splits) (use old in blast)
  moreover have "ticks_ok (?G(tk \<mapsto> ?f)) ?w L"
    using D(2) old by (auto simp: ticks_ok_def p rest_def)
  ultimately have "wheel_wf sl ?w L"
    using wheel_wfD [OF wf] G by (simp add: wheel_wf_def)
  moreover have "hints_behind sl ?w L"
    using hb old unfolding hints_behind_def G by (auto simp: p rest_def hinted_def split: if_splits)
  ultimately have "wheel_inv sl ?w" by (auto simp: wheel_inv_def)
  then show ?thesis using e by (simp add: move_timeout_def)
qed

lemma wheel_reach_sound: "wheel_reach sl w \<Longrightarrow> wheel_inv sl w"
proof (induction rule: wheel_reach.induct)
  case (reach_new b now w)
  then show ?case using wheel_new_inv by blast
next
  case (reach_reserve w w' r)
  then show ?case using reserve_any_inv by blast
next
  case (reach_arm w tk at tsk w' r)
  then show ?case using set_timeout_inv [OF reach_arm.IH reach_arm.hyps(2-4), of tsk] by auto
next
  case (reach_cancel w tk w' r)
  then show ?case using wheel_cancel_inv [OF reach_cancel.IH, of tk] by auto
next
  case (reach_release w tk)
  then show ?case using release_inv by blast
next
  case (reach_move w tk wh tsk)
  then show ?case using move_inv by blast
next
  case (reach_poll w at w' r)
  then show ?case using wheel_poll_inv [OF reach_poll.IH reach_poll.hyps(2)] by auto
qed

end

section \<open>The next timeout\<close>

definition earlier :: "instant option \<Rightarrow> instant option \<Rightarrow> instant option" where
  "earlier a b = (case a of None \<Rightarrow> b
     | Some x \<Rightarrow> (case b of Some y \<Rightarrow> if y < x then b else a | None \<Rightarrow> a))"

lemma next_timeout_fold: "next_timeout w = fold (\<lambda>s. earlier (sl_next s)) (w_slots w) None"
  unfolding next_timeout_def earlier_def by (rule fold_cong) (auto split: option.splits)

lemma earlier_fold_le:
  "acc = Some m \<Longrightarrow> \<exists>m'. fold (\<lambda>s. earlier (sl_next s)) ss acc = Some m' \<and> m' \<le> m"
proof (induction ss arbitrary: acc m)
  case (Cons s ss)
  have "\<exists>m1. earlier (sl_next s) acc = Some m1 \<and> m1 \<le> m"
    using Cons.prems by (auto simp: earlier_def split: option.splits)
  then obtain m1 where m1: "earlier (sl_next s) acc = Some m1" "m1 \<le> m" by blast
  from Cons.IH [OF m1(1)] m1(2) show ?case by fastforce
qed simp

lemma next_timeout_le:
  assumes "s \<in> set ss" "sl_next s = Some m"
  shows "\<exists>m'. fold (\<lambda>s. earlier (sl_next s)) ss acc = Some m' \<and> m' \<le> m"
  using assms(1)
proof (induction ss arbitrary: acc)
  case (Cons s' ss)
  show ?case
  proof (cases "s' = s")
    case True
    then have "\<exists>m1. earlier (sl_next s') acc = Some m1 \<and> m1 \<le> m"
      using assms(2) by (auto simp: earlier_def split: option.splits)
    then obtain m1 where "earlier (sl_next s') acc = Some m1" "m1 \<le> m" by blast
    then show ?thesis using earlier_fold_le [of "earlier (sl_next s') acc" m1 ss] by fastforce
  next
    case False
    then show ?thesis using Cons by simp
  qed
qed simp

lemma next_timeout_hint:
  assumes "hinted w i wh" "i < length (w_slots w)"
  shows "\<exists>m. next_timeout w = Some m \<and> m \<le> wh"
proof -
  obtain m where "sl_next (w_slots w ! i) = Some m" "m \<le> wh" using assms(1) by (auto simp: hinted_def)
  then show ?thesis
    using next_timeout_le [OF nth_mem [OF assms(2)], of m None] unfolding next_timeout_fold by fastforce
qed

lemma next_timeout_early:
  assumes "wheel_inv sl w" "hints_ok sl w" "timers sl w x = Some (t, wh)"
  shows "\<exists>m. next_timeout w = Some m \<and> m \<le> wh"
proof -
  obtain L i where "wheel_wf sl w L" and p: "pend (slab_get sl (w_slab w)) x = Some (t, wh, i)"
    using assms(1,3) by (auto simp: wheel_inv_def timers_Some)
  then have "i < length (w_slots w)" using links_okD(6) [OF wheel_wfD(3)] by blast
  moreover have "hinted w i wh" using assms(2) p by (simp add: hints_ok_def)
  ultimately show ?thesis by (rule next_timeout_hint [rotated])
qed

section \<open>A small wheel\<close>

text \<open>
  A wheel of four slots and ticks of 100 ms on the vector slab, then with one token reserved, then with
  that token armed for 250 ms and task 7.
\<close>

definition ex_wheel :: "entry vec_slab wheel" where
  "ex_wheel =
     \<lparr>w_slots = replicate 4 \<lparr>sl_head = EMPTY, sl_next = None\<rparr>, w_slab = \<lparr>cells = [], capacity = 256\<rparr>,
      w_start = Instant 0, w_cur_tick = 0, w_cur_idx = EMPTY, w_max_capacity = 4194304,
      w_tick_ms = 100, w_mask = 3\<rparr>"

definition ex_reserved :: "entry vec_slab wheel" where
  "ex_reserved = ex_wheel\<lparr>w_slab := \<lparr>cells = [Some Reserved], capacity = 256\<rparr>\<rparr>"

definition ex_armed :: "entry vec_slab wheel" where
  "ex_armed = fst (set_timeout vec_slab_ops ex_reserved 0 (Instant 250000000) 7)"

lemma ex_wheel_new: "wheel_new vec_slab_ops (num_slots timer_builder_new 4) (Instant 0) = Ok ex_wheel"
  by (simp add: wheel_new_def timer_config_defs ex_wheel_def vec_slab_ops_def millis_def as_secs_def
      subsec_nanos_def from_millis_def nanos_per_sec_def nanos_per_milli_def u64_max_def Let_def)

lemma ex_clock: "clock_ok ex_wheel" "clock_ok ex_reserved"
  by (simp_all add: clock_ok_def ex_wheel_def ex_reserved_def tick_nanos_def nanos_per_milli_def nanos_per_sec_def)

lemma ex_horizon: "n < 429496729600000000 \<Longrightarrow> in_horizon ex_wheel (Instant n)"
  "n < 429496729600000000 \<Longrightarrow> in_horizon ex_reserved (Instant n)"
  by (simp_all add: in_horizon_def ex_wheel_def ex_reserved_def tick_nanos_def nanos_per_milli_def)

lemma ex_reserve: "wheel_reserve vec_slab_ops ex_wheel = (ex_reserved, Ok (Some 0))"
  by (simp add: wheel_reserve_def ex_wheel_def ex_reserved_def vec_slab_ops_def vec_vacant_def put_cell_def
      isize_max_def)

lemma ex_token: "slab_get vec_slab_ops (w_slab ex_reserved) 0 = Some Reserved"
  by (simp add: ex_reserved_def vec_slab_ops_def cell_def isize_max_def)

lemma ex_reach: "wheel_reach vec_slab_ops ex_wheel" "wheel_reach vec_slab_ops ex_reserved"
  "wheel_reach vec_slab_ops ex_armed"
proof -
  show r0: "wheel_reach vec_slab_ops ex_wheel" by (rule reach_new [OF ex_wheel_new ex_clock(1)])
  show r1: "wheel_reach vec_slab_ops ex_reserved" by (rule reach_reserve [OF r0 ex_reserve])
  have "w_cur_tick ex_reserved + 1 < 2 ^ 32" by (simp add: ex_reserved_def ex_wheel_def)
  then show "wheel_reach vec_slab_ops ex_armed"
    using reach_arm [OF r1 ex_token ex_horizon(2) _ prod.collapse [symmetric], of 250000000 7]
    by (simp add: ex_armed_def)
qed

lemma ex_armed_clock: "w_start ex_armed = Instant 0" "w_tick_ms ex_armed = 100" "w_cur_tick ex_armed = 0"
proof -
  have inv: "wheel_inv vec_slab_ops ex_reserved" using vec_wheel.wheel_reach_sound ex_reach(2) by blast
  have "w_cur_tick ex_reserved + 1 < 2 ^ 32" by (simp add: ex_reserved_def ex_wheel_def)
  from vec_wheel.set_timeout_inv [OF inv ex_token ex_horizon(2) this, of 250000000 7]
  show "w_start ex_armed = Instant 0" "w_tick_ms ex_armed = 100" "w_cur_tick ex_armed = 0"
    by (auto simp: ex_armed_def ex_reserved_def ex_wheel_def)
qed

lemma ex_armed_timers: "timers vec_slab_ops ex_armed = [0 \<mapsto> (7, Instant 200000000)]"
proof -
  have inv: "wheel_inv vec_slab_ops ex_reserved" using vec_wheel.wheel_reach_sound ex_reach(2) by blast
  have cur: "w_cur_tick ex_reserved + 1 < 2 ^ 32" by (simp add: ex_reserved_def ex_wheel_def)
  have k: "max (ticks_at ex_reserved (Instant 250000000)) (w_cur_tick ex_reserved + 1) = 2"
    by (simp add: ex_reserved_def ex_wheel_def ticks_at_def tick_nanos_def nanos_per_milli_def)
  have "timers vec_slab_ops ex_armed = (timers vec_slab_ops ex_reserved)(0 \<mapsto> (7, tick_instant ex_reserved 2))"
    using vec_wheel.set_timeout_inv [OF inv ex_token ex_horizon(2) cur, of 250000000 7] unfolding k
    by (auto simp: ex_armed_def)
  moreover have "timers vec_slab_ops ex_reserved = Map.empty"
    by (auto simp: timers_def ex_reserved_def vec_slab_ops_def cell_def fun_eq_iff split: option.splits entry.splits)
  moreover have "tick_instant ex_reserved 2 = Instant 200000000"
    by (simp add: tick_instant_def ex_reserved_def ex_wheel_def tick_nanos_def nanos_per_milli_def)
  ultimately show ?thesis by simp
qed

lemma ex_armed_poll_early:
  "\<exists>w'. wheel_poll vec_slab_ops ex_armed (Instant 100000000) = Some (w', Ok None) \<and>
    timers vec_slab_ops w' = [0 \<mapsto> (7, Instant 200000000)]"
proof -
  have inv: "wheel_inv vec_slab_ops ex_armed" using vec_wheel.wheel_reach_sound ex_reach(3) by blast
  have "in_horizon ex_armed (Instant 100000000)"
    by (simp add: in_horizon_def ex_armed_clock tick_nanos_def nanos_per_milli_def)
  from vec_wheel.wheel_poll_inv [OF inv this] obtain w' r where
    "wheel_poll vec_slab_ops ex_armed (Instant 100000000) = Some (w', Ok r)" and
    c: "case r of None \<Rightarrow> timers vec_slab_ops w' = timers vec_slab_ops ex_armed
       | Some t \<Rightarrow> \<exists>x wh. timers vec_slab_ops ex_armed x = Some (t, wh) \<and>
           ticks_at ex_armed wh \<le> ticks_at ex_armed (Instant 100000000)"
    by (fastforce split: option.splits)
  moreover have "r = None"
    using c by (cases r) (auto simp: ex_armed_timers ticks_at_def ex_armed_clock tick_nanos_def
        nanos_per_milli_def split: if_splits)
  ultimately show ?thesis using c by (auto simp: ex_armed_timers)
qed

lemma ex_armed_horizon: "n < 429496729600000000 \<Longrightarrow> in_horizon ex_armed (Instant n)"
  by (simp add: in_horizon_def ex_armed_clock tick_nanos_def nanos_per_milli_def)

section \<open>Properties\<close>

text \<open>
  C6: every reachable wheel satisfies the invariant of the wheel: the slots are the heads of
  well-formed doubly linked lists that hold exactly the armed tokens, a timeout for tick \<open>k\<close> is in slot
  \<open>k mod n\<close>, nothing pending lies behind the cursor, and the hints of the slots are early enough.
\<close>

theorem reachable_wheel_inv:
  assumes "slab sl" and "wheel_reach sl w"
  shows "wheel_inv sl w"
  using wheel_slab.wheel_reach_sound [OF wheel_slab.intro] assms by blast

theorem reachable_wheel_inv_witness: "wheel_inv vec_slab_ops ex_armed"
  by (rule reachable_wheel_inv [OF vec_slab.slab_axioms ex_reach(3)])

text \<open>
  C7: \<^verbatim>\<open>Wheel::poll\<close> on a reachable wheel terminates and does not panic.  It returns a task only if
  that is the task of a timer that is due (its tick is not after the tick polled for), which is then
  gone while every other timer stays; and it returns nothing only when no timer is due.
\<close>

theorem wheel_poll_correct:
  assumes "slab sl" and "wheel_reach sl w" and "in_horizon w at"
  shows "\<exists>w' r. wheel_poll sl w at = Some (w', Ok r) \<and>
    (case r of
       None \<Rightarrow> timers sl w' = timers sl w \<and> (\<forall>x t wh. timers sl w x = Some (t, wh) \<longrightarrow> ticks_at w at < ticks_at w wh)
     | Some t \<Rightarrow> \<exists>x wh. timers sl w x = Some (t, wh) \<and> ticks_at w wh \<le> ticks_at w at \<and>
         timers sl w' = (timers sl w)(x := None))"
proof -
  have inv: "wheel_inv sl w" using wheel_slab.wheel_reach_sound [OF wheel_slab.intro] assms(1,2) by blast
  from wheel_slab.wheel_poll_inv [OF wheel_slab.intro [OF assms(1)] inv assms(3)]
  obtain w' r where "wheel_poll sl w at = Some (w', Ok r)" and
    "case r of
       None \<Rightarrow> timers sl w' = timers sl w \<and> slab_get sl (w_slab w') = slab_get sl (w_slab w) \<and>
         (\<forall>x t wh. timers sl w x = Some (t, wh) \<longrightarrow> ticks_at w at < ticks_at w wh) \<and>
         (w_cur_tick w \<le> ticks_at w at \<or> hints_ok sl w \<longrightarrow> hints_ok sl w')
     | Some t \<Rightarrow> \<exists>x wh. timers sl w x = Some (t, wh) \<and> ticks_at w wh \<le> ticks_at w at \<and>
         timers sl w' = (timers sl w)(x := None) \<and>
         (\<forall>y. slab_get sl (w_slab w') y = None \<longleftrightarrow> y = x \<or> slab_get sl (w_slab w) y = None)"
    by blast
  then show ?thesis by (intro exI [of _ w'] exI [of _ r]) (cases r; auto)
qed

theorem wheel_poll_correct_witness:
  "\<exists>w' r. wheel_poll vec_slab_ops ex_armed (Instant 300000000) = Some (w', Ok r) \<and>
    (case r of
       None \<Rightarrow> timers vec_slab_ops w' = timers vec_slab_ops ex_armed \<and>
         (\<forall>x t wh. timers vec_slab_ops ex_armed x = Some (t, wh) \<longrightarrow>
            ticks_at ex_armed (Instant 300000000) < ticks_at ex_armed wh)
     | Some t \<Rightarrow> \<exists>x wh. timers vec_slab_ops ex_armed x = Some (t, wh) \<and>
         ticks_at ex_armed wh \<le> ticks_at ex_armed (Instant 300000000) \<and>
         timers vec_slab_ops w' = (timers vec_slab_ops ex_armed)(x := None))"
  by (rule wheel_poll_correct [OF vec_slab.slab_axioms ex_reach(3) ex_armed_horizon]) simp

text \<open>
  C8: \<^verbatim>\<open>Wheel::set_timeout\<close> arms a reserved token of a reachable wheel with its task and leaves the
  other timers alone.  The instant stored is exactly that of a tick: the tick of the instant asked for, or
  the tick after the wheel's current one if that is later.  It is therefore less than one tick before the
  instant asked for, and after it only in the second case.
\<close>

theorem set_timeout_correct:
  assumes "slab sl" and "wheel_reach sl w" and "slab_get sl (w_slab w) tk = Some Reserved"
    and "in_horizon w at" and "w_cur_tick w + 1 < 2 ^ 32"
  shows "\<exists>w' wh. set_timeout sl w tk at tsk = (w', Ok ()) \<and>
    timers sl w' = (timers sl w)(tk \<mapsto> (tsk, wh)) \<and>
    wh = tick_instant w (max (ticks_at w at) (w_cur_tick w + 1)) \<and>
    nanos at < nanos wh + tick_nanos w \<and> (wh \<le> at \<or> wh = tick_instant w (w_cur_tick w + 1))"
proof -
  have inv: "wheel_inv sl w" using wheel_slab.wheel_reach_sound [OF wheel_slab.intro] assms(1,2) by blast
  then have "clock_ok w" using wheel_wfD(1) by (auto simp: wheel_inv_def)
  note bounds = fires_at_bounds [OF this assms(4), unfolded fires_at_def]
  from wheel_slab.set_timeout_inv [OF wheel_slab.intro [OF assms(1)] inv assms(3-5), of tsk] bounds
  show ?thesis by blast
qed

theorem set_timeout_correct_witness:
  "\<exists>w' wh. set_timeout vec_slab_ops ex_reserved 0 (Instant 250000000) 7 = (w', Ok ()) \<and>
    timers vec_slab_ops w' = (timers vec_slab_ops ex_reserved)(0 \<mapsto> (7, wh)) \<and>
    wh = tick_instant ex_reserved (max (ticks_at ex_reserved (Instant 250000000)) (w_cur_tick ex_reserved + 1)) \<and>
    nanos (Instant 250000000) < nanos wh + tick_nanos ex_reserved \<and>
    (wh \<le> Instant 250000000 \<or> wh = tick_instant ex_reserved (w_cur_tick ex_reserved + 1))"
  by (rule set_timeout_correct [OF vec_slab.slab_axioms ex_reach(2) ex_token ex_horizon(2)])
    (simp_all add: ex_reserved_def ex_wheel_def)

text \<open>
  C13: \<^verbatim>\<open>Wheel::cancel\<close> on a reachable wheel never panics, whatever the token: the token's timer, if it
  has one, is gone, every other timer stays, and the token is free again.
\<close>

theorem wheel_cancel_correct:
  assumes "slab sl" and "wheel_reach sl w"
  shows "\<exists>w'. wheel_cancel sl w tk = (w', Ok ()) \<and> timers sl w' = (timers sl w)(tk := None) \<and>
    (\<forall>y. slab_get sl (w_slab w') y = None \<longleftrightarrow> y = tk \<or> slab_get sl (w_slab w) y = None)"
proof -
  have "wheel_inv sl w" using wheel_slab.wheel_reach_sound [OF wheel_slab.intro] assms by blast
  from wheel_slab.wheel_cancel_inv [OF wheel_slab.intro [OF assms(1)] this] show ?thesis by blast
qed

theorem wheel_cancel_correct_witness:
  "\<exists>w'. wheel_cancel vec_slab_ops ex_armed 0 = (w', Ok ()) \<and>
    timers vec_slab_ops w' = (timers vec_slab_ops ex_armed)(0 := None) \<and>
    (\<forall>y. slab_get vec_slab_ops (w_slab w') y = None \<longleftrightarrow> y = 0 \<or> slab_get vec_slab_ops (w_slab ex_armed) y = None)"
  by (rule wheel_cancel_correct [OF vec_slab.slab_axioms ex_reach(3)])

text \<open>
  \<^verbatim>\<open>Wheel::reserve\<close> within the limits of the wheel hands out a token that was free and is reserved
  afterwards, without touching a timer; it returns nothing only when the slab holds no entry at all
  (and no free one) or as many as \<^verbatim>\<open>max_capacity\<close>.
\<close>

theorem wheel_reserve_correct:
  assumes "slab sl" and "wheel_reach sl w"
    and "slab_len sl (w_slab w) \<le> w_max_capacity w" "w_max_capacity w \<le> isize_max"
  shows "\<exists>w' r. wheel_reserve sl w = (w', Ok r) \<and> timers sl w' = timers sl w \<and>
    (case r of Some k \<Rightarrow> slab_get sl (w_slab w) k = None \<and> slab_get sl (w_slab w') k = Some Reserved
     | None \<Rightarrow> w' = w \<and> (slab_len sl (w_slab w) = 0 \<or> slab_len sl (w_slab w) = w_max_capacity w))"
proof -
  have "wheel_inv sl w" using wheel_slab.wheel_reach_sound [OF wheel_slab.intro] assms(1,2) by blast
  from wheel_slab.wheel_reserve_inv [OF wheel_slab.intro [OF assms(1)] this assms(3,4)] show ?thesis by blast
qed

theorem wheel_reserve_correct_witness:
  "\<exists>w' r. wheel_reserve vec_slab_ops ex_reserved = (w', Ok r) \<and>
    timers vec_slab_ops w' = timers vec_slab_ops ex_reserved \<and>
    (case r of Some k \<Rightarrow> slab_get vec_slab_ops (w_slab ex_reserved) k = None \<and>
        slab_get vec_slab_ops (w_slab w') k = Some Reserved
     | None \<Rightarrow> w' = ex_reserved \<and> (slab_len vec_slab_ops (w_slab ex_reserved) = 0 \<or>
        slab_len vec_slab_ops (w_slab ex_reserved) = w_max_capacity ex_reserved))"
  by (rule wheel_reserve_correct [OF vec_slab.slab_axioms ex_reach(2)])
    (simp_all add: ex_reserved_def ex_wheel_def vec_slab_ops_def filled_def isize_max_def)

text \<open>
  C26: once \<^verbatim>\<open>poll\<close> has caught up (it returned nothing for an instant at or after the cursor), the
  instant that \<^verbatim>\<open>next_timeout\<close> gives exists whenever a timer is pending and is not later than any
  pending timer: who sleeps until then oversleeps none.
\<close>

theorem next_timeout_not_late:
  assumes "slab sl" and "wheel_reach sl w" and "in_horizon w at" and "w_cur_tick w \<le> ticks_at w at"
    and "wheel_poll sl w at = Some (w', Ok None)" and "timers sl w' x = Some (t, wh)"
  shows "\<exists>m. next_timeout w' = Some m \<and> m \<le> wh"
proof -
  have "wheel_inv sl w" using wheel_slab.wheel_reach_sound [OF wheel_slab.intro] assms(1,2) by blast
  from wheel_slab.wheel_poll_inv [OF wheel_slab.intro [OF assms(1)] this assms(3)] assms(4,5)
  have "wheel_inv sl w'" "hints_ok sl w'" by auto
  then show ?thesis using assms(6) by (rule next_timeout_early)
qed

theorem next_timeout_not_late_witness:
  "\<exists>w' m. wheel_poll vec_slab_ops ex_armed (Instant 100000000) = Some (w', Ok None) \<and>
    next_timeout w' = Some m \<and> m \<le> Instant 200000000"
proof -
  obtain w' where w': "wheel_poll vec_slab_ops ex_armed (Instant 100000000) = Some (w', Ok None)"
    "timers vec_slab_ops w' 0 = Some (7, Instant 200000000)"
    using ex_armed_poll_early by auto
  have "w_cur_tick ex_armed \<le> ticks_at ex_armed (Instant 100000000)" by (simp add: ex_armed_clock)
  from next_timeout_not_late [OF vec_slab.slab_axioms ex_reach(3) ex_armed_horizon this w'] w'(1)
  show ?thesis by auto
qed

text \<open>
  \<^verbatim>\<open>Wheel::new\<close> succeeds exactly when the number of slots is a power of two; it panics otherwise.
\<close>

theorem wheel_new_power_of_two:
  "wheel_new sl b now \<noteq> Panic \<longleftrightarrow> (\<exists>k. get_num_slots b = 2 ^ k)"
  using and_pred_zero [of "get_num_slots b"] and_pred_power by (auto simp: wheel_new_def Let_def)

text \<open>
  \<^verbatim>\<open>millis\<close> rounds a duration up to whole milliseconds and saturates at \<^verbatim>\<open>u64::MAX\<close>.
\<close>

theorem millis_rounds_up: "millis d = min (2 ^ 64 - 1) ((d + 999999) div 1000000)"
proof -
  let ?q = "d div nanos_per_sec" and ?r = "d mod nanos_per_sec"
  have "d + 999999 = 1000000 * (1000 * ?q) + (?r + 999999)" by (simp add: nanos_per_sec_def)
  then have "(d + 999999) div 1000000 = 1000 * ?q + (?r + 999999) div 1000000"
    by (metis div_mult_self4 zero_neq_numeral)
  moreover have "(?r + nanos_per_milli - 1) div nanos_per_milli = (?r + 999999) div 1000000"
    by (simp add: nanos_per_milli_def)
  ultimately show ?thesis
    by (simp add: millis_def as_secs_def subsec_nanos_def u64_max_def Let_def mult.commute)
qed

end
