(* ===== verification/Poller.thy ===== *)
theory Poller
  imports Wheel_Properties Dns_Lookup
begin

text \<open>
  \<^verbatim>\<open>poller.rs\<close>: the per-thread poller, which turns socket events, due timers and lookup results into
  entries of the work queues of the (at most 20) runners.

  The readiness events of \<^verbatim>\<open>mio\<close> are an argument of the operation that waits for them: the outcome of
  the wait, with the tokens of the events it reported.  The clock is read into the argument \<open>now\<close>.
  Execution stacks are an abstract type; \<open>mk_stack\<close> allocates one.
\<close>

unbundle bit_operations_syntax

section \<open>State\<close>

definition TICK_MS :: nat where "TICK_MS = 250"
definition MAX_RUNNERS :: nat where "MAX_RUNNERS = 20"

record ('s, 'k) poller_int =
  free_stacks :: "'k deque"
  pl_wheel :: "'s wheel"
  stack_size :: "nat option"
  pl_dns :: dns
  toexec_fibers :: "usize deque list"
  timedout_fibers :: "usize deque list"
  lookup_results :: "(usize \<times> usize \<times> ip_addr) deque list"

section \<open>Operations\<close>

text \<open>\<^verbatim>\<open>queues[i].push_back(x)\<close> and \<^verbatim>\<open>queues[i].pop_front()\<close> on an array of queues.\<close>

definition queue_push :: "'a deque list \<Rightarrow> nat \<Rightarrow> 'a \<Rightarrow> (unit, 'a deque list) res" where
  "queue_push qs i x = bindR (index qs i) (\<lambda>q. Ok (qs[i := push_back q x]))"

definition queue_pop :: "'a deque list \<Rightarrow> nat \<Rightarrow> 'a deque list \<times> (unit, 'a option) res" where
  "queue_pop qs i =
     bindS (lift qs (index qs i)) (\<lambda>qs q. let (x, q') = pop_front q in (qs[i := q'], Ok x))"

text \<open>
  \<^verbatim>\<open>PollerInt::new\<close>: \<open>poll_new\<close> is the outcome of \<^verbatim>\<open>mio::Poll::new\<close>, \<open>contents\<close> the text of the resolver
  configuration and \<open>now\<close> the instant at which the wheel is created.
\<close>

definition poller_int_new ::
  "('s, entry) slab_ops \<Rightarrow> nat option \<Rightarrow> (io_error, unit) res \<Rightarrow> ustr option \<Rightarrow> instant \<Rightarrow> (unit, ('s, 'k) poller_int) res"
where
  "poller_int_new sl ssize poll_new contents now =
     bindR (unwrapR poll_new) (\<lambda>_.
     bindR (wheel_new sl (tick_duration timer_builder_new (from_millis TICK_MS)) now) (\<lambda>w.
     bindR (unwrapR (dns_new contents)) (\<lambda>d.
     Ok \<lparr>free_stacks = [], pl_wheel = w, stack_size = ssize, pl_dns = d,
         toexec_fibers = replicate MAX_RUNNERS [], timedout_fibers = replicate MAX_RUNNERS [],
         lookup_results = replicate MAX_RUNNERS []\<rparr>)))"

definition split_id :: "usize \<Rightarrow> nat \<times> usize" where
  "split_id pos = (let runner = drop_bit 40 pos AND 255; pos = pos AND 0xFFFFFFFF in (unat runner, pos))"

text \<open>The three loops of \<^verbatim>\<open>poll\<close>.\<close>

fun poll_events :: "('s, 'k) poller_int \<Rightarrow> usize list \<Rightarrow> ('s, 'k) poller_int \<times> (unit, unit) res" where
  "poll_events p [] = (p, Ok ())"
| "poll_events p (ev # evs) =
     (let (runner, pos) = split_id ev in
      case queue_push (toexec_fibers p) runner pos of
        Ok qs \<Rightarrow> poll_events (p\<lparr>toexec_fibers := qs\<rparr>) evs
      | Err e \<Rightarrow> (p, Err e)
      | Panic \<Rightarrow> (p, Panic))"

partial_function (option) poll_timers ::
  "('s, entry) slab_ops \<Rightarrow> instant \<Rightarrow> bool \<Rightarrow> ('s, 'k) poller_int \<Rightarrow> (('s, 'k) poller_int \<times> (unit, bool) res) option"
where [code]:
  "poll_timers sl now smth p =
     (case wheel_poll sl (pl_wheel p) now of
        None \<Rightarrow> None
      | Some (w, Ok None) \<Rightarrow> Some (p\<lparr>pl_wheel := w\<rparr>, Ok smth)
      | Some (w, Ok (Some i)) \<Rightarrow>
          (let (runner, pos) = split_id i in
           case queue_push (timedout_fibers p) runner pos of
             Ok qs \<Rightarrow> poll_timers sl now True (p\<lparr>pl_wheel := w, timedout_fibers := qs\<rparr>)
           | Err e \<Rightarrow> Some (p\<lparr>pl_wheel := w\<rparr>, Err e)
           | Panic \<Rightarrow> Some (p\<lparr>pl_wheel := w\<rparr>, Panic))
      | Some (w, Err e) \<Rightarrow> Some (p\<lparr>pl_wheel := w\<rparr>, Err e)
      | Some (w, Panic) \<Rightarrow> Some (p\<lparr>pl_wheel := w\<rparr>, Panic))"

partial_function (option) poll_lookups ::
  "bool \<Rightarrow> ('s, 'k) poller_int \<Rightarrow> (('s, 'k) poller_int \<times> (unit, bool) res) option"
where [code]:
  "poll_lookups smth p =
     (case check_result (pl_dns p) of
        None \<Rightarrow> Some (p, Ok smth)
      | Some (i, gen, addr) \<Rightarrow>
          (let (runner, pos) = split_id i in
           case queue_push (lookup_results p) runner (pos, gen, addr) of
             Ok qs \<Rightarrow> poll_lookups True (p\<lparr>lookup_results := qs\<rparr>)
           | Err e \<Rightarrow> Some (p, Err e)
           | Panic \<Rightarrow> Some (p, Panic)))"

definition poller_poll ::
  "('s, entry) slab_ops \<Rightarrow> (io_error, usize list) res \<Rightarrow> instant \<Rightarrow> ('s, 'k) poller_int \<Rightarrow>
    (('s, 'k) poller_int \<times> (unit, bool) res) option" where
  "poller_poll sl evs now p =
     (case evs of
        Panic \<Rightarrow> Some (p, Panic)
      | Err _ \<Rightarrow> Some (p, Ok False)
      | Ok events \<Rightarrow>
          (let smth = (0 < length events) in
           case (if smth then poll_events p events else (p, Ok ())) of
             (p, Ok _) \<Rightarrow>
               (case poll_timers sl now smth p of
                  None \<Rightarrow> None
                | Some (p, Ok smth) \<Rightarrow> poll_lookups smth p
                | Some (p, Err e) \<Rightarrow> Some (p, Err e)
                | Some (p, Panic) \<Rightarrow> Some (p, Panic))
           | (p, Err e) \<Rightarrow> Some (p, Err e)
           | (p, Panic) \<Rightarrow> Some (p, Panic)))"

definition timer_reg ::
  "('s, entry) slab_ops \<Rightarrow> instant \<Rightarrow> ('s, 'k) poller_int \<Rightarrow> usize \<Rightarrow> duration option \<Rightarrow>
    ('s, 'k) poller_int \<times> (unit, token option) res" where
  "timer_reg sl now p i dur =
     (let dur = (case dur of Some d \<Rightarrow> d | None \<Rightarrow> from_millis TICK_MS);
          (w, r) = wheel_reserve sl (pl_wheel p); p = p\<lparr>pl_wheel := w\<rparr> in
      bindS (p, r) (\<lambda>p tk.
      case tk of
        None \<Rightarrow> (p, Ok None)
      | Some tk \<Rightarrow>
          bindS (lift p (instant_add now dur)) (\<lambda>p at.
          let (w, r) = set_timeout sl (pl_wheel p) tk at i in
          bindS (p\<lparr>pl_wheel := w\<rparr>, r) (\<lambda>p _. (p, Ok (Some tk))))))"

definition timer_cancel ::
  "('s, entry) slab_ops \<Rightarrow> ('s, 'k) poller_int \<Rightarrow> token \<Rightarrow> ('s, 'k) poller_int \<times> (unit, unit) res" where
  "timer_cancel sl p tk = (let (w, r) = wheel_cancel sl (pl_wheel p) tk in (p\<lparr>pl_wheel := w\<rparr>, r))"

definition dns_check ::
  "('s, 'k) poller_int \<Rightarrow> nat \<Rightarrow> ('s, 'k) poller_int \<times> (unit, (usize \<times> usize \<times> ip_addr) option) res" where
  "dns_check p pos = (let (qs, r) = queue_pop (lookup_results p) pos in (p\<lparr>lookup_results := qs\<rparr>, r))"

definition toexec_push :: "('s, 'k) poller_int \<Rightarrow> nat \<Rightarrow> usize \<Rightarrow> ('s, 'k) poller_int \<times> (unit, unit) res" where
  "toexec_push p runner fiber =
     bindS (lift p (queue_push (toexec_fibers p) runner fiber)) (\<lambda>p qs. (p\<lparr>toexec_fibers := qs\<rparr>, Ok ()))"

definition toexec_pop :: "('s, 'k) poller_int \<Rightarrow> nat \<Rightarrow> ('s, 'k) poller_int \<times> (unit, usize option) res" where
  "toexec_pop p runner = (let (qs, r) = queue_pop (toexec_fibers p) runner in (p\<lparr>toexec_fibers := qs\<rparr>, r))"

definition timedout_pop :: "('s, 'k) poller_int \<Rightarrow> nat \<Rightarrow> ('s, 'k) poller_int \<times> (unit, usize option) res" where
  "timedout_pop p runner = (let (qs, r) = queue_pop (timedout_fibers p) runner in (p\<lparr>timedout_fibers := qs\<rparr>, r))"

text \<open>
  \<^verbatim>\<open>stack_pop\<close>: a stack is allocated only when no free one is left; \<open>mk_stack None\<close> stands for
  \<^verbatim>\<open>ProtectedFixedSizeStack::default\<close>, \<open>mk_stack (Some n)\<close> for \<^verbatim>\<open>new(n)\<close>, whose error panics.
\<close>

definition stack_pop ::
  "(nat option \<Rightarrow> (unit, 'k) res) \<Rightarrow> ('s, 'k) poller_int \<Rightarrow> ('s, 'k) poller_int \<times> (unit, 'k) res" where
  "stack_pop mk_stack p =
     (case pop_front (free_stacks p) of
        (Some st, q) \<Rightarrow> (p\<lparr>free_stacks := q\<rparr>, Ok st)
      | (None, q) \<Rightarrow>
          (p\<lparr>free_stacks := q\<rparr>,
           if stack_size p = None then unwrapR (mk_stack None) else unwrapR (mk_stack (stack_size p))))"

definition stack_push :: "('s, 'k) poller_int \<Rightarrow> 'k \<Rightarrow> ('s, 'k) poller_int" where
  "stack_push p st = p\<lparr>free_stacks := push_front (free_stacks p) st\<rparr>"

section \<open>Delivery to the queues\<close>

text \<open>
  The positions that a sequence of fiber identifiers contributes to the queue of runner \<open>r\<close>, and an
  array of queues after the whole sequence has been delivered.
\<close>

definition for_runner :: "nat \<Rightarrow> usize list \<Rightarrow> usize list" where
  "for_runner r ids = map (\<lambda>i. snd (split_id i)) (filter (\<lambda>i. fst (split_id i) = r) ids)"

definition deliver :: "usize deque list \<Rightarrow> usize list \<Rightarrow> usize deque list" where
  "deliver qs ids = map (\<lambda>r. qs ! r @ for_runner r ids) [0..<length qs]"

definition addressable :: "usize \<Rightarrow> bool" where
  "addressable i \<longleftrightarrow> fst (split_id i) < MAX_RUNNERS"

lemma queue_push_in: "i < length qs \<Longrightarrow> queue_push qs i x = Ok (qs[i := qs ! i @ [x]])"
  by (simp add: queue_push_def index_in push_back_def)

lemma queue_pop_in:
  "i < length qs \<Longrightarrow> queue_pop qs i = (qs[i := snd (pop_front (qs ! i))], Ok (fst (pop_front (qs ! i))))"
  by (simp add: queue_pop_def index_in split_beta Let_def)

lemma length_queue_pop [simp]: "length (fst (queue_pop qs i)) = length qs"
  by (cases "i < length qs") (simp_all add: queue_pop_def index_def lift_def split_beta Let_def)

lemma length_deliver [simp]: "length (deliver qs ids) = length qs"
  by (simp add: deliver_def)

lemma deliver_Nil [simp]: "deliver qs [] = qs"
  by (simp add: deliver_def for_runner_def map_nth)

lemma deliver_Cons:
  "fst (split_id i) < length qs \<Longrightarrow>
   deliver (qs[fst (split_id i) := qs ! fst (split_id i) @ [snd (split_id i)]]) ids = deliver qs (i # ids)"
  by (rule nth_equalityI) (auto simp: deliver_def for_runner_def nth_list_update)

lemma poll_events_spec:
  assumes "\<forall>i \<in> set evs. addressable i" "length (toexec_fibers p) = MAX_RUNNERS"
  shows "poll_events p evs = (p\<lparr>toexec_fibers := deliver (toexec_fibers p) evs\<rparr>, Ok ())"
  using assms
proof (induction evs arbitrary: p)
  case (Cons i evs)
  obtain r pos where s: "split_id i = (r, pos)" by (cases "split_id i")
  have r: "r < length (toexec_fibers p)" using Cons.prems s by (simp add: addressable_def)
  have "poll_events p (i # evs) = poll_events (p\<lparr>toexec_fibers := (toexec_fibers p)[r := toexec_fibers p ! r @ [pos]]\<rparr>) evs"
    using s r by (simp add: queue_push_in)
  also have "\<dots> = (p\<lparr>toexec_fibers := deliver (toexec_fibers p) (i # evs)\<rparr>, Ok ())"
    using Cons.prems deliver_Cons [of i "toexec_fibers p" evs] s r by (subst Cons.IH) simp_all
  finally show ?case .
qed simp

lemma poll_lookups_none: "poll_lookups smth p = Some (p, Ok smth)"
  by (subst poll_lookups.simps) (simp add: check_result_def)

context wheel_slab
begin

lemma poll_timers_polls:
  assumes "wheel_timers.polls w now ts w'" "pl_wheel p = w" "\<forall>i \<in> set ts. addressable i"
    "length (timedout_fibers p) = MAX_RUNNERS"
  shows "poll_timers sl now smth p =
    Some (p\<lparr>pl_wheel := w', timedout_fibers := deliver (timedout_fibers p) ts\<rparr>, Ok (smth \<or> ts \<noteq> []))"
  using assms
proof (induction arbitrary: p smth rule: wheel_timers.polls.induct)
  case (polls_done w now w')
  then show ?case by (subst poll_timers.simps) simp
next
  case (polls_task w now w1 i ts w2)
  obtain r pos where s: "split_id i = (r, pos)" by (cases "split_id i")
  have r: "r < length (timedout_fibers p)" using polls_task.prems s by (simp add: addressable_def)
  let ?p = "p\<lparr>pl_wheel := w1, timedout_fibers := (timedout_fibers p)[r := timedout_fibers p ! r @ [pos]]\<rparr>"
  have "poll_timers sl now smth p = poll_timers sl now True ?p"
    using polls_task.hyps(1) polls_task.prems(1) s r by (subst poll_timers.simps) (simp add: queue_push_in)
  also have "\<dots> = Some (p\<lparr>pl_wheel := w2, timedout_fibers := deliver (timedout_fibers p) (i # ts)\<rparr>, Ok True)"
    using polls_task.prems deliver_Cons [of i "timedout_fibers p" ts] s r by (subst polls_task.IH) simp_all
  finally show ?case by simp
qed

end

section \<open>Invariant\<close>

text \<open>
  The wheel is well-formed and has the poller's configuration, there is a queue for each of the 20 runners,
  and every pending timer addresses one of them.
\<close>

definition poller_ok :: "('s, entry) slab_ops \<Rightarrow> ('s, 'k) poller_int \<Rightarrow> bool" where
  "poller_ok sl p \<longleftrightarrow>
     wheel_inv sl (pl_wheel p) \<and> w_tick_ms (pl_wheel p) = TICK_MS \<and> w_max_capacity (pl_wheel p) = 4194304 \<and>
     length (toexec_fibers p) = MAX_RUNNERS \<and> length (timedout_fibers p) = MAX_RUNNERS \<and>
     length (lookup_results p) = MAX_RUNNERS \<and>
     (\<forall>x t wh. timers sl (pl_wheel p) x = Some (t, wh) \<longrightarrow> addressable t)"

text \<open>The timers of a wheel that are due at an instant, and the tasks a multiset of tokens stands for.\<close>

definition due_timers :: "('s, entry) slab_ops \<Rightarrow> 's wheel \<Rightarrow> instant \<Rightarrow> token set" where
  "due_timers sl w at = {x. \<exists>t wh. timers sl w x = Some (t, wh) \<and> ticks_at w wh \<le> ticks_at w at}"

definition due_tasks :: "('s, entry) slab_ops \<Rightarrow> 's wheel \<Rightarrow> instant \<Rightarrow> usize multiset" where
  "due_tasks sl w at = image_mset (\<lambda>x. fst (the (timers sl w x))) (mset_set (due_timers sl w at))"

context wheel_slab
begin

lemma due_tokens_eq: "wheel_timers.due_tokens w at = due_timers sl w at"
  by (simp add: wheel_timers.due_tokens_def due_timers_def wheel_due_def)

lemma finite_due_timers: "finite (due_timers sl w at)"
  by (rule finite_subset [OF _ finite_pending [of w]]) (auto simp: due_timers_def)

lemma poller_int_new_ok:
  assumes "poller_int_new sl ssize poll_new contents now = Ok p" "clock_ok (pl_wheel p)"
  shows "poller_ok sl p" "timers sl (pl_wheel p) = Map.empty"
proof -
  from assms(1) obtain w where w: "wheel_new sl (tick_duration timer_builder_new (from_millis TICK_MS)) now = Ok w"
    "pl_wheel p = w" and q: "toexec_fibers p = replicate MAX_RUNNERS []" "timedout_fibers p = replicate MAX_RUNNERS []"
    "lookup_results p = replicate MAX_RUNNERS []"
    by (auto simp: poller_int_new_def outcome_simps)
  note new = wheel_new_inv [OF w(1) assms(2) [unfolded w(2)]]
  have "w_tick_ms w = TICK_MS" "w_max_capacity w = 4194304"
    using w(1) by (auto simp: wheel_new_def timer_config_defs millis_def TICK_MS_def from_millis_def as_secs_def
        subsec_nanos_def nanos_per_sec_def nanos_per_milli_def u64_max_def Let_def split: if_splits)
  with new w(2) q show "poller_ok sl p" "timers sl (pl_wheel p) = Map.empty" by (simp_all add: poller_ok_def)
qed

end

text \<open>
  When a timer can be registered: the wheel is within its capacity, and the instant asked for lies in the
  range of its tick counter.
\<close>

definition timer_at :: "instant \<Rightarrow> duration option \<Rightarrow> instant" where
  "timer_at now dur = Instant (nanos now + (case dur of Some d \<Rightarrow> d | None \<Rightarrow> from_millis TICK_MS))"

definition can_register :: "('s, entry) slab_ops \<Rightarrow> ('s, 'k) poller_int \<Rightarrow> instant \<Rightarrow> bool" where
  "can_register sl p at \<longleftrightarrow>
     slab_len sl (w_slab (pl_wheel p)) \<le> w_max_capacity (pl_wheel p) \<and> in_horizon (pl_wheel p) at \<and>
     nanos at < instant_limit \<and> w_cur_tick (pl_wheel p) + 1 < 2 ^ 32"

text \<open>Registering a timer looks at the wheel only and changes the wheel only.\<close>

lemma timer_reg_frame:
  assumes "pl_wheel q = pl_wheel p" "timer_reg sl now p i dur = (p', r)"
  shows "timer_reg sl now q i dur = (q\<lparr>pl_wheel := pl_wheel p'\<rparr>, r)"
proof -
  let ?d = "case dur of Some d \<Rightarrow> d | None \<Rightarrow> from_millis TICK_MS"
  obtain w1 r1 where r1: "wheel_reserve sl (pl_wheel p) = (w1, r1)" by (cases "wheel_reserve sl (pl_wheel p)")
  consider (stop) "\<nexists>tk. r1 = Ok (Some tk)" | (arm) tk at where "r1 = Ok (Some tk)" "instant_add now ?d = (Ok at :: (unit, instant) res)"
    | (bad) tk where "r1 = Ok (Some tk)" "\<nexists>at. instant_add now ?d = (Ok at :: (unit, instant) res)"
    by blast
  then show ?thesis
  proof cases
    case stop
    then show ?thesis using assms r1 by (cases r1) (auto simp: timer_reg_def split: option.splits)
  next
    case arm
    obtain w2 r2 where "set_timeout sl w1 tk at i = (w2, r2)" by (cases "set_timeout sl w1 tk at i")
    then show ?thesis using assms r1 arm by (cases r2) (auto simp: timer_reg_def lift_def)
  next
    case bad
    then show ?thesis
      using assms r1 by (cases "instant_add now ?d :: (unit, instant) res") (auto simp: timer_reg_def lift_def)
  qed
qed

context wheel_slab
begin

lemma polls_config:
  assumes "wheel_timers.polls w now ts w'" "wheel_inv sl w" "in_horizon w now"
  shows "w_start w' = w_start w \<and> w_tick_ms w' = w_tick_ms w \<and> w_max_capacity w' = w_max_capacity w"
  using assms
proof (induction rule: wheel_timers.polls.induct)
  case (polls_done w now w')
  then show ?case using wheel_poll_inv [of w now] by auto
next
  case (polls_task w now w1 t ts w2)
  from wheel_poll_inv [OF polls_task.prems] polls_task.hyps(1) have w1: "wheel_inv sl w1" "w_start w1 = w_start w"
    "w_tick_ms w1 = w_tick_ms w" "w_max_capacity w1 = w_max_capacity w" by auto
  moreover have "in_horizon w1 now" using polls_task.prems(2) clock_cong [OF w1(2,3)] by simp
  ultimately show ?case using polls_task.IH by simp
qed

lemma poller_poll_spec:
  assumes ok: "poller_ok sl p" and now: "in_horizon (pl_wheel p) now" and evs: "\<forall>i \<in> set evs. addressable i"
  shows "\<exists>w' ts. wheel_inv sl w' \<and> mset ts = due_tasks sl (pl_wheel p) now \<and>
    timers sl w' = timers sl (pl_wheel p) |` (- due_timers sl (pl_wheel p) now) \<and>
    w_start w' = w_start (pl_wheel p) \<and> w_tick_ms w' = w_tick_ms (pl_wheel p) \<and>
    w_max_capacity w' = w_max_capacity (pl_wheel p) \<and>
    poller_poll sl (Ok evs) now p =
      Some (p\<lparr>pl_wheel := w', toexec_fibers := deliver (toexec_fibers p) evs,
              timedout_fibers := deliver (timedout_fibers p) ts\<rparr>,
            Ok (evs \<noteq> [] \<or> due_timers sl (pl_wheel p) now \<noteq> {}))"
proof -
  let ?w = "pl_wheel p"
  have inv: "wheel_inv sl ?w" and rdy: "wheel_ready ?w now"
    and len: "length (toexec_fibers p) = MAX_RUNNERS" "length (timedout_fibers p) = MAX_RUNNERS"
    using ok now by (simp_all add: poller_ok_def wheel_ready_def)
  from wheel_timers.polls_all [OF inv rdy] obtain ts w' where
    run: "wheel_timers.polls ?w now ts w'" and inv': "wheel_inv sl w'" and
    ts: "mset ts = image_mset (wheel_timers.task_of ?w) (mset_set (wheel_timers.due_tokens ?w now))" and
    tm: "timers sl w' = timers sl ?w |` (- wheel_timers.due_tokens ?w now)" by blast
  have ts': "mset ts = due_tasks sl ?w now"
    using ts by (simp add: due_tasks_def due_tokens_eq wheel_timers.task_of_def [abs_def])
  have conf: "w_start w' = w_start ?w \<and> w_tick_ms w' = w_tick_ms ?w \<and> w_max_capacity w' = w_max_capacity ?w"
    using polls_config [OF run inv now] .
  have "set ts = set_mset (due_tasks sl ?w now)" using ts' by (metis set_mset_mset)
  then have addr: "\<forall>i \<in> set ts. addressable i"
    using ok finite_due_timers [of ?w now] by (auto simp: due_tasks_def due_timers_def poller_ok_def) blast
  have ne: "ts \<noteq> [] \<longleftrightarrow> due_timers sl ?w now \<noteq> {}"
  proof -
    have "ts = [] \<longleftrightarrow> due_tasks sl ?w now = {#}" using ts' by (metis mset_zero_iff)
    then show ?thesis using finite_due_timers [of ?w now] by (simp add: due_tasks_def mset_set_empty_iff)
  qed
  let ?p = "p\<lparr>toexec_fibers := deliver (toexec_fibers p) evs\<rparr>"
  have "poll_timers sl now (evs \<noteq> []) ?p =
      Some (?p\<lparr>pl_wheel := w', timedout_fibers := deliver (timedout_fibers p) ts\<rparr>, Ok (evs \<noteq> [] \<or> ts \<noteq> []))"
    using poll_timers_polls [OF run, of ?p "evs \<noteq> []"] addr len by simp
  then have "poller_poll sl (Ok evs) now p =
      Some (?p\<lparr>pl_wheel := w', timedout_fibers := deliver (timedout_fibers p) ts\<rparr>, Ok (evs \<noteq> [] \<or> ts \<noteq> []))"
    using poll_events_spec [OF evs len(1)]
    by (cases "evs = []") (simp_all add: poller_poll_def poll_lookups_none)
  with inv' ts' conf tm ne show ?thesis
    by (intro exI [of _ w'] exI [of _ ts]) (simp add: due_tokens_eq)
qed

lemma timer_reg_spec:
  assumes ok: "poller_ok sl p" and i: "addressable i"
    and can: "can_register sl p (timer_at now dur)"
  defines "k \<equiv> max (ticks_at (pl_wheel p) (timer_at now dur)) (w_cur_tick (pl_wheel p) + 1)"
  shows "\<exists>w' r. timer_reg sl now p i dur = (p\<lparr>pl_wheel := w'\<rparr>, Ok r) \<and> poller_ok sl (p\<lparr>pl_wheel := w'\<rparr>) \<and>
    w_start w' = w_start (pl_wheel p) \<and>
    (case r of
       None \<Rightarrow> w' = pl_wheel p \<and> (slab_len sl (w_slab (pl_wheel p)) = 0 \<or> slab_len sl (w_slab (pl_wheel p)) = 4194304)
     | Some tk \<Rightarrow> slab_get sl (w_slab (pl_wheel p)) tk = None \<and>
         timers sl w' = (timers sl (pl_wheel p))(tk \<mapsto> (i, tick_instant (pl_wheel p) k)))"
proof -
  let ?w = "pl_wheel p" and ?at = "timer_at now dur"
  have len: "slab_len sl (w_slab ?w) \<le> w_max_capacity ?w" and hor: "in_horizon ?w ?at" "nanos ?at < instant_limit"
    and room: "w_cur_tick ?w + 1 < 2 ^ 32"
    using can by (simp_all add: can_register_def)
  have inv: "wheel_inv sl ?w" and cap: "w_max_capacity ?w = 4194304" using ok by (simp_all add: poller_ok_def)
  have cap': "w_max_capacity ?w \<le> isize_max" by (simp add: cap isize_max_def)
  from wheel_reserve_inv [OF inv len cap'] obtain w1 r where w1: "wheel_reserve sl ?w = (w1, Ok r)" "wheel_inv sl w1"
    "timers sl w1 = timers sl ?w" "w_cur_tick w1 = w_cur_tick ?w" "w_start w1 = w_start ?w" "w_tick_ms w1 = w_tick_ms ?w"
    "w_max_capacity w1 = w_max_capacity ?w" and
    r: "case r of Some k \<Rightarrow> slab_get sl (w_slab ?w) k = None \<and> slab_get sl (w_slab w1) k = Some Reserved
     | None \<Rightarrow> w1 = ?w \<and> (slab_len sl (w_slab ?w) = 0 \<or> slab_len sl (w_slab ?w) = w_max_capacity ?w)"
    by blast
  show ?thesis
  proof (cases r)
    case None
    then show ?thesis using w1(1) r ok cap by (intro exI [of _ ?w] exI [of _ None]) (simp add: timer_reg_def)
  next
    case (Some tk)
    note clk = clock_cong [OF w1(5,6)]
    have "slab_get sl (w_slab w1) tk = Some Reserved" using r Some by simp
    moreover have "in_horizon w1 ?at" using hor(1) clk by simp
    ultimately obtain w2 where w2: "set_timeout sl w1 tk ?at i = (w2, Ok ())" "wheel_inv sl w2"
      "timers sl w2 = (timers sl w1)(tk \<mapsto> (i, tick_instant w1 (max (ticks_at w1 ?at) (w_cur_tick w1 + 1))))"
      "w_start w2 = w_start w1" "w_tick_ms w2 = w_tick_ms w1" "w_max_capacity w2 = w_max_capacity w1"
      using set_timeout_inv [OF w1(2), of tk ?at i] room w1(4) by auto
    have "(instant_add now (case dur of Some d \<Rightarrow> d | None \<Rightarrow> from_millis TICK_MS) :: (unit, instant) res) = Ok ?at"
      using hor(2) by (simp add: instant_add_def timer_at_def Let_def)
    then have "timer_reg sl now p i dur = (p\<lparr>pl_wheel := w2\<rparr>, Ok (Some tk))"
      using w1(1) w2(1) Some by (simp add: timer_reg_def)
    moreover have "timers sl w2 = (timers sl ?w)(tk \<mapsto> (i, tick_instant ?w k))"
      using w2(3) w1(3,4) clk by (simp add: k_def)
    moreover from this have "poller_ok sl (p\<lparr>pl_wheel := w2\<rparr>)"
      using ok w2(2,5,6) w1(6,7) i by (auto simp: poller_ok_def)
    ultimately show ?thesis using r Some w2(4) w1(5) by (intro exI [of _ w2] exI [of _ "Some tk"]) simp
  qed
qed

lemma timer_cancel_spec:
  assumes "poller_ok sl p"
  shows "\<exists>w'. timer_cancel sl p tk = (p\<lparr>pl_wheel := w'\<rparr>, Ok ()) \<and> poller_ok sl (p\<lparr>pl_wheel := w'\<rparr>) \<and>
    timers sl w' = (timers sl (pl_wheel p))(tk := None)"
proof -
  have "wheel_inv sl (pl_wheel p)" using assms by (simp add: poller_ok_def)
  from wheel_cancel_inv [OF this, of tk] obtain w' where "wheel_cancel sl (pl_wheel p) tk = (w', Ok ())" "wheel_inv sl w'"
    "timers sl w' = (timers sl (pl_wheel p))(tk := None)" "w_tick_ms w' = w_tick_ms (pl_wheel p)"
    "w_max_capacity w' = w_max_capacity (pl_wheel p)" by blast
  then show ?thesis using assms
    by (intro exI [of _ w']) (auto simp: timer_cancel_def poller_ok_def split: if_splits)
qed

end

section \<open>Reachable pollers\<close>

text \<open>
  The pollers a program can get to: identifiers handed to \<^verbatim>\<open>mio\<close> and to the wheel name one of the runners,
  as \<^verbatim>\<open>RunnerInt::fiber_id\<close> makes them.
\<close>

inductive poller_reach :: "('s, entry) slab_ops \<Rightarrow> ('s, 'k) poller_int \<Rightarrow> bool" for sl where
  poller_new: "poller_int_new sl ssize pn contents now = Ok p \<Longrightarrow> clock_ok (pl_wheel p) \<Longrightarrow> poller_reach sl p"
| poller_poll: "poller_reach sl p \<Longrightarrow> in_horizon (pl_wheel p) now \<Longrightarrow> \<forall>i \<in> set evs. addressable i \<Longrightarrow>
    poller_poll sl (Ok evs) now p = Some (p', r) \<Longrightarrow> poller_reach sl p'"
| poller_reg: "poller_reach sl p \<Longrightarrow> addressable i \<Longrightarrow> can_register sl p (timer_at now dur) \<Longrightarrow>
    timer_reg sl now p i dur = (p', r) \<Longrightarrow> poller_reach sl p'"
| poller_cancel: "poller_reach sl p \<Longrightarrow> timer_cancel sl p tk = (p', r) \<Longrightarrow> poller_reach sl p'"
| poller_push: "poller_reach sl p \<Longrightarrow> toexec_push p n f = (p', r) \<Longrightarrow> poller_reach sl p'"
| poller_pop: "poller_reach sl p \<Longrightarrow> toexec_pop p n = (p', x) \<Longrightarrow> poller_reach sl p'"
| poller_timedout: "poller_reach sl p \<Longrightarrow> timedout_pop p n = (p', x) \<Longrightarrow> poller_reach sl p'"
| poller_dns: "poller_reach sl p \<Longrightarrow> dns_check p n = (p', y) \<Longrightarrow> poller_reach sl p'"
| poller_stack_pop: "poller_reach sl p \<Longrightarrow> stack_pop mk p = (p', z) \<Longrightarrow> poller_reach sl p'"
| poller_stack_push: "poller_reach sl p \<Longrightarrow> poller_reach sl (stack_push p st)"

lemma poller_ok_queues:
  assumes "poller_ok sl p" "pl_wheel p' = pl_wheel p" "length (toexec_fibers p') = length (toexec_fibers p)"
    "length (timedout_fibers p') = length (timedout_fibers p)" "length (lookup_results p') = length (lookup_results p)"
  shows "poller_ok sl p'"
  using assms by (simp add: poller_ok_def)

lemma queue_ops_keep:
  "toexec_push p n f = (p', r) \<Longrightarrow> pl_wheel p' = pl_wheel p \<and> length (toexec_fibers p') = length (toexec_fibers p) \<and>
    timedout_fibers p' = timedout_fibers p \<and> lookup_results p' = lookup_results p"
  "toexec_pop p n = (p', x) \<Longrightarrow> pl_wheel p' = pl_wheel p \<and> length (toexec_fibers p') = length (toexec_fibers p) \<and>
    timedout_fibers p' = timedout_fibers p \<and> lookup_results p' = lookup_results p"
  "timedout_pop p n = (p', x) \<Longrightarrow> pl_wheel p' = pl_wheel p \<and> toexec_fibers p' = toexec_fibers p \<and>
    length (timedout_fibers p') = length (timedout_fibers p) \<and> lookup_results p' = lookup_results p"
  "dns_check p n = (p', y) \<Longrightarrow> pl_wheel p' = pl_wheel p \<and> toexec_fibers p' = toexec_fibers p \<and>
    timedout_fibers p' = timedout_fibers p \<and> length (lookup_results p') = length (lookup_results p)"
  "stack_pop mk p = (p', z) \<Longrightarrow> pl_wheel p' = pl_wheel p \<and> toexec_fibers p' = toexec_fibers p \<and>
    timedout_fibers p' = timedout_fibers p \<and> lookup_results p' = lookup_results p"
  by (auto simp: toexec_push_def toexec_pop_def timedout_pop_def dns_check_def stack_pop_def queue_push_def index_def
      lift_def split_beta split: if_splits option.splits prod.splits)

context wheel_slab
begin

lemma poller_reach_ok: "poller_reach sl p \<Longrightarrow> poller_ok sl p"
proof (induction rule: poller_reach.induct)
  case (poller_new ssize pn contents now p)
  then show ?case by (rule poller_int_new_ok)
next
  case (poller_poll p now evs p' r)
  from poller_poll_spec [OF poller_poll.IH poller_poll.hyps(2,3)] poller_poll.hyps(4) obtain w' ts where
    "wheel_inv sl w'" "timers sl w' = timers sl (pl_wheel p) |` (- due_timers sl (pl_wheel p) now)"
    "w_tick_ms w' = w_tick_ms (pl_wheel p)" "w_max_capacity w' = w_max_capacity (pl_wheel p)"
    "p' = p\<lparr>pl_wheel := w', toexec_fibers := deliver (toexec_fibers p) evs,
            timedout_fibers := deliver (timedout_fibers p) ts\<rparr>" by auto
  then show ?case using poller_poll.IH by (auto simp: poller_ok_def restrict_map_def split: if_splits)
next
  case (poller_reg p i now dur p' r)
  from timer_reg_spec [OF poller_reg.IH poller_reg.hyps(2,3)] poller_reg.hyps(4) show ?case by auto
next
  case (poller_cancel p tk p' r)
  from timer_cancel_spec [OF poller_cancel.IH, of tk] poller_cancel.hyps(2) show ?case by auto
next
  case (poller_stack_push p st)
  then show ?case by (simp add: stack_push_def poller_ok_def)
qed (auto dest!: queue_ops_keep intro: poller_ok_queues)

end

text \<open>When a registered timer is due.\<close>

lemma ticks_at_mono: "nanos a \<le> nanos b \<Longrightarrow> ticks_at w a \<le> ticks_at w b"
  by (simp add: ticks_at_def div_le_mono)

lemma ticks_at_less:
  assumes "clock_ok w" "nanos (w_start w) \<le> nanos a" "nanos a + tick_nanos w \<le> nanos b"
  shows "ticks_at w a < ticks_at w b"
proof -
  have "ticks_at w a + 1 = (nanos a - nanos (w_start w) + tick_nanos w) div tick_nanos w"
    using tick_nanos_pos [OF assms(1)] by (simp add: ticks_at_def div_add_self2)
  also have "\<dots> \<le> ticks_at w b" unfolding ticks_at_def using assms(2,3) by (intro div_le_mono) linarith
  finally show ?thesis by simp
qed

lemma deliver_has:
  assumes "i \<in> set ids" "fst (split_id i) < length qs"
  shows "snd (split_id i) \<in> set (deliver qs ids ! fst (split_id i))"
  using assms by (auto simp: deliver_def for_runner_def)

section \<open>Waiting for a timer\<close>

text \<open>
  What a program may do with a poller while the timer \<open>tk\<close>, which fires at \<open>due\<close>, waits: everything but cancel it or poll at
  \<open>due\<close> or later.
\<close>

inductive waits :: "('s, entry) slab_ops \<Rightarrow> token \<Rightarrow> instant \<Rightarrow> ('s, 'k) poller_int \<Rightarrow> ('s, 'k) poller_int \<Rightarrow> bool"
  for sl tk due p where
  waits_start: "waits sl tk due p p"
| waits_poll: "waits sl tk due p p1 \<Longrightarrow> in_horizon (pl_wheel p1) now \<Longrightarrow> now < due \<Longrightarrow> \<forall>i \<in> set evs. addressable i \<Longrightarrow>
    poller_poll sl (Ok evs) now p1 = Some (p2, r) \<Longrightarrow> waits sl tk due p p2"
| waits_reg: "waits sl tk due p p1 \<Longrightarrow> addressable i \<Longrightarrow> can_register sl p1 (timer_at now dur) \<Longrightarrow>
    timer_reg sl now p1 i dur = (p2, r) \<Longrightarrow> waits sl tk due p p2"
| waits_cancel: "waits sl tk due p p1 \<Longrightarrow> tk' \<noteq> tk \<Longrightarrow> timer_cancel sl p1 tk' = (p2, r) \<Longrightarrow> waits sl tk due p p2"
| waits_push: "waits sl tk due p p1 \<Longrightarrow> toexec_push p1 n f = (p2, r) \<Longrightarrow> waits sl tk due p p2"
| waits_pop: "waits sl tk due p p1 \<Longrightarrow> toexec_pop p1 n = (p2, x) \<Longrightarrow> waits sl tk due p p2"
| waits_timedout: "waits sl tk due p p1 \<Longrightarrow> timedout_pop p1 n = (p2, x) \<Longrightarrow> waits sl tk due p p2"
| waits_dns: "waits sl tk due p p1 \<Longrightarrow> dns_check p1 n = (p2, y) \<Longrightarrow> waits sl tk due p p2"
| waits_stack_pop: "waits sl tk due p p1 \<Longrightarrow> stack_pop mk p1 = (p2, z) \<Longrightarrow> waits sl tk due p p2"
| waits_stack_push: "waits sl tk due p p1 \<Longrightarrow> waits sl tk due p (stack_push p1 st)"

text \<open>What stays while the timer waits.\<close>

definition pending :: "('s, entry) slab_ops \<Rightarrow> token \<Rightarrow> usize \<Rightarrow> instant \<Rightarrow> ('s, 'k) poller_int \<Rightarrow> bool" where
  "pending sl tk i due p \<longleftrightarrow> poller_ok sl p \<and> timers sl (pl_wheel p) tk = Some (i, due)"

lemma pending_queues:
  assumes "pending sl tk i due p1" "pl_wheel p2 = pl_wheel p1" "length (toexec_fibers p2) = length (toexec_fibers p1)"
    "length (timedout_fibers p2) = length (timedout_fibers p1)" "length (lookup_results p2) = length (lookup_results p1)"
  shows "pending sl tk i due p2"
  using assms poller_ok_queues [of sl p1 p2] by (simp add: pending_def)

lemma poller_ok_clock: "poller_ok sl p \<Longrightarrow> clock_ok (pl_wheel p)"
  by (auto simp: poller_ok_def wheel_inv_def dest: wheel_wfD(1))

context wheel_slab
begin

lemma pending_poll:
  assumes "pending sl tk i due p1" "in_horizon (pl_wheel p1) now" "now < due" "\<forall>i \<in> set evs. addressable i"
    and "poller_poll sl (Ok evs) now p1 = Some (p2, r)"
  shows "pending sl tk i due p2"
proof -
  have ok: "poller_ok sl p1" and tm: "timers sl (pl_wheel p1) tk = Some (i, due)"
    using assms(1) by (simp_all add: pending_def)
  note ck = poller_ok_clock [OF ok]
  obtain k where k: "due = tick_instant (pl_wheel p1) k" using wheel_inv_ticks [OF _ tm] ok by (auto simp: poller_ok_def)
  have nd: "tk \<notin> due_timers sl (pl_wheel p1) now"
    using tm less_tick_instant [OF ck assms(2), of k] ck assms(3) k by (auto simp: due_timers_def)
  from poller_poll_spec [OF ok assms(2,4)] assms(5) obtain w' ts where w': "wheel_inv sl w'"
    "timers sl w' = timers sl (pl_wheel p1) |` (- due_timers sl (pl_wheel p1) now)"
    "w_tick_ms w' = w_tick_ms (pl_wheel p1)" "w_max_capacity w' = w_max_capacity (pl_wheel p1)"
    "p2 = p1\<lparr>pl_wheel := w', toexec_fibers := deliver (toexec_fibers p1) evs, timedout_fibers := deliver (timedout_fibers p1) ts\<rparr>"
    by auto
  then show ?thesis using ok tm nd by (auto simp: pending_def poller_ok_def restrict_map_def split: if_splits)
qed

lemma waits_pending:
  assumes "waits sl tk due p p'" "pending sl tk i due p"
  shows "pending sl tk i due p'"
  using assms
proof (induction rule: waits.induct)
  case (waits_poll p1 now evs p2 r)
  then show ?case using pending_poll by blast
next
  case (waits_reg p1 j now dur p2 r)
  then have pe: "pending sl tk i due p1" by blast
  then have ok: "poller_ok sl p1" and tm: "timers sl (pl_wheel p1) tk = Some (i, due)" by (simp_all add: pending_def)
  have "slab_get sl (w_slab (pl_wheel p1)) tk \<noteq> None" using tm by (auto simp: timers_def split: option.splits)
  then show ?case using timer_reg_spec [OF ok waits_reg.hyps(2,3)] waits_reg.hyps(4) pe
    by (auto simp: pending_def split: option.splits)
next
  case (waits_cancel p1 tk' p2 r)
  then have pe: "pending sl tk i due p1" by blast
  then show ?case using timer_cancel_spec [of p1 tk'] waits_cancel.hyps(2,3) by (auto simp: pending_def)
next
  case (waits_stack_push p1 st)
  then show ?case by (auto simp: stack_push_def intro: pending_queues)
qed (auto dest!: queue_ops_keep intro: pending_queues)

text \<open>The poll that finds the timer due, or not yet.\<close>

lemma pending_polled:
  assumes "pending sl tk i due p1" "addressable i" "in_horizon (pl_wheel p1) now" "\<forall>i \<in> set evs. addressable i"
  shows "\<exists>p2 smth. poller_poll sl (Ok evs) now p1 = Some (p2, Ok smth) \<and>
    (if due \<le> now
     then timers sl (pl_wheel p2) tk = None \<and> snd (split_id i) \<in> set (timedout_fibers p2 ! fst (split_id i))
     else timers sl (pl_wheel p2) tk = Some (i, due))"
proof -
  have ok: "poller_ok sl p1" and tm: "timers sl (pl_wheel p1) tk = Some (i, due)"
    using assms(1) by (simp_all add: pending_def)
  note ck = poller_ok_clock [OF ok]
  obtain k where k: "due = tick_instant (pl_wheel p1) k" using wheel_inv_ticks [OF _ tm] ok by (auto simp: poller_ok_def)
  have due: "tk \<in> due_timers sl (pl_wheel p1) now \<longleftrightarrow> due \<le> now"
    using tm less_tick_instant [OF ck assms(3), of k] ck k by (simp add: due_timers_def)
  from poller_poll_spec [OF ok assms(3,4)] obtain w' ts where
    ts: "mset ts = due_tasks sl (pl_wheel p1) now" and
    tm': "timers sl w' = timers sl (pl_wheel p1) |` (- due_timers sl (pl_wheel p1) now)" and
    poll: "poller_poll sl (Ok evs) now p1 = Some (p1\<lparr>pl_wheel := w', toexec_fibers := deliver (toexec_fibers p1) evs,
      timedout_fibers := deliver (timedout_fibers p1) ts\<rparr>, Ok (evs \<noteq> [] \<or> due_timers sl (pl_wheel p1) now \<noteq> {}))" by blast
  have "snd (split_id i) \<in> set (deliver (timedout_fibers p1) ts ! fst (split_id i))" if "due \<le> now"
  proof -
    have "i \<in># due_tasks sl (pl_wheel p1) now"
      using that due finite_due_timers [of "pl_wheel p1" now] tm by (auto simp: due_tasks_def intro!: rev_image_eqI)
    then have "i \<in> set ts" using ts by (metis set_mset_mset)
    then show ?thesis using deliver_has [of i ts "timedout_fibers p1"] assms(2) ok by (simp add: poller_ok_def addressable_def)
  qed
  then show ?thesis using poll tm tm' due by (intro exI conjI) (auto simp: restrict_map_def)
qed

lemma timer_reg_pending:
  assumes "poller_ok sl p" "addressable i" "can_register sl p (timer_at now dur)" "timer_reg sl now p i dur = (p', Ok (Some tk))"
  shows "pending sl tk i (fires_at (pl_wheel p) (timer_at now dur)) p'"
  using timer_reg_spec [OF assms(1-3)] assms(4) by (auto simp: pending_def fires_at_def)

end

lemma timer_after_waits:
  assumes "slab sl" and "poller_reach sl p" and "addressable i" and "can_register sl p (timer_at now dur)"
    and "timer_reg sl now p i dur = (p', Ok (Some tk))" and "waits sl tk (fires_at (pl_wheel p) (timer_at now dur)) p' p1"
    and "in_horizon (pl_wheel p1) now'" and "\<forall>i \<in> set evs. addressable i"
  shows "\<exists>p2 smth. poller_poll sl (Ok evs) now' p1 = Some (p2, Ok smth) \<and>
    (if fires_at (pl_wheel p) (timer_at now dur) \<le> now'
     then timers sl (pl_wheel p2) tk = None \<and> snd (split_id i) \<in> set (timedout_fibers p2 ! fst (split_id i))
     else timers sl (pl_wheel p2) tk = Some (i, fires_at (pl_wheel p) (timer_at now dur)))"
proof -
  note ws = wheel_slab.intro [OF assms(1)]
  have "poller_ok sl p" by (rule wheel_slab.poller_reach_ok [OF ws assms(2)])
  from wheel_slab.timer_reg_pending [OF ws this assms(3-5)]
  show ?thesis
    by (intro wheel_slab.pending_polled [OF ws wheel_slab.waits_pending [OF ws assms(6)] assms(3,7,8)])
qed

section \<open>Properties\<close>

text \<open>
  C20: every reachable poller satisfies its invariant: the wheel is well-formed with ticks of 250 ms, each of the
  20 runners has its queues, and every pending timer names one of these runners.
\<close>

theorem reachable_poller_ok:
  assumes "slab sl" and "poller_reach sl p"
  shows "poller_ok sl p"
  using wheel_slab.poller_reach_ok [OF wheel_slab.intro] assms by blast

definition ex_poller :: "(entry vec_slab, nat) poller_int" where
  "ex_poller =
     \<lparr>free_stacks = [],
      pl_wheel =
        \<lparr>w_slots = replicate 4096 \<lparr>sl_head = EMPTY, sl_next = None\<rparr>, w_slab = \<lparr>cells = [], capacity = 256\<rparr>,
         w_start = Instant 0, w_cur_tick = 0, w_cur_idx = EMPTY, w_max_capacity = 4194304, w_tick_ms = 250,
         w_mask = 4095\<rparr>,
      stack_size = None, pl_dns = \<lparr>srvs = []\<rparr>, toexec_fibers = replicate MAX_RUNNERS [],
      timedout_fibers = replicate MAX_RUNNERS [], lookup_results = replicate MAX_RUNNERS []\<rparr>"

text \<open>The fiber identifier for runner 2 and position 5, and that fiber with a timer of one second.\<close>

definition ex_id :: usize where "ex_id = 5 OR push_bit 40 2"

definition ex_timer :: "(entry vec_slab, nat) poller_int" where
  "ex_timer = fst (timer_reg vec_slab_ops (Instant 0) ex_poller ex_id (Some 1000000000))"

lemma ex_id_split: "split_id ex_id = (2, 5)" "addressable ex_id"
  by (simp_all add: split_id_def ex_id_def addressable_def MAX_RUNNERS_def)

lemma ex_poller_new: "poller_int_new vec_slab_ops None (Ok ()) (Some []) (Instant 0) = Ok ex_poller"
  by (simp add: ex_poller_def poller_int_new_def dns_new_def get_dns_servers_def resolv_parse_def str_lines_def
      map_filter_def wheel_new_def timer_config_defs millis_def TICK_MS_def from_millis_def as_secs_def subsec_nanos_def
      nanos_per_sec_def nanos_per_milli_def u64_max_def vec_slab_ops_def Let_def)

lemma ex_poller_wheel:
  "w_start (pl_wheel ex_poller) = Instant 0" "w_tick_ms (pl_wheel ex_poller) = 250" "w_cur_tick (pl_wheel ex_poller) = 0"
  "w_max_capacity (pl_wheel ex_poller) = 4194304" "w_slab (pl_wheel ex_poller) = \<lparr>cells = [], capacity = 256\<rparr>"
  by (simp_all add: ex_poller_def)

lemma ex_poller_horizon: "n < 2 ^ 53 \<Longrightarrow> in_horizon (pl_wheel ex_poller) (Instant n)"
  by (simp add: in_horizon_def ex_poller_wheel tick_nanos_def nanos_per_milli_def)

lemma ex_poller_can: "can_register vec_slab_ops ex_poller (timer_at (Instant 0) (Some 1000000000))"
  by (simp add: can_register_def ex_poller_wheel ex_poller_horizon timer_at_def instant_limit_def nanos_per_sec_def
      vec_slab_ops_def filled_def)

lemma ex_poller_reach: "poller_reach vec_slab_ops ex_poller" "poller_reach vec_slab_ops ex_timer"
proof -
  have "clock_ok (pl_wheel ex_poller)"
    by (simp add: clock_ok_def ex_poller_wheel tick_nanos_def nanos_per_milli_def nanos_per_sec_def)
  then show r: "poller_reach vec_slab_ops ex_poller" by (rule poller_reach.poller_new [OF ex_poller_new])
  show "poller_reach vec_slab_ops ex_timer"
    unfolding ex_timer_def
    by (rule poller_reach.poller_reg [OF r ex_id_split(2) ex_poller_can]) (rule prod.collapse [symmetric])
qed

lemma ex_reg_some:
  assumes "addressable i"
  shows "\<exists>w' tk. timer_reg vec_slab_ops (Instant 0) ex_poller i (Some 1000000000) = (ex_poller\<lparr>pl_wheel := w'\<rparr>, Ok (Some tk)) \<and>
    in_horizon w' (Instant 1000000000)"
proof -
  obtain w' r where w': "timer_reg vec_slab_ops (Instant 0) ex_poller i (Some 1000000000) = (ex_poller\<lparr>pl_wheel := w'\<rparr>, Ok r)"
    "w_start w' = Instant 0" "w_tick_ms w' = 250"
    using vec_wheel.timer_reg_spec [OF vec_wheel.poller_reach_ok [OF ex_poller_reach(1)] assms ex_poller_can]
      ex_poller_wheel(1) by (auto simp: poller_ok_def TICK_MS_def)
  have "\<exists>w tk. wheel_reserve vec_slab_ops (pl_wheel ex_poller) = (w, Ok (Some tk))"
    by (simp add: wheel_reserve_def ex_poller_wheel vec_slab_ops_def vec_vacant_def isize_max_def)
  then have "r \<noteq> None" using w' by (auto simp: timer_reg_def bindS_Ok_iff split_beta)
  with w' show ?thesis by (auto simp: in_horizon_def tick_nanos_def nanos_per_milli_def)
qed

lemma ex_due:
  "timer_at (Instant 0) (Some 1000000000) \<le> Instant 1000000000"
  "tick_instant (pl_wheel ex_poller) (w_cur_tick (pl_wheel ex_poller) + 1) \<le> Instant 1000000000"
  by (simp_all add: timer_at_def tick_instant_def ex_poller_wheel tick_nanos_def nanos_per_milli_def)

theorem reachable_poller_ok_witness: "poller_ok vec_slab_ops ex_timer"
  by (rule reachable_poller_ok [OF vec_slab.slab_axioms ex_poller_reach(2)])

text \<open>
  C3: \<^verbatim>\<open>PollerInt::poll\<close> on a reachable poller ends, does not panic, and delivers exactly what happened.  Every
  socket event is appended, in order, to the run queue of the runner its token names; the identifiers of exactly
  the due timers, each once, are appended to the timeout queues of their runners and these timers are gone; all
  else stays as it was; and the result says whether there was an event or a due timer.
\<close>

theorem poller_poll_delivers:
  assumes "slab sl" and "poller_reach sl p" and "in_horizon (pl_wheel p) now" and "\<forall>i \<in> set evs. addressable i"
  shows "\<exists>w' ts. mset ts = due_tasks sl (pl_wheel p) now \<and>
    timers sl w' = timers sl (pl_wheel p) |` (- due_timers sl (pl_wheel p) now) \<and>
    poller_poll sl (Ok evs) now p =
      Some (p\<lparr>pl_wheel := w', toexec_fibers := deliver (toexec_fibers p) evs,
              timedout_fibers := deliver (timedout_fibers p) ts\<rparr>,
            Ok (evs \<noteq> [] \<or> due_timers sl (pl_wheel p) now \<noteq> {}))"
proof -
  have "poller_ok sl p" using wheel_slab.poller_reach_ok [OF wheel_slab.intro] assms(1,2) by blast
  from wheel_slab.poller_poll_spec [OF wheel_slab.intro [OF assms(1)] this assms(3,4)] show ?thesis by blast
qed

theorem poller_poll_delivers_witness:
  "\<exists>w' ts. mset ts = due_tasks vec_slab_ops (pl_wheel ex_poller) (Instant 7) \<and>
    timers vec_slab_ops w' = timers vec_slab_ops (pl_wheel ex_poller) |` (- due_timers vec_slab_ops (pl_wheel ex_poller) (Instant 7)) \<and>
    poller_poll vec_slab_ops (Ok [ex_id, ex_id]) (Instant 7) ex_poller =
      Some (ex_poller\<lparr>pl_wheel := w', toexec_fibers := deliver (toexec_fibers ex_poller) [ex_id, ex_id],
              timedout_fibers := deliver (timedout_fibers ex_poller) ts\<rparr>,
            Ok ([ex_id, ex_id] \<noteq> [] \<or> due_timers vec_slab_ops (pl_wheel ex_poller) (Instant 7) \<noteq> {}))"
  by (rule poller_poll_delivers [OF vec_slab.slab_axioms ex_poller_reach(1) ex_poller_horizon])
    (simp_all add: ex_id_split)

text \<open>
  \<^verbatim>\<open>PollerInt::timer_reg\<close> on a reachable poller within its limits either arms a fresh token with the
  identifier, for the tick of the instant asked for or the next tick of the wheel if that is later (default: 250 ms
  from now), or returns nothing and changes nothing, when the wheel holds no entry and has no room, or holds as
  many as its capacity of 4194304.
\<close>

theorem timer_reg_arms:
  assumes "slab sl" and "poller_reach sl p" and "addressable i" and "can_register sl p (timer_at now dur)"
  shows "\<exists>w' r. timer_reg sl now p i dur = (p\<lparr>pl_wheel := w'\<rparr>, Ok r) \<and>
    (case r of
       None \<Rightarrow> w' = pl_wheel p \<and> (slab_len sl (w_slab (pl_wheel p)) = 0 \<or> slab_len sl (w_slab (pl_wheel p)) = 4194304)
     | Some tk \<Rightarrow> slab_get sl (w_slab (pl_wheel p)) tk = None \<and>
         timers sl w' = (timers sl (pl_wheel p))(tk \<mapsto>
           (i, tick_instant (pl_wheel p) (max (ticks_at (pl_wheel p) (timer_at now dur)) (w_cur_tick (pl_wheel p) + 1)))))"
proof -
  have "poller_ok sl p" using wheel_slab.poller_reach_ok [OF wheel_slab.intro] assms(1,2) by blast
  from wheel_slab.timer_reg_spec [OF wheel_slab.intro [OF assms(1)] this assms(3,4)] show ?thesis by blast
qed

theorem timer_reg_arms_witness:
  "\<exists>w' r. timer_reg vec_slab_ops (Instant 0) ex_poller ex_id (Some 1000000000) = (ex_poller\<lparr>pl_wheel := w'\<rparr>, Ok r) \<and>
    (case r of
       None \<Rightarrow> w' = pl_wheel ex_poller
     | Some tk \<Rightarrow> timers vec_slab_ops w' = (timers vec_slab_ops (pl_wheel ex_poller))(tk \<mapsto> (ex_id, Instant 1000000000)))"
proof -
  have t: "tick_instant (pl_wheel ex_poller) (max (ticks_at (pl_wheel ex_poller) (timer_at (Instant 0) (Some 1000000000)))
      (w_cur_tick (pl_wheel ex_poller) + 1)) = Instant 1000000000"
    by (simp add: tick_instant_def ticks_at_def ex_poller_wheel tick_nanos_def nanos_per_milli_def timer_at_def)
  obtain w' r where
    "timer_reg vec_slab_ops (Instant 0) ex_poller ex_id (Some 1000000000) = (ex_poller\<lparr>pl_wheel := w'\<rparr>, Ok r)"
    "case r of None \<Rightarrow> w' = pl_wheel ex_poller
     | Some tk \<Rightarrow> timers vec_slab_ops w' = (timers vec_slab_ops (pl_wheel ex_poller))(tk \<mapsto> (ex_id, Instant 1000000000))"
    using timer_reg_arms [OF vec_slab.slab_axioms ex_poller_reach(1) ex_id_split(2) ex_poller_can] unfolding t
    by (fastforce split: option.splits)
  then show ?thesis by blast
qed

text \<open>
  C5: from registration to delivery.  A timer that \<^verbatim>\<open>timer_reg\<close> has armed fires at the tick of the instant asked for, which is less
  than a tick of 250 ms before that instant, or at the next tick of the wheel if that is later.  Whatever the program does
  with the poller in between, short of cancelling the timer, every poll before that tick leaves the timer pending, and the
  first poll at or after it takes the timer out of the wheel and puts the fiber into the timeout queue of its runner.
\<close>

theorem registered_timer_fires:
  assumes "slab sl" and "poller_reach sl p" and "addressable i" and "can_register sl p (timer_at now dur)"
    and "timer_reg sl now p i dur = (p', Ok (Some tk))"
    and "due = tick_instant (pl_wheel p) (max (ticks_at (pl_wheel p) (timer_at now dur)) (w_cur_tick (pl_wheel p) + 1))"
    and "waits sl tk due p' p1" and "in_horizon (pl_wheel p1) now'" and "\<forall>i \<in> set evs. addressable i"
  shows "(due \<le> timer_at now dur \<or> due = tick_instant (pl_wheel p) (w_cur_tick (pl_wheel p) + 1)) \<and>
    nanos (timer_at now dur) < nanos due + from_millis TICK_MS \<and>
    (\<exists>p2 smth. poller_poll sl (Ok evs) now' p1 = Some (p2, Ok smth) \<and>
       (if due \<le> now'
        then timers sl (pl_wheel p2) tk = None \<and> snd (split_id i) \<in> set (timedout_fibers p2 ! fst (split_id i))
        else timers sl (pl_wheel p2) tk = Some (i, due)))"
proof -
  have ok: "poller_ok sl p" by (rule wheel_slab.poller_reach_ok [OF wheel_slab.intro [OF assms(1)] assms(2)])
  have due: "due = fires_at (pl_wheel p) (timer_at now dur)" by (simp add: assms(6) fires_at_def)
  have "tick_nanos (pl_wheel p) = from_millis TICK_MS" using ok by (simp add: poller_ok_def tick_nanos_def from_millis_def)
  moreover have "in_horizon (pl_wheel p) (timer_at now dur)" using assms(4) by (simp add: can_register_def)
  ultimately have "due \<le> timer_at now dur \<or> due = tick_instant (pl_wheel p) (w_cur_tick (pl_wheel p) + 1)"
    "nanos (timer_at now dur) < nanos due + from_millis TICK_MS"
    using fires_at_bounds [OF poller_ok_clock [OF ok], of "timer_at now dur"] by (simp_all add: due)
  then show ?thesis
    using timer_after_waits [OF assms(1-5) assms(7) [unfolded due] assms(8,9), folded due] by blast
qed

lemma reachable_poller_queues: "poller_reach vec_slab_ops p \<Longrightarrow> length (toexec_fibers p) = MAX_RUNNERS"
  using vec_wheel.poller_reach_ok by (auto simp: poller_ok_def)

theorem registered_timer_fires_witness:
  "\<exists>p1 p2 smth. toexec_push ex_timer 2 9 = (p1, Ok ()) \<and>
    poller_poll vec_slab_ops (Ok []) (Instant 1000000000) p1 = Some (p2, Ok smth) \<and> 5 \<in> set (timedout_fibers p2 ! 2)"
proof -
  obtain tk where reg: "timer_reg vec_slab_ops (Instant 0) ex_poller ex_id (Some 1000000000) = (ex_timer, Ok (Some tk))"
    "in_horizon (pl_wheel ex_timer) (Instant 1000000000)"
    using ex_reg_some [OF ex_id_split(2)] by (auto simp: ex_timer_def)
  have t: "Instant 1000000000 = tick_instant (pl_wheel ex_poller) (max (ticks_at (pl_wheel ex_poller)
      (timer_at (Instant 0) (Some 1000000000))) (w_cur_tick (pl_wheel ex_poller) + 1))"
    by (simp add: tick_instant_def ticks_at_def ex_poller_wheel tick_nanos_def nanos_per_milli_def timer_at_def)
  have "length (toexec_fibers ex_timer) = MAX_RUNNERS"
    using reachable_poller_queues [OF ex_poller_reach(2)] by simp
  then obtain p1 where push: "toexec_push ex_timer 2 9 = (p1, Ok ())"
    by (simp add: toexec_push_def queue_push_def index_def lift_def MAX_RUNNERS_def)
  then have w: "pl_wheel p1 = pl_wheel ex_timer" using queue_ops_keep(1) by blast
  have "waits vec_slab_ops tk (Instant 1000000000) ex_timer p1"
    by (rule waits_push [OF waits_start push])
  from registered_timer_fires [OF vec_slab.slab_axioms ex_poller_reach(1) ex_id_split(2) ex_poller_can reg(1) t this, of "Instant 1000000000" "[]"]
  show ?thesis using push reg(2) by (auto simp: ex_id_split w)
qed

end
