(* ===== verification/Fiber_State.thy ===== *)
theory Fiber_State
  imports Fiber_Sock Poller
begin

text \<open>
  The data of \<^verbatim>\<open>fiber.rs\<close>: the state of a fiber, and what a fiber executes.

  The body of a fiber (\<^verbatim>\<open>FiberFn\<close>) is user code on a stack of its own that talks to the library through the
  methods of \<^verbatim>\<open>Fiber\<close>.  It is a tree of calls (\<open>prog\<close>): it returns, or it calls the library and goes on with
  the response, or it panics.  The tree may be infinite.  A \<^verbatim>\<open>FiberFn\<close> is a function pointer: a name of type \<open>'f\<close>, which a table
  maps to the body it runs for a parameter.

  A suspended execution context (\<^verbatim>\<open>Transfer\<close>) is the point of the library at which \<^verbatim>\<open>step_out\<close> was called, with the
  rest of the body.
\<close>

section \<open>Calls of a body\<close>

datatype socket_type = ST_Tcp | ST_Udp sock

datatype ('p, 'r, 'f) req =
    Rq_socket_timeout "duration option"
  | Rq_resp_chunk 'r
  | Rq_accept_tcp
  | Rq_tcp_tls_connect nat bytes
  | Rq_tcp_tls_accept nat
  | Rq_new_tcp sock 'f 'p
  | Rq_new_listener sock 'f 'p
  | Rq_new_udp sock 'f 'p
  | Rq_new_resolve_connect bytes socket_type u16 duration 'f 'p
  | Rq_join_tcp sock 'f 'p
  | Rq_join_udp sock 'f 'p
  | Rq_join_resolve_connect bytes socket_type u16 duration 'f 'p
  | Rq_join_main
  | Rq_get_child
  | Rq_hibernate_for_read
  | Rq_hibernate_join_main
  | Rq_read_bufs "bytes list"
  | Rq_write_bufs "bytes list"
  | Rq_read nat
  | Rq_write bytes
  | Rq_flush

datatype 'r resp =
    Rs_unit
  | Rs_io "(io_error, unit) res"
  | Rs_read "(io_error, bytes) res"
  | Rs_read_bufs "bytes list" "(io_error, nat) res"
  | Rs_write "(io_error, nat) res"
  | Rs_accept "(io_error, sock \<times> sock_addr) res"
  | Rs_opt "'r option"

codatatype ('p, 'r, 'f) prog =
    Return "'r option"
  | Call "('p, 'r, 'f) req" "'r resp \<Rightarrow> ('p, 'r, 'f) prog"
  | Abort

section \<open>Suspended contexts\<close>

datatype point =
    At_read nat
  | At_read_bufs "bytes list"
  | At_write bytes
  | At_write_bufs "bytes list"
  | At_accept
  | At_tls tls_result
  | At_child_iter
  | At_resp_chunk
  | At_join_main
  | At_hibernate_join_main
  | At_hibernate_for_read

text \<open>
  What the field \<^verbatim>\<open>t\<close> of a fiber can hold: the main stack (while the fiber runs), a context on which nothing has run
  yet, a suspended fiber, and the context of a body that has returned.
\<close>

datatype ('p, 'r, 'f) ctx =
    MainCtx | FreshCtx | FiberCtx point "'r resp \<Rightarrow> ('p, 'r, 'f) prog" | DeadCtx

section \<open>State of a fiber\<close>

datatype fiber_state = Closed | Stacked | Unstacked

record connect_param =
  cp_port :: u16
  cp_st :: socket_type
  cp_host :: bytes

record ('p, 'r, 'f, 'k) fiber_int =
  f_runner :: nat
  f_ready :: ready
  f_param :: "'p option"
  f_state :: fiber_state
  f_me :: usize
  f_generation :: usize
  f_func :: "'f option"
  f_connect_param :: "connect_param option"
  f_sock :: fiber_sock
  f_t :: "('p, 'r, 'f) ctx option"
  f_stack :: "'k option"
  f_parent :: "nat option"
  f_children :: "nat deque"
  f_result :: "'r option"
  f_wtoken :: "token option"
  f_timeout :: "duration option"
  f_timed_out :: u8

text \<open>\<^verbatim>\<open>FiberInt::register\<close>; the interest is recorded even when the system refuses it.\<close>

definition fiber_register ::
  "'w os_ops \<Rightarrow> ('p, 'r, 'f, 'k) fiber_int \<Rightarrow> ready \<Rightarrow> 'w \<Rightarrow> ('p, 'r, 'f, 'k) fiber_int \<times> 'w \<times> (io_error, unit) res" where
  "fiber_register os fib rdy w =
     (case sock_evented (f_sock fib) of
        Ok s \<Rightarrow>
          (let (w, res) = (if f_ready fib = ReadyEmpty then os_register os s (f_me fib) rdy w
                           else os_reregister os s (f_me fib) rdy w)
           in (fib\<lparr>f_ready := rdy\<rparr>, w, res))
      | Err e \<Rightarrow> (fib, w, Err e)
      | Panic \<Rightarrow> (fib, w, Panic))"

text \<open>The index that the handle given to a body carries.\<close>

definition handle_id :: "('p, 'r, 'f, 'k) fiber_int \<Rightarrow> nat" where
  "handle_id fib = unat (f_me fib AND 0xFFFFFFFF)"

text \<open>References held on the main stack.\<close>

record fiber_ref =
  fr_runner :: nat
  fr_id :: nat
  fr_resumed :: bool

definition fiber_ref_new :: "nat \<Rightarrow> nat \<Rightarrow> fiber_ref" where
  "fiber_ref_new runner i = \<lparr>fr_runner = runner, fr_id = i, fr_resumed = False\<rparr>"

record timer_ref =
  tr_runner :: nat
  tr_id :: nat

end
