(* ===== verification/Runner_State.thy ===== *)
theory Runner_State
  imports Fiber_State
begin

text \<open>
  \<^verbatim>\<open>runner.rs\<close>, first part: the state of a runner together with what it reaches through \<^verbatim>\<open>poller()\<close> and the
  operating system, and the operations that do not switch stacks: registering fibers, timers and lookups.

  Positions in the vector of fibers are \<^typ>\<open>nat\<close>; they become \<^typ>\<open>usize\<close> words in the identifiers and queues of the
  poller.  Operations return the state with their outcome; an \<^verbatim>\<open>io::Result\<close> is a value of the outcome, so that an
  error is distinguished from a panic.
\<close>

unbundle bit_operations_syntax

record ('w, 's, 'k, 'p, 'r, 'f) env =
  e_slab :: "('s, entry) slab_ops"
  e_os :: "'w os_ops"
  e_bo :: byteorder
  e_stack :: "nat option \<Rightarrow> (unit, 'k) res"
  e_code :: "'f \<Rightarrow> 'p \<Rightarrow> ('p, 'r, 'f) prog"

record ('w, 's, 'k, 'p, 'r, 'f) runner_int =
  r_pos :: nat
  r_fibers :: "('p, 'r, 'f, 'k) fiber_int list"
  r_free_fibers :: "nat deque"
  r_tomain_fibers :: "fiber_ref deque"
  r_results :: "'r deque"
  r_tmp_buf :: bytes
  r_poller :: "('s, 'k) poller_int"
  r_world :: 'w

definition runner_int_new :: "nat \<Rightarrow> ('s, 'k) poller_int \<Rightarrow> 'w \<Rightarrow> ('w, 's, 'k, 'p, 'r, 'f) runner_int" where
  "runner_int_new pos p w =
     \<lparr>r_pos = pos, r_fibers = [], r_free_fibers = [], r_tomain_fibers = [], r_results = [],
      r_tmp_buf = replicate 16384 0, r_poller = p, r_world = w\<rparr>"

section \<open>Access to the parts\<close>

text \<open>\<^verbatim>\<open>self.fibers[pos]\<close> read and written; out of range both panic.\<close>

definition the_fiber ::
  "('w, 's, 'k, 'p, 'r, 'f) runner_int \<Rightarrow> nat \<Rightarrow>
    ('w, 's, 'k, 'p, 'r, 'f) runner_int \<times> (unit, ('p, 'r, 'f, 'k) fiber_int) res" where
  "the_fiber rt pos = lift rt (index (r_fibers rt) pos)"

definition mod_fiber ::
  "('w, 's, 'k, 'p, 'r, 'f) runner_int \<Rightarrow> nat \<Rightarrow> (('p, 'r, 'f, 'k) fiber_int \<Rightarrow> ('p, 'r, 'f, 'k) fiber_int) \<Rightarrow>
    ('w, 's, 'k, 'p, 'r, 'f) runner_int \<times> (unit, unit) res" where
  "mod_fiber rt pos f =
     bindS (the_fiber rt pos) (\<lambda>rt fib. (rt\<lparr>r_fibers := (r_fibers rt)[pos := f fib]\<rparr>, Ok ()))"

text \<open>Calls of the poller and of the system on the parts of the state they concern.\<close>

definition on_poller ::
  "('w, 's, 'k, 'p, 'r, 'f) runner_int \<Rightarrow> (('s, 'k) poller_int \<Rightarrow> ('s, 'k) poller_int \<times> (unit, 'a) res) \<Rightarrow>
    ('w, 's, 'k, 'p, 'r, 'f) runner_int \<times> (unit, 'a) res" where
  "on_poller rt f = (let (p, r) = f (r_poller rt) in (rt\<lparr>r_poller := p\<rparr>, r))"

fun io_value :: "(io_error, 'a) res \<Rightarrow> (unit, (io_error, 'a) res) res" where
  "io_value Panic = Panic"
| "io_value r = Ok r"

definition on_world ::
  "('w, 's, 'k, 'p, 'r, 'f) runner_int \<Rightarrow> ('w \<Rightarrow> 'w \<times> (io_error, 'a) res) \<Rightarrow>
    ('w, 's, 'k, 'p, 'r, 'f) runner_int \<times> (unit, (io_error, 'a) res) res" where
  "on_world rt f = (let (w, r) = f (r_world rt) in (rt\<lparr>r_world := w\<rparr>, io_value r))"

text \<open>\<^verbatim>\<open>self.fibers[pos].register(&poller().poller(), rdy)\<close>.\<close>

definition register_interest ::
  "('w, 's, 'k, 'p, 'r, 'f) env \<Rightarrow> ('w, 's, 'k, 'p, 'r, 'f) runner_int \<Rightarrow> nat \<Rightarrow> ready \<Rightarrow>
    ('w, 's, 'k, 'p, 'r, 'f) runner_int \<times> (unit, (io_error, unit) res) res" where
  "register_interest env rt pos rdy =
     bindS (the_fiber rt pos) (\<lambda>rt fib.
     let (fib, w, r) = fiber_register (e_os env) fib rdy (r_world rt) in
     (rt\<lparr>r_fibers := (r_fibers rt)[pos := fib], r_world := w\<rparr>, io_value r))"

text \<open>\<^verbatim>\<open>poller().timer_reg(id, dur)\<close>, which reads the clock.\<close>

definition reg_timer ::
  "('w, 's, 'k, 'p, 'r, 'f) env \<Rightarrow> ('w, 's, 'k, 'p, 'r, 'f) runner_int \<Rightarrow> usize \<Rightarrow> duration option \<Rightarrow>
    ('w, 's, 'k, 'p, 'r, 'f) runner_int \<times> (unit, token option) res" where
  "reg_timer env rt i dur =
     (let (now, w) = os_now (e_os env) (r_world rt) in
      on_poller (rt\<lparr>r_world := w\<rparr>) (\<lambda>p. timer_reg (e_slab env) now p i dur))"

definition cancel_token ::
  "('w, 's, 'k, 'p, 'r, 'f) env \<Rightarrow> ('w, 's, 'k, 'p, 'r, 'f) runner_int \<Rightarrow> token \<Rightarrow>
    ('w, 's, 'k, 'p, 'r, 'f) runner_int \<times> (unit, unit) res" where
  "cancel_token env rt tk = on_poller rt (\<lambda>p. timer_cancel (e_slab env) p tk)"

section \<open>Registration\<close>

definition runner_id :: "nat \<Rightarrow> nat \<Rightarrow> usize" where
  "runner_id runner pos = word_of_nat pos OR push_bit 40 (word_of_nat runner)"

definition fiber_id :: "('w, 's, 'k, 'p, 'r, 'f) runner_int \<Rightarrow> nat \<Rightarrow> usize" where
  "fiber_id rt pos = runner_id (r_pos rt) pos"

definition push_toexec ::
  "('w, 's, 'k, 'p, 'r, 'f) runner_int \<Rightarrow> nat \<Rightarrow> ('w, 's, 'k, 'p, 'r, 'f) runner_int \<times> (unit, unit) res" where
  "push_toexec rt pos = on_poller rt (\<lambda>p. toexec_push p (r_pos rt) (word_of_nat pos))"

definition pop_toexec ::
  "('w, 's, 'k, 'p, 'r, 'f) runner_int \<Rightarrow> ('w, 's, 'k, 'p, 'r, 'f) runner_int \<times> (unit, usize option) res" where
  "pop_toexec rt = on_poller rt (\<lambda>p. toexec_pop p (r_pos rt))"

definition new_fiber ::
  "nat \<Rightarrow> 'f option \<Rightarrow> fiber_sock \<Rightarrow> 'p option \<Rightarrow> nat option \<Rightarrow> usize \<Rightarrow> usize \<Rightarrow> ('p, 'r, 'f, 'k) fiber_int" where
  "new_fiber runner func ft param parent me gen =
     \<lparr>f_runner = runner, f_ready = ReadyEmpty, f_param = param, f_state = Unstacked, f_me = me, f_generation = gen,
      f_func = func, f_connect_param = None, f_sock = ft, f_t = None, f_stack = None, f_parent = parent,
      f_children = [], f_result = None, f_wtoken = None, f_timeout = Some (from_millis 20000), f_timed_out = 0\<rparr>"

text \<open>A listener is registered with the poller before its fiber is stored.\<close>

definition watch_listener ::
  "('w, 's, 'k, 'p, 'r, 'f) env \<Rightarrow> ('w, 's, 'k, 'p, 'r, 'f) runner_int \<Rightarrow> ('p, 'r, 'f, 'k) fiber_int \<Rightarrow>
    ('w, 's, 'k, 'p, 'r, 'f) runner_int \<times> (unit, (io_error, ('p, 'r, 'f, 'k) fiber_int) res) res" where
  "watch_listener env rt fib =
     (case f_sock fib of
        S_Listener _ \<Rightarrow>
          (let (fib, w, r) = fiber_register (e_os env) fib ReadyReadable (r_world rt); rt = rt\<lparr>r_world := w\<rparr> in
           case r of Ok _ \<Rightarrow> (rt, Ok (Ok fib)) | Err e \<Rightarrow> (rt, Ok (Err e)) | Panic \<Rightarrow> (rt, Panic))
      | _ \<Rightarrow> (rt, Ok (Ok fib)))"

definition place_fiber ::
  "('w, 's, 'k, 'p, 'r, 'f) env \<Rightarrow> ('w, 's, 'k, 'p, 'r, 'f) runner_int \<Rightarrow> 'f option \<Rightarrow> fiber_sock \<Rightarrow> 'p option \<Rightarrow> nat option \<Rightarrow>
    ('w, 's, 'k, 'p, 'r, 'f) runner_int \<times> (unit, (io_error, nat) res) res" where
  "place_fiber env rt func ft param parent =
     (case pop_front (r_free_fibers rt) of
        (Some free_pos, free) \<Rightarrow>
          (let rt = rt\<lparr>r_free_fibers := free\<rparr> in
           bindS (the_fiber rt free_pos) (\<lambda>rt old.
           bindS (watch_listener env rt (new_fiber (r_pos rt) func ft param parent (fiber_id rt free_pos)
                     (f_generation old + 1))) (\<lambda>rt r.
           case r of
             Ok fib \<Rightarrow> bindS (mod_fiber rt free_pos (\<lambda>_. fib)) (\<lambda>rt _. (rt, Ok (Ok free_pos)))
           | Err e \<Rightarrow> (rt, Ok (Err e))
           | Panic \<Rightarrow> (rt, Panic))))
      | (None, _) \<Rightarrow>
          bindS (watch_listener env rt (new_fiber (r_pos rt) func ft param parent
                    (fiber_id rt (length (r_fibers rt))) 0)) (\<lambda>rt r.
          case r of
            Ok fib \<Rightarrow> (rt\<lparr>r_fibers := r_fibers rt @ [fib]\<rparr>, Ok (Ok (length (r_fibers rt))))
          | Err e \<Rightarrow> (rt, Ok (Err e))
          | Panic \<Rightarrow> (rt, Panic)))"

definition register ::
  "('w, 's, 'k, 'p, 'r, 'f) env \<Rightarrow> ('w, 's, 'k, 'p, 'r, 'f) runner_int \<Rightarrow> 'f option \<Rightarrow> fiber_sock \<Rightarrow> 'p option \<Rightarrow>
    nat option \<Rightarrow> bool \<Rightarrow> ('w, 's, 'k, 'p, 'r, 'f) runner_int \<times> (unit, (io_error, nat) res) res" where
  "register env rt func ft param parent schedule =
     bindS (place_fiber env rt func ft param parent) (\<lambda>rt r.
     case r of
       Ok pos \<Rightarrow>
         bindS (if schedule then push_toexec rt pos else (rt, Ok ())) (\<lambda>rt _.
         bindS (case parent of
                  Some par \<Rightarrow> mod_fiber rt par (\<lambda>fib. fib\<lparr>f_children := push_back (f_children fib) pos\<rparr>)
                | None \<Rightarrow> (rt, Ok ())) (\<lambda>rt _. (rt, Ok (Ok pos))))
     | Err e \<Rightarrow> (rt, Ok (Err e))
     | Panic \<Rightarrow> (rt, Panic))"

section \<open>Timers and lookups\<close>

definition new_timer ::
  "('w, 's, 'k, 'p, 'r, 'f) env \<Rightarrow> ('w, 's, 'k, 'p, 'r, 'f) runner_int \<Rightarrow> 'f option \<Rightarrow> duration \<Rightarrow> 'p option \<Rightarrow>
    'r option \<Rightarrow> ('w, 's, 'k, 'p, 'r, 'f) runner_int \<times> (unit, timer_ref option) res" where
  "new_timer env rt func dur param resp =
     bindS (register env rt func S_Empty param None False) (\<lambda>rt r.
     case r of
       Ok pos \<Rightarrow>
         bindS (mod_fiber rt pos (\<lambda>fib. fib\<lparr>f_result := resp\<rparr>)) (\<lambda>rt _.
         bindS (reg_timer env rt (fiber_id rt pos) (Some dur)) (\<lambda>rt tk.
         case tk of
           Some tk \<Rightarrow>
             bindS (mod_fiber rt pos (\<lambda>fib. fib\<lparr>f_wtoken := Some tk\<rparr>)) (\<lambda>rt _.
             (rt, Ok (Some \<lparr>tr_runner = r_pos rt, tr_id = pos\<rparr>)))
         | None \<Rightarrow> (rt, Ok None)))
     | _ \<Rightarrow> (rt, Ok None))"

definition cancel_timer ::
  "('w, 's, 'k, 'p, 'r, 'f) env \<Rightarrow> ('w, 's, 'k, 'p, 'r, 'f) runner_int \<Rightarrow> nat \<Rightarrow>
    ('w, 's, 'k, 'p, 'r, 'f) runner_int \<times> (unit, unit) res" where
  "cancel_timer env rt pos =
     bindS (the_fiber rt pos) (\<lambda>rt fib.
     case f_wtoken fib of
       Some tk \<Rightarrow>
         bindS (cancel_token env rt tk) (\<lambda>rt _.
         bindS (mod_fiber rt pos (\<lambda>fib. fib\<lparr>f_wtoken := None, f_result := None, f_param := None\<rparr>)) (\<lambda>rt _.
         (rt\<lparr>r_free_fibers := push_back (r_free_fibers rt) pos\<rparr>, Ok ())))
     | None \<Rightarrow> (rt, Ok ()))"

text \<open>The number of ticks of a lookup's timeout, between 1 and 255.\<close>

definition timeout_ticks :: "duration \<Rightarrow> (unit, u8) res" where
  "timeout_ticks to =
     (let ms = as_secs to * 1000 in
      if u64_max < ms \<or> u64_max < ms + subsec_nanos to div 1000000 then Panic
      else let t = (ms + subsec_nanos to div 1000000) div TICK_MS in
        Ok (word_of_nat (if t = 0 then 1 else if t > 255 then 255 else t)))"

definition new_resolve ::
  "('w, 's, 'k, 'p, 'r, 'f) env \<Rightarrow> ('w, 's, 'k, 'p, 'r, 'f) runner_int \<Rightarrow> nat option \<Rightarrow> bytes \<Rightarrow> 'f option \<Rightarrow>
    duration \<Rightarrow> socket_type \<Rightarrow> u16 \<Rightarrow> 'p \<Rightarrow> ('w, 's, 'k, 'p, 'r, 'f) runner_int \<times> (unit, (io_error, nat) res) res" where
  "new_resolve env rt parent domain func to st prt param =
     (if length domain = 0 then (rt, Ok (Err (IoError OtherKind ''empty domain'')))
      else
      bindS (register env rt func S_Empty (Some param) parent False) (\<lambda>rt r.
      case r of
        Err e \<Rightarrow> (rt, Ok (Err e))
      | Panic \<Rightarrow> (rt, Panic)
      | Ok pos \<Rightarrow>
          (let cp = \<lparr>cp_port = prt, cp_st = st, cp_host = []\<rparr> in
           bindS (reg_timer env rt (fiber_id rt pos) None) (\<lambda>rt tk.
           bindS (mod_fiber rt pos (\<lambda>fib. fib\<lparr>f_wtoken := tk\<rparr>)) (\<lambda>rt _.
           bindS (lift rt (timeout_ticks to)) (\<lambda>rt ticks.
           bindS (mod_fiber rt pos (\<lambda>fib. fib\<lparr>f_timed_out := ticks\<rparr>)) (\<lambda>rt _.
           bindS (on_world rt (start_lookup (e_bo env) (net_ops.truncate (e_os env)) (pl_dns (r_poller rt)) domain)) (\<lambda>rt r.
           case r of
             Ok None \<Rightarrow>
               bindS (mod_fiber rt pos (\<lambda>fib. fib\<lparr>f_connect_param := Some cp\<rparr>)) (\<lambda>rt _. (rt, Ok (Ok pos)))
           | Ok (Some sock) \<Rightarrow>
               bindS (mod_fiber rt pos (\<lambda>fib. fib\<lparr>f_connect_param := Some (cp\<lparr>cp_host := domain\<rparr>), f_sock := S_Udp sock\<rparr>)) (\<lambda>rt _.
               bindS (register_interest env rt pos ReadyReadable) (\<lambda>rt r.
               case r of Ok _ \<Rightarrow> (rt, Ok (Ok pos)) | Err e \<Rightarrow> (rt, Ok (Err e)) | Panic \<Rightarrow> (rt, Panic)))
           | Err e \<Rightarrow>
               bindS (mod_fiber rt pos (\<lambda>fib. fib\<lparr>f_param := None\<rparr>)) (\<lambda>rt _.
               bindS (the_fiber rt pos) (\<lambda>rt fib.
               bindS (case f_parent fib of
                        Some par \<Rightarrow>
                          bindS (mod_fiber rt par (\<lambda>fib. fib\<lparr>f_children := snd (pop_back (f_children fib))\<rparr>)) (\<lambda>rt _.
                          mod_fiber rt pos (\<lambda>fib. fib\<lparr>f_parent := None\<rparr>))
                      | None \<Rightarrow> (rt, Ok ())) (\<lambda>rt _.
               bindS (cancel_timer env rt pos) (\<lambda>rt _. (rt, Ok (Err e))))))
           | Panic \<Rightarrow> (rt, Panic)))))))))"

definition resume_fiber ::
  "('w, 's, 'k, 'p, 'r, 'f) runner_int \<Rightarrow> nat \<Rightarrow> 'r option \<Rightarrow> ('w, 's, 'k, 'p, 'r, 'f) runner_int \<times> (unit, unit) res" where
  "resume_fiber rt pos resp =
     bindS (mod_fiber rt pos (\<lambda>fib. fib\<lparr>f_result := resp\<rparr>)) (\<lambda>rt _. push_toexec rt pos)"

definition fiber_ref_resume ::
  "('w, 's, 'k, 'p, 'r, 'f) runner_int \<Rightarrow> fiber_ref \<Rightarrow> 'r option \<Rightarrow>
    ('w, 's, 'k, 'p, 'r, 'f) runner_int \<times> (unit, fiber_ref) res" where
  "fiber_ref_resume rt ref resp =
     bindS (resume_fiber rt (fr_id ref) resp) (\<lambda>rt _. (rt, Ok (ref\<lparr>fr_resumed := True\<rparr>)))"

definition fiber_ref_drop ::
  "('w, 's, 'k, 'p, 'r, 'f) runner_int \<Rightarrow> fiber_ref \<Rightarrow> ('w, 's, 'k, 'p, 'r, 'f) runner_int \<times> (unit, unit) res" where
  "fiber_ref_drop rt ref = (if fr_resumed ref then (rt, Ok ()) else resume_fiber rt (fr_id ref) None)"

definition timer_ref_drop ::
  "('w, 's, 'k, 'p, 'r, 'f) env \<Rightarrow> ('w, 's, 'k, 'p, 'r, 'f) runner_int \<Rightarrow> timer_ref \<Rightarrow>
    ('w, 's, 'k, 'p, 'r, 'f) runner_int \<times> (unit, unit) res" where
  "timer_ref_drop env rt ref = cancel_timer env rt (tr_id ref)"

section \<open>Results on the main stack\<close>

definition take_result ::
  "('w, 's, 'k, 'p, 'r, 'f) runner_int \<Rightarrow> nat \<Rightarrow> ('w, 's, 'k, 'p, 'r, 'f) runner_int \<times> (unit, unit) res" where
  "take_result rt pos =
     bindS (the_fiber rt pos) (\<lambda>rt fib.
     bindS (mod_fiber rt pos (\<lambda>fib. fib\<lparr>f_result := None\<rparr>)) (\<lambda>rt _.
     case f_result fib of
       Some r \<Rightarrow> (rt\<lparr>r_results := push_back (r_results rt) r\<rparr>, Ok ())
     | None \<Rightarrow> (rt, Ok ())))"

definition iter_responses ::
  "('w, 's, 'k, 'p, 'r, 'f) runner_int \<Rightarrow> ('w, 's, 'k, 'p, 'r, 'f) runner_int \<times> 'r option" where
  "iter_responses rt = (let (x, q) = pop_front (r_results rt) in (rt\<lparr>r_results := q\<rparr>, x))"

definition iter_fibers ::
  "('w, 's, 'k, 'p, 'r, 'f) runner_int \<Rightarrow> ('w, 's, 'k, 'p, 'r, 'f) runner_int \<times> fiber_ref option" where
  "iter_fibers rt = (let (x, q) = pop_front (r_tomain_fibers rt) in (rt\<lparr>r_tomain_fibers := q\<rparr>, x))"

definition signaled :: "('w, 's, 'k, 'p, 'r, 'f) runner_int \<Rightarrow> bool" where
  "signaled rt \<longleftrightarrow> r_tomain_fibers rt \<noteq> [] \<or> r_results rt \<noteq> []"

end
