(* ===== verification/Runner_Io.thy ===== *)
theory Runner_Io
  imports Runner_State
begin

text \<open>
  \<^verbatim>\<open>runner.rs\<close>, second part: the blocking operations of a fiber.  Each is a loop around an attempt that may switch to
  the main stack (\<^verbatim>\<open>step_out\<close>).  One iteration up to that switch is a \<^emph>\<open>turn\<close>: it finishes the call with a response,
  goes round the loop (possibly at another point), or steps out; what follows the switch in the loop body is the
  turn of the same point after the fiber has been resumed (\<open>back\<close>).
\<close>

datatype 'r turn = Finish "'r resp" | Goto point | StepOut point

type_synonym ('w, 's, 'k, 'p, 'r, 'f) turned =
  "('w, 's, 'k, 'p, 'r, 'f) runner_int \<times> (unit, 'r turn) res"

section \<open>Waiting with a timeout\<close>

text \<open>\<^verbatim>\<open>timed_step_out\<close> before and after its \<^verbatim>\<open>step_out\<close>.\<close>

definition arm_timeout ::
  "('w, 's, 'k, 'p, 'r, 'f) env \<Rightarrow> ('w, 's, 'k, 'p, 'r, 'f) runner_int \<Rightarrow> nat \<Rightarrow>
    ('w, 's, 'k, 'p, 'r, 'f) runner_int \<times> (unit, unit) res" where
  "arm_timeout env rt pos =
     bindS (the_fiber rt pos) (\<lambda>rt fib.
     case f_timeout fib of
       Some dur \<Rightarrow>
         bindS (reg_timer env rt (f_me fib) (Some dur)) (\<lambda>rt tk.
         case tk of
           Some tk \<Rightarrow> mod_fiber rt pos (\<lambda>fib. fib\<lparr>f_timed_out := 0, f_wtoken := Some tk\<rparr>)
         | None \<Rightarrow> (rt, Ok ()))
     | None \<Rightarrow> (rt, Ok ()))"

definition disarm_timeout ::
  "('w, 's, 'k, 'p, 'r, 'f) env \<Rightarrow> ('w, 's, 'k, 'p, 'r, 'f) runner_int \<Rightarrow> nat \<Rightarrow>
    ('w, 's, 'k, 'p, 'r, 'f) runner_int \<times> (unit, unit) res" where
  "disarm_timeout env rt pos =
     bindS (the_fiber rt pos) (\<lambda>rt fib.
     case f_wtoken fib of
       Some tk \<Rightarrow>
         bindS (cancel_token env rt tk) (\<lambda>rt _. mod_fiber rt pos (\<lambda>fib. fib\<lparr>f_wtoken := None\<rparr>))
     | None \<Rightarrow> (rt, Ok ()))"

text \<open>
  The two halves that the loops of \<^verbatim>\<open>read\<close>, \<^verbatim>\<open>write\<close> and their vectored variants have in common: what an attempt that
  would block does up to the switch, and the check for a timeout after it.
\<close>

definition would_block ::
  "('w, 's, 'k, 'p, 'r, 'f) env \<Rightarrow> ('w, 's, 'k, 'p, 'r, 'f) runner_int \<Rightarrow> nat \<Rightarrow> ready \<Rightarrow> point \<Rightarrow> (io_error \<Rightarrow> 'r resp) \<Rightarrow>
    ('w, 's, 'k, 'p, 'r, 'f) turned" where
  "would_block env rt pos rdy pt err =
     bindS (the_fiber rt pos) (\<lambda>rt fib.
     bindS (if f_ready fib \<noteq> rdy then register_interest env rt pos rdy else (rt, Ok (Ok ()))) (\<lambda>rt r.
     case r of
       Ok _ \<Rightarrow> bindS (arm_timeout env rt pos) (\<lambda>rt _. (rt, Ok (StepOut pt)))
     | Err e \<Rightarrow> (rt, Ok (Finish (err e)))
     | Panic \<Rightarrow> (rt, Panic)))"

definition after_wait ::
  "('w, 's, 'k, 'p, 'r, 'f) env \<Rightarrow> ('w, 's, 'k, 'p, 'r, 'f) runner_int \<Rightarrow> nat \<Rightarrow> point \<Rightarrow> 'r resp \<Rightarrow>
    ('w, 's, 'k, 'p, 'r, 'f) turned" where
  "after_wait env rt pos pt timed_out =
     bindS (disarm_timeout env rt pos) (\<lambda>rt _.
     bindS (the_fiber rt pos) (\<lambda>rt fib.
     if f_timed_out fib > 0
     then bindS (mod_fiber rt pos (\<lambda>fib. fib\<lparr>f_timed_out := 0\<rparr>)) (\<lambda>rt _. (rt, Ok (Finish timed_out)))
     else (rt, Ok (Goto pt))))"

definition socket_closed :: io_error where "socket_closed = IoError NotConnected ''socket closed''"
definition read_timeout :: io_error where "read_timeout = IoError TimedOut ''read timeout''"
definition write_timeout :: io_error where "write_timeout = IoError TimedOut ''write timeout''"
definition tls_failure :: io_error where "tls_failure = IoError OtherKind ''tls failure''"

section \<open>The loops\<close>

definition read_turn ::
  "('w, 's, 'k, 'p, 'r, 'f) env \<Rightarrow> ('w, 's, 'k, 'p, 'r, 'f) runner_int \<Rightarrow> nat \<Rightarrow> nat \<Rightarrow> ('w, 's, 'k, 'p, 'r, 'f) turned" where
  "read_turn env rt pos n =
     bindS (the_fiber rt pos) (\<lambda>rt fib.
     bindS (on_world rt (sock_read (e_os env) (f_sock fib) n)) (\<lambda>rt r.
     case r of
       Ok d \<Rightarrow>
         if length d = 0 \<and> n > 0 then (rt, Ok (Finish (Rs_read (Err socket_closed))))
         else (rt, Ok (Finish (Rs_read (Ok d))))
     | Err e \<Rightarrow>
         if io_kind e = WouldBlock then would_block env rt pos ReadyReadable (At_read n) (\<lambda>e. Rs_read (Err e))
         else if io_kind e = Interrupted then (rt, Ok (Goto (At_read n)))
         else (rt, Ok (Finish (Rs_read (Err e))))
     | Panic \<Rightarrow> (rt, Panic)))"

definition read_bufs_turn ::
  "('w, 's, 'k, 'p, 'r, 'f) env \<Rightarrow> ('w, 's, 'k, 'p, 'r, 'f) runner_int \<Rightarrow> nat \<Rightarrow> bytes list \<Rightarrow> ('w, 's, 'k, 'p, 'r, 'f) turned" where
  "read_bufs_turn env rt pos bufs =
     bindS (the_fiber rt pos) (\<lambda>rt fib.
     let (w, bufs, r) = sock_read_bufs (e_os env) (f_sock fib) bufs (r_world rt); rt = rt\<lparr>r_world := w\<rparr> in
     case r of
       Ok n \<Rightarrow>
         if n = 0 \<and> length bufs > 0 then (rt, Ok (Finish (Rs_read_bufs bufs (Err socket_closed))))
         else (rt, Ok (Finish (Rs_read_bufs bufs (Ok n))))
     | Err e \<Rightarrow>
         if io_kind e = WouldBlock
         then would_block env rt pos ReadyReadable (At_read_bufs bufs) (\<lambda>e. Rs_read_bufs bufs (Err e))
         else if io_kind e = Interrupted then (rt, Ok (Goto (At_read_bufs bufs)))
         else (rt, Ok (Finish (Rs_read_bufs bufs (Err e))))
     | Panic \<Rightarrow> (rt, Panic))"

definition write_turn ::
  "('w, 's, 'k, 'p, 'r, 'f) env \<Rightarrow> ('w, 's, 'k, 'p, 'r, 'f) runner_int \<Rightarrow> nat \<Rightarrow> bytes \<Rightarrow> ('w, 's, 'k, 'p, 'r, 'f) turned" where
  "write_turn env rt pos buf =
     bindS (the_fiber rt pos) (\<lambda>rt fib.
     bindS (on_world rt (sock_write (e_os env) (f_sock fib) buf)) (\<lambda>rt r.
     case r of
       Ok n \<Rightarrow>
         if n = 0 \<and> length buf = 0 then (rt, Ok (Finish (Rs_write (Err socket_closed))))
         else (rt, Ok (Finish (Rs_write (Ok n))))
     | Err e \<Rightarrow>
         if io_kind e = WouldBlock then would_block env rt pos ReadyWritable (At_write buf) (\<lambda>e. Rs_write (Err e))
         else if io_kind e = Interrupted then (rt, Ok (Goto (At_write buf)))
         else (rt, Ok (Finish (Rs_write (Err e))))
     | Panic \<Rightarrow> (rt, Panic)))"

definition write_bufs_turn ::
  "('w, 's, 'k, 'p, 'r, 'f) env \<Rightarrow> ('w, 's, 'k, 'p, 'r, 'f) runner_int \<Rightarrow> nat \<Rightarrow> bytes list \<Rightarrow>
    ('w, 's, 'k, 'p, 'r, 'f) turned option" where
  "write_bufs_turn env rt pos bufs =
     (case the_fiber rt pos of
        (rt, Ok fib) \<Rightarrow>
          (case sock_write_bufs (e_os env) (f_sock fib) (r_tmp_buf rt) bufs (r_world rt) of
             None \<Rightarrow> None
           | Some (w, tmp, r) \<Rightarrow>
               (let rt = rt\<lparr>r_world := w, r_tmp_buf := tmp\<rparr> in
                Some (case r of
                  Ok n \<Rightarrow>
                    if n = 0 \<and> length bufs = 0 then (rt, Ok (Finish (Rs_write (Err socket_closed))))
                    else (rt, Ok (Finish (Rs_write (Ok n))))
                | Err e \<Rightarrow>
                    if io_kind e = WouldBlock
                    then would_block env rt pos ReadyWritable (At_write_bufs bufs) (\<lambda>e. Rs_write (Err e))
                    else if io_kind e = Interrupted then (rt, Ok (Goto (At_write_bufs bufs)))
                    else (rt, Ok (Finish (Rs_write (Err e))))
                | Panic \<Rightarrow> (rt, Panic))))
      | (rt, _) \<Rightarrow> Some (rt, Panic))"

definition accept_turn ::
  "('w, 's, 'k, 'p, 'r, 'f) env \<Rightarrow> ('w, 's, 'k, 'p, 'r, 'f) runner_int \<Rightarrow> nat \<Rightarrow> ('w, 's, 'k, 'p, 'r, 'f) turned" where
  "accept_turn env rt pos =
     bindS (the_fiber rt pos) (\<lambda>rt fib.
     bindS (on_world rt (sock_accept (e_os env) (f_sock fib))) (\<lambda>rt r.
     case r of
       Ok x \<Rightarrow> (rt, Ok (Finish (Rs_accept (Ok x))))
     | Err e \<Rightarrow>
         if io_kind e = WouldBlock then (rt, Ok (StepOut At_accept))
         else if io_kind e = Interrupted then (rt, Ok (Goto At_accept))
         else (rt, Ok (Finish (Rs_accept (Err e))))
     | Panic \<Rightarrow> (rt, Panic)))"

text \<open>\<^verbatim>\<open>tls_handshake\<close>: its loop variable \<^verbatim>\<open>cr\<close> is part of the point.\<close>

definition tls_turn ::
  "('w, 's, 'k, 'p, 'r, 'f) env \<Rightarrow> ('w, 's, 'k, 'p, 'r, 'f) runner_int \<Rightarrow> nat \<Rightarrow> tls_result \<Rightarrow> ('w, 's, 'k, 'p, 'r, 'f) turned" where
  "tls_turn env rt pos cr =
     (case cr of
        TlsOk tls \<Rightarrow>
          bindS (mod_fiber rt pos (\<lambda>fib. fib\<lparr>f_sock := S_Tls tls\<rparr>)) (\<lambda>rt _. (rt, Ok (Finish (Rs_io (Ok ())))))
      | TlsInterrupted mid \<Rightarrow>
          bindS (mod_fiber rt pos (\<lambda>fib. fib\<lparr>f_sock := S_TlsTemp mid\<rparr>)) (\<lambda>rt _.
          bindS (register_interest env rt pos ReadyReadable) (\<lambda>rt r.
          case r of
            Ok _ \<Rightarrow> bindS (arm_timeout env rt pos) (\<lambda>rt _. (rt, Ok (StepOut (At_tls cr))))
          | Err e \<Rightarrow> (rt, Ok (Finish (Rs_io (Err e))))
          | Panic \<Rightarrow> (rt, Panic)))
      | TlsFailure \<Rightarrow> (rt, Ok (Finish (Rs_io (Err tls_failure)))))"

definition tls_back ::
  "('w, 's, 'k, 'p, 'r, 'f) env \<Rightarrow> ('w, 's, 'k, 'p, 'r, 'f) runner_int \<Rightarrow> nat \<Rightarrow> ('w, 's, 'k, 'p, 'r, 'f) turned" where
  "tls_back env rt pos =
     bindS (disarm_timeout env rt pos) (\<lambda>rt _.
     bindS (the_fiber rt pos) (\<lambda>rt fib.
     if f_timed_out fib > 0
     then bindS (mod_fiber rt pos (\<lambda>fib. fib\<lparr>f_timed_out := 0\<rparr>)) (\<lambda>rt _. (rt, Ok (Finish (Rs_io (Err write_timeout)))))
     else
       bindS (mod_fiber rt pos (\<lambda>fib. fib\<lparr>f_sock := S_Empty\<rparr>)) (\<lambda>rt _.
       case f_sock fib of
         S_TlsTemp mid \<Rightarrow>
           (let (w, cr) = os_tls_handshake (e_os env) mid (r_world rt) in (rt\<lparr>r_world := w\<rparr>, Ok (Goto (At_tls cr))))
       | _ \<Rightarrow> (rt, Ok (Finish (Rs_io (Err tls_failure)))))))"

definition tcp_tls_start ::
  "('w, 's, 'k, 'p, 'r, 'f) runner_int \<Rightarrow> nat \<Rightarrow> (sock \<Rightarrow> 'w \<Rightarrow> 'w \<times> tls_result) \<Rightarrow> ('w, 's, 'k, 'p, 'r, 'f) turned" where
  "tcp_tls_start rt pos start =
     bindS (the_fiber rt pos) (\<lambda>rt fib.
     bindS (mod_fiber rt pos (\<lambda>fib. fib\<lparr>f_sock := S_Empty\<rparr>)) (\<lambda>rt _.
     case f_sock fib of
       S_Tcp tcp \<Rightarrow> (let (w, cr) = start tcp (r_world rt) in (rt\<lparr>r_world := w\<rparr>, Ok (Goto (At_tls cr))))
     | _ \<Rightarrow> (rt, Ok (Finish (Rs_io (Err (invalid_input ''invalid socket'')))))))"

definition tcp_tls_connect ::
  "('w, 's, 'k, 'p, 'r, 'f) env \<Rightarrow> ('w, 's, 'k, 'p, 'r, 'f) runner_int \<Rightarrow> nat \<Rightarrow> nat \<Rightarrow> bytes \<Rightarrow> ('w, 's, 'k, 'p, 'r, 'f) turned" where
  "tcp_tls_connect env rt pos con domain = tcp_tls_start rt pos (os_tls_connect (e_os env) con domain)"

definition tcp_tls_accept ::
  "('w, 's, 'k, 'p, 'r, 'f) env \<Rightarrow> ('w, 's, 'k, 'p, 'r, 'f) runner_int \<Rightarrow> nat \<Rightarrow> nat \<Rightarrow> ('w, 's, 'k, 'p, 'r, 'f) turned" where
  "tcp_tls_accept env rt pos con = tcp_tls_start rt pos (os_tls_accept (e_os env) con)"

text \<open>
  \<^verbatim>\<open>child_iter\<close>: \<open>find_child\<close> is its search, the index and position of the first child that is closed or has a
  result.
\<close>

fun find_child :: "('p, 'r, 'f, 'k) fiber_int list \<Rightarrow> nat \<Rightarrow> nat list \<Rightarrow> (unit, (nat \<times> nat) option) res" where
  "find_child fibs i [] = Ok None"
| "find_child fibs i (c # cs) =
     bindR (index fibs c) (\<lambda>fib.
     if f_state fib = Closed then Ok (Some (i, c))
     else if f_result fib \<noteq> None then Ok (Some (i, c))
     else find_child fibs (i + 1) cs)"

definition child_turn ::
  "('w, 's, 'k, 'p, 'r, 'f) runner_int \<Rightarrow> nat \<Rightarrow> ('w, 's, 'k, 'p, 'r, 'f) turned" where
  "child_turn rt parent =
     bindS (the_fiber rt parent) (\<lambda>rt par.
     if length (f_children par) = 0 then (rt, Ok (Finish (Rs_opt None)))
     else
     bindS (lift rt (find_child (r_fibers rt) 0 (f_children par))) (\<lambda>rt found.
     case found of
       Some (i, child) \<Rightarrow>
         bindS (the_fiber rt child) (\<lambda>rt fib.
         bindS (mod_fiber rt child (\<lambda>fib. fib\<lparr>f_result := None\<rparr>)) (\<lambda>rt _.
         bindS (if f_state fib = Closed
                then bindS (mod_fiber rt parent (\<lambda>fib. fib\<lparr>f_children := swap_remove_front (f_children fib) i\<rparr>)) (\<lambda>rt _.
                  (rt\<lparr>r_free_fibers := push_back (r_free_fibers rt) child\<rparr>, Ok ()))
                else push_toexec rt child) (\<lambda>rt _.
         case f_result fib of
           Some out \<Rightarrow> (rt, Ok (Finish (Rs_opt (Some out))))
         | None \<Rightarrow> (rt, Ok (Goto At_child_iter)))))
     | None \<Rightarrow> (rt, Ok (StepOut At_child_iter))))"

section \<open>One turn at a point, and after it has been resumed\<close>

definition at_turn ::
  "('w, 's, 'k, 'p, 'r, 'f) env \<Rightarrow> ('w, 's, 'k, 'p, 'r, 'f) runner_int \<Rightarrow> nat \<Rightarrow> point \<Rightarrow>
    ('w, 's, 'k, 'p, 'r, 'f) turned option" where
  "at_turn env rt pos pt =
     (case pt of
        At_read n \<Rightarrow> Some (read_turn env rt pos n)
      | At_read_bufs bufs \<Rightarrow> Some (read_bufs_turn env rt pos bufs)
      | At_write buf \<Rightarrow> Some (write_turn env rt pos buf)
      | At_write_bufs bufs \<Rightarrow> write_bufs_turn env rt pos bufs
      | At_accept \<Rightarrow> Some (accept_turn env rt pos)
      | At_tls cr \<Rightarrow> Some (tls_turn env rt pos cr)
      | At_child_iter \<Rightarrow> Some (child_turn rt pos)
      | _ \<Rightarrow> Some (rt, Ok (StepOut pt)))"

definition back_turn ::
  "('w, 's, 'k, 'p, 'r, 'f) env \<Rightarrow> ('w, 's, 'k, 'p, 'r, 'f) runner_int \<Rightarrow> nat \<Rightarrow> point \<Rightarrow> ('w, 's, 'k, 'p, 'r, 'f) turned" where
  "back_turn env rt pos pt =
     (case pt of
        At_read n \<Rightarrow> after_wait env rt pos pt (Rs_read (Err read_timeout))
      | At_read_bufs bufs \<Rightarrow> after_wait env rt pos pt (Rs_read_bufs bufs (Err read_timeout))
      | At_write buf \<Rightarrow> after_wait env rt pos pt (Rs_write (Err write_timeout))
      | At_write_bufs bufs \<Rightarrow> after_wait env rt pos pt (Rs_write (Err write_timeout))
      | At_accept \<Rightarrow> (rt, Ok (Goto At_accept))
      | At_tls _ \<Rightarrow> tls_back env rt pos
      | At_child_iter \<Rightarrow> (rt, Ok (Goto At_child_iter))
      | At_resp_chunk \<Rightarrow> (rt, Ok (Finish Rs_unit))
      | At_join_main \<Rightarrow>
          bindS (the_fiber rt pos) (\<lambda>rt fib.
          bindS (mod_fiber rt pos (\<lambda>fib. fib\<lparr>f_result := None\<rparr>)) (\<lambda>rt _. (rt, Ok (Finish (Rs_opt (f_result fib))))))
      | At_hibernate_join_main \<Rightarrow> (rt, Ok (Finish Rs_unit))
      | At_hibernate_for_read \<Rightarrow> (rt, Ok (Finish (Rs_io (Ok ())))))"

section \<open>The methods of a fiber handle\<close>

text \<open>Registering from within a fiber: the position is not returned to the body.\<close>

definition started ::
  "('w, 's, 'k, 'p, 'r, 'f) runner_int \<times> (unit, (io_error, nat) res) res \<Rightarrow> ('w, 's, 'k, 'p, 'r, 'f) turned" where
  "started m = bindS m (\<lambda>rt r. (rt, Ok (Finish (Rs_io (bindR r (\<lambda>_. Ok ()))))))"

definition socket_timeout ::
  "('w, 's, 'k, 'p, 'r, 'f) runner_int \<Rightarrow> nat \<Rightarrow> duration option \<Rightarrow> ('w, 's, 'k, 'p, 'r, 'f) runner_int \<times> (unit, unit) res" where
  "socket_timeout rt pos dur = mod_fiber rt pos (\<lambda>fib. fib\<lparr>f_timeout := dur\<rparr>)"

definition resp_chunk ::
  "('w, 's, 'k, 'p, 'r, 'f) runner_int \<Rightarrow> nat \<Rightarrow> 'r \<Rightarrow> ('w, 's, 'k, 'p, 'r, 'f) turned" where
  "resp_chunk rt pos chunk =
     bindS (mod_fiber rt pos (\<lambda>fib. fib\<lparr>f_result := Some chunk\<rparr>)) (\<lambda>rt _. (rt, Ok (StepOut At_resp_chunk)))"

definition join_main ::
  "('w, 's, 'k, 'p, 'r, 'f) runner_int \<Rightarrow> nat \<Rightarrow> ('w, 's, 'k, 'p, 'r, 'f) turned" where
  "join_main rt pos =
     (rt\<lparr>r_tomain_fibers := push_back (r_tomain_fibers rt) (fiber_ref_new (r_pos rt) pos)\<rparr>, Ok (StepOut At_join_main))"

definition hibernate_join_main ::
  "('w, 's, 'k, 'p, 'r, 'f) runner_int \<Rightarrow> nat \<Rightarrow> ('w, 's, 'k, 'p, 'r, 'f) turned" where
  "hibernate_join_main rt pos =
     bindS (mod_fiber rt pos (\<lambda>fib. fib\<lparr>f_state := Unstacked\<rparr>)) (\<lambda>rt _.
     (rt\<lparr>r_tomain_fibers := push_back (r_tomain_fibers rt) (fiber_ref_new (r_pos rt) pos)\<rparr>,
      Ok (StepOut At_hibernate_join_main)))"

definition hibernate_for_read ::
  "('w, 's, 'k, 'p, 'r, 'f) env \<Rightarrow> ('w, 's, 'k, 'p, 'r, 'f) runner_int \<Rightarrow> nat \<Rightarrow> ('w, 's, 'k, 'p, 'r, 'f) turned" where
  "hibernate_for_read env rt pos =
     bindS (mod_fiber rt pos (\<lambda>fib. fib\<lparr>f_state := Unstacked\<rparr>)) (\<lambda>rt _.
     bindS (the_fiber rt pos) (\<lambda>rt fib.
     bindS (if f_ready fib \<noteq> ReadyReadable then register_interest env rt pos ReadyReadable else (rt, Ok (Ok ()))) (\<lambda>rt r.
     case r of
       Ok _ \<Rightarrow> (rt, Ok (StepOut At_hibernate_for_read))
     | Err e \<Rightarrow> (rt, Ok (Finish (Rs_io (Err e))))
     | Panic \<Rightarrow> (rt, Panic))))"

definition fiber_flush ::
  "('w, 's, 'k, 'p, 'r, 'f) env \<Rightarrow> ('w, 's, 'k, 'p, 'r, 'f) runner_int \<Rightarrow> nat \<Rightarrow> ('w, 's, 'k, 'p, 'r, 'f) turned" where
  "fiber_flush env rt pos =
     bindS (the_fiber rt pos) (\<lambda>rt fib.
     bindS (on_world rt (sock_flush (e_os env) (f_sock fib))) (\<lambda>rt r. (rt, Ok (Finish (Rs_io r)))))"

definition call_turn ::
  "('w, 's, 'k, 'p, 'r, 'f) env \<Rightarrow> ('w, 's, 'k, 'p, 'r, 'f) runner_int \<Rightarrow> nat \<Rightarrow> ('p, 'r, 'f) req \<Rightarrow>
    ('w, 's, 'k, 'p, 'r, 'f) turned" where
  "call_turn env rt pos rq =
     (case rq of
        Rq_socket_timeout t \<Rightarrow> bindS (socket_timeout rt pos t) (\<lambda>rt _. (rt, Ok (Finish Rs_unit)))
      | Rq_resp_chunk chunk \<Rightarrow> resp_chunk rt pos chunk
      | Rq_accept_tcp \<Rightarrow> (rt, Ok (Goto At_accept))
      | Rq_tcp_tls_connect con domain \<Rightarrow> tcp_tls_connect env rt pos con domain
      | Rq_tcp_tls_accept con \<Rightarrow> tcp_tls_accept env rt pos con
      | Rq_new_tcp tcp func param \<Rightarrow> started (register env rt (Some func) (S_Tcp tcp) (Some param) None True)
      | Rq_new_listener tcp func param \<Rightarrow> started (register env rt (Some func) (S_Listener tcp) (Some param) None True)
      | Rq_new_udp udp func param \<Rightarrow> started (register env rt (Some func) (S_Udp udp) (Some param) None True)
      | Rq_new_resolve_connect domain st prt to func param \<Rightarrow>
          started (new_resolve env rt None domain (Some func) to st prt param)
      | Rq_join_tcp tcp func param \<Rightarrow> started (register env rt (Some func) (S_Tcp tcp) (Some param) (Some pos) True)
      | Rq_join_udp udp func param \<Rightarrow> started (register env rt (Some func) (S_Udp udp) (Some param) (Some pos) True)
      | Rq_join_resolve_connect domain st prt to func param \<Rightarrow>
          started (new_resolve env rt (Some pos) domain (Some func) to st prt param)
      | Rq_join_main \<Rightarrow> join_main rt pos
      | Rq_get_child \<Rightarrow> (rt, Ok (Goto At_child_iter))
      | Rq_hibernate_for_read \<Rightarrow> hibernate_for_read env rt pos
      | Rq_hibernate_join_main \<Rightarrow> hibernate_join_main rt pos
      | Rq_read_bufs bufs \<Rightarrow> (rt, Ok (Goto (At_read_bufs bufs)))
      | Rq_write_bufs bufs \<Rightarrow> (rt, Ok (Goto (At_write_bufs bufs)))
      | Rq_read n \<Rightarrow> (rt, Ok (Goto (At_read n)))
      | Rq_write buf \<Rightarrow> (rt, Ok (Goto (At_write buf)))
      | Rq_flush \<Rightarrow> fiber_flush env rt pos)"

end
