(* ===== verification/Runner.thy ===== *)
theory Runner
  imports Runner_Io
begin

text \<open>
  \<^verbatim>\<open>runner.rs\<close>, third part: switching between the main stack and fibers, and the runner's loop.

  While a fiber runs, the field \<^verbatim>\<open>t\<close> of its record holds the context of the main stack; while it is suspended, its own.
  The main stack resumes fibers one at a time.  \<open>fiber_run\<close> executes a body from a point on until it steps out or
  returns; a body need not do either, which is \<^const>\<open>None\<close>.  \<^verbatim>\<open>context_function\<close> keeps a reference to the fiber while
  the body runs; the model reads and writes the fiber by its position, as the code would if the vector of fibers did
  not move in memory meanwhile.
\<close>

section \<open>Running a body\<close>

datatype ('p, 'r, 'f) code =
    Prog "('p, 'r, 'f) prog"
  | At point "'r resp \<Rightarrow> ('p, 'r, 'f) prog"
  | Back point "'r resp \<Rightarrow> ('p, 'r, 'f) prog"

datatype ('p, 'r, 'f) halt = Suspended point "'r resp \<Rightarrow> ('p, 'r, 'f) prog" | Returned "'r option"

fun next_code :: "('r resp \<Rightarrow> ('p, 'r, 'f) prog) \<Rightarrow> 'r turn \<Rightarrow> ('p, 'r, 'f) code + ('p, 'r, 'f) halt" where
  "next_code k (Finish resp) = Inl (Prog (k resp))"
| "next_code k (Goto pt) = Inl (At pt k)"
| "next_code k (StepOut pt) = Inr (Suspended pt k)"

definition code_step ::
  "('w, 's, 'k, 'p, 'r, 'f) env \<Rightarrow> nat \<Rightarrow> ('p, 'r, 'f) code \<Rightarrow> ('w, 's, 'k, 'p, 'r, 'f) runner_int \<Rightarrow>
    (('w, 's, 'k, 'p, 'r, 'f) runner_int \<times> (unit, ('p, 'r, 'f) code + ('p, 'r, 'f) halt) res) option" where
  "code_step env i c rt =
     (case c of
        Prog (Return r) \<Rightarrow> Some (rt, Ok (Inr (Returned r)))
      | Prog (Call rq k) \<Rightarrow> Some (bindS (call_turn env rt i rq) (\<lambda>rt t. (rt, Ok (next_code k t))))
      | Prog Abort \<Rightarrow> Some (rt, Panic)
      | At pt k \<Rightarrow> map_option (\<lambda>m. bindS m (\<lambda>rt t. (rt, Ok (next_code k t)))) (at_turn env rt i pt)
      | Back pt k \<Rightarrow> Some (bindS (back_turn env rt i pt) (\<lambda>rt t. (rt, Ok (next_code k t)))))"

partial_function (option) fiber_run ::
  "('w, 's, 'k, 'p, 'r, 'f) env \<Rightarrow> nat \<Rightarrow> ('p, 'r, 'f) code \<Rightarrow> ('w, 's, 'k, 'p, 'r, 'f) runner_int \<Rightarrow>
    (('w, 's, 'k, 'p, 'r, 'f) runner_int \<times> (unit, ('p, 'r, 'f) halt) res) option"
where [code]:
  "fiber_run env i c rt =
     (case code_step env i c rt of
        None \<Rightarrow> None
      | Some (rt, Ok (Inl c)) \<Rightarrow> fiber_run env i c rt
      | Some (rt, Ok (Inr h)) \<Rightarrow> Some (rt, Ok h)
      | Some (rt, _) \<Rightarrow> Some (rt, Panic))"

section \<open>Switching stacks\<close>

text \<open>The fiber's side of \<^verbatim>\<open>step_out\<close>: it gives up the main context that \<^verbatim>\<open>t\<close> holds.\<close>

definition leave_fiber ::
  "('w, 's, 'k, 'p, 'r, 'f) runner_int \<Rightarrow> nat \<Rightarrow> ('w, 's, 'k, 'p, 'r, 'f) runner_int \<times> (unit, unit) res" where
  "leave_fiber rt i =
     bindS (the_fiber rt i) (\<lambda>rt fib.
     bindS (mod_fiber rt i (\<lambda>fib. fib\<lparr>f_t := None\<rparr>)) (\<lambda>rt _. lift rt (bindR (unwrapO (f_t fib)) (\<lambda>_. Ok ()))))"

text \<open>
  What runs when the main stack resumes a context: \<^verbatim>\<open>context_function\<close> on a fresh one, the rest of \<^verbatim>\<open>step_out\<close> on a
  suspended one.  Both run on the fiber's handle and end with the context handed back to the main stack.
\<close>

definition context_function ::
  "('w, 's, 'k, 'p, 'r, 'f) env \<Rightarrow> ('w, 's, 'k, 'p, 'r, 'f) runner_int \<Rightarrow> nat \<Rightarrow>
    ('w, 's, 'k, 'p, 'r, 'f) runner_int \<times> (unit, nat \<times> ('p, 'r, 'f) code) res" where
  "context_function env rt pos =
     bindS (mod_fiber rt pos (\<lambda>fib. fib\<lparr>f_state := Stacked, f_t := Some MainCtx\<rparr>)) (\<lambda>rt _.
     bindS (the_fiber rt pos) (\<lambda>rt fib.
     bindS (mod_fiber rt pos (\<lambda>fib. fib\<lparr>f_param := None\<rparr>)) (\<lambda>rt _.
     bindS (lift rt (unwrapO (f_param fib))) (\<lambda>rt param.
     bindS (lift rt (unwrapO (f_func fib))) (\<lambda>rt func.
     (rt, Ok (handle_id fib, Prog (e_code env func param))))))))"

definition enter_ctx ::
  "('w, 's, 'k, 'p, 'r, 'f) env \<Rightarrow> ('w, 's, 'k, 'p, 'r, 'f) runner_int \<Rightarrow> nat \<Rightarrow> ('p, 'r, 'f) ctx \<Rightarrow>
    ('w, 's, 'k, 'p, 'r, 'f) runner_int \<times> (unit, nat \<times> ('p, 'r, 'f) code) res" where
  "enter_ctx env rt pos t =
     (case t of
        FreshCtx \<Rightarrow> context_function env rt pos
      | FiberCtx pt k \<Rightarrow>
          bindS (the_fiber rt pos) (\<lambda>rt fib.
          bindS (mod_fiber rt (handle_id fib) (\<lambda>fib. fib\<lparr>f_t := Some MainCtx\<rparr>)) (\<lambda>rt _. (rt, Ok (handle_id fib, Back pt k))))
      | _ \<Rightarrow> (rt, Panic))"

definition leave_ctx ::
  "('w, 's, 'k, 'p, 'r, 'f) runner_int \<Rightarrow> nat \<Rightarrow> nat \<Rightarrow> ('p, 'r, 'f) halt \<Rightarrow>
    ('w, 's, 'k, 'p, 'r, 'f) runner_int \<times> (unit, ('p, 'r, 'f) ctx) res" where
  "leave_ctx rt pos i h =
     (case h of
        Suspended pt k \<Rightarrow> bindS (leave_fiber rt i) (\<lambda>rt _. (rt, Ok (FiberCtx pt k)))
      | Returned r \<Rightarrow>
          bindS (mod_fiber rt pos (\<lambda>fib. fib\<lparr>f_result := r, f_state := Closed\<rparr>)) (\<lambda>rt _.
          bindS (leave_fiber rt pos) (\<lambda>rt _. (rt, Ok DeadCtx))))"

text \<open>\<^verbatim>\<open>t.context.resume(..)\<close> on the main stack: the context to keep for the fiber.\<close>

definition resume_ctx ::
  "('w, 's, 'k, 'p, 'r, 'f) env \<Rightarrow> ('w, 's, 'k, 'p, 'r, 'f) runner_int \<Rightarrow> nat \<Rightarrow> ('p, 'r, 'f) ctx \<Rightarrow>
    (('w, 's, 'k, 'p, 'r, 'f) runner_int \<times> (unit, ('p, 'r, 'f) ctx) res) option" where
  "resume_ctx env rt pos t =
     (case enter_ctx env rt pos t of
        (rt, Ok (i, c)) \<Rightarrow> map_option (\<lambda>m. bindS m (\<lambda>rt h. leave_ctx rt pos i h)) (fiber_run env i c rt)
      | (rt, _) \<Rightarrow> Some (rt, Panic))"

definition unstack ::
  "('w, 's, 'k, 'p, 'r, 'f) runner_int \<Rightarrow> nat \<Rightarrow> ('w, 's, 'k, 'p, 'r, 'f) runner_int \<times> (unit, unit) res" where
  "unstack rt pos =
     bindS (the_fiber rt pos) (\<lambda>rt fib.
     bindS (mod_fiber rt pos (\<lambda>fib. fib\<lparr>f_stack := None\<rparr>)) (\<lambda>rt _.
     bindS (lift rt (unwrapO (f_stack fib))) (\<lambda>rt st.
     bindS (mod_fiber rt pos (\<lambda>fib. fib\<lparr>f_t := None\<rparr>)) (\<lambda>rt _.
     (rt\<lparr>r_poller := stack_push (r_poller rt) st\<rparr>, Ok ())))))"

text \<open>
  \<^verbatim>\<open>stepped_out\<close>, up to its calls of \<^verbatim>\<open>step_into\<close>: they are its last action, so it returns the parent to step into.
\<close>

definition stepped_out ::
  "('w, 's, 'k, 'p, 'r, 'f) runner_int \<Rightarrow> nat \<Rightarrow> ('w, 's, 'k, 'p, 'r, 'f) runner_int \<times> (unit, nat option) res" where
  "stepped_out rt pos =
     bindS (the_fiber rt pos) (\<lambda>rt fib.
     bindS (if f_state fib \<noteq> Stacked \<and> f_t fib \<noteq> None then unstack rt pos else (rt, Ok ())) (\<lambda>rt _.
     if f_state fib = Closed then
       bindS (mod_fiber rt pos (\<lambda>fib. fib\<lparr>f_sock := S_Empty\<rparr>)) (\<lambda>rt _.
       case f_parent fib of
         Some parent \<Rightarrow> (rt, Ok (Some parent))
       | None \<Rightarrow>
           bindS (take_result rt pos) (\<lambda>rt _.
           (rt\<lparr>r_free_fibers := push_back (r_free_fibers rt) pos\<rparr>, Ok None)))
     else
       (case f_parent fib of
          Some parent \<Rightarrow> (rt, Ok (if f_result fib \<noteq> None then Some parent else None))
        | None \<Rightarrow>
            if f_result fib \<noteq> None
            then bindS (take_result rt pos) (\<lambda>rt _. bindS (push_toexec rt pos) (\<lambda>rt _. (rt, Ok None)))
            else (rt, Ok None))))"

text \<open>\<^verbatim>\<open>step_into\<close> without the closing call of \<^verbatim>\<open>stepped_out\<close>.\<close>

definition enter_fiber ::
  "('w, 's, 'k, 'p, 'r, 'f) env \<Rightarrow> ('w, 's, 'k, 'p, 'r, 'f) runner_int \<Rightarrow> nat \<Rightarrow>
    (('w, 's, 'k, 'p, 'r, 'f) runner_int \<times> (unit, unit) res) option" where
  "enter_fiber env rt pos =
     (case the_fiber rt pos of
        (rt, Ok fib) \<Rightarrow>
          if f_func fib \<noteq> None then
            (case (if f_t fib = None
                   then bindS (on_poller rt (stack_pop (e_stack env))) (\<lambda>rt st.
                     mod_fiber rt pos (\<lambda>fib. fib\<lparr>f_stack := Some st, f_t := Some FreshCtx\<rparr>))
                   else (rt, Ok ())) of
               (rt, Ok _) \<Rightarrow>
                 (case bindS (the_fiber rt pos) (\<lambda>rt fib.
                       bindS (mod_fiber rt pos (\<lambda>fib. fib\<lparr>f_t := None\<rparr>)) (\<lambda>rt _. lift rt (unwrapO (f_t fib)))) of
                    (rt, Ok t) \<Rightarrow>
                      map_option (\<lambda>m. bindS m (\<lambda>rt t. mod_fiber rt pos (\<lambda>fib. fib\<lparr>f_t := Some t\<rparr>)))
                        (resume_ctx env rt pos t)
                  | (rt, _) \<Rightarrow> Some (rt, Panic))
             | (rt, _) \<Rightarrow> Some (rt, Panic))
          else Some (mod_fiber rt pos (\<lambda>fib. fib\<lparr>f_state := Closed\<rparr>))
      | (rt, _) \<Rightarrow> Some (rt, Panic))"

partial_function (option) step_into ::
  "('w, 's, 'k, 'p, 'r, 'f) env \<Rightarrow> nat \<Rightarrow> ('w, 's, 'k, 'p, 'r, 'f) runner_int \<Rightarrow>
    (('w, 's, 'k, 'p, 'r, 'f) runner_int \<times> (unit, unit) res) option"
where [code]:
  "step_into env pos rt =
     (case enter_fiber env rt pos of
        None \<Rightarrow> None
      | Some (rt, Ok _) \<Rightarrow>
          (case stepped_out rt pos of
             (rt, Ok (Some parent)) \<Rightarrow> step_into env parent rt
           | (rt, Ok None) \<Rightarrow> Some (rt, Ok ())
           | (rt, _) \<Rightarrow> Some (rt, Panic))
      | Some (rt, _) \<Rightarrow> Some (rt, Panic))"

section \<open>The loop of the runner\<close>

definition have_addr ::
  "('w, 's, 'k, 'p, 'r, 'f) env \<Rightarrow> ('w, 's, 'k, 'p, 'r, 'f) runner_int \<Rightarrow> nat \<Rightarrow> ip_addr \<Rightarrow>
    (('w, 's, 'k, 'p, 'r, 'f) runner_int \<times> (unit, unit) res) option" where
  "have_addr env rt pos addr =
     (case bindS (the_fiber rt pos) (\<lambda>rt fib.
           bindS (mod_fiber rt pos (\<lambda>fib. fib\<lparr>f_sock := S_Empty, f_ready := ReadyEmpty, f_timed_out := 0,
                    f_connect_param := None\<rparr>)) (\<lambda>rt _.
           bindS (lift rt (unwrapO (f_connect_param fib))) (\<lambda>rt cp.
           let sa = SocketAddr addr (cp_port cp) in
           bindS (case cp_st cp of
                    ST_Tcp \<Rightarrow>
                      bindS (on_world rt (os_tcp_connect (e_os env) sa)) (\<lambda>rt r.
                      case r of Ok tcp \<Rightarrow> mod_fiber rt pos (\<lambda>fib. fib\<lparr>f_sock := S_Tcp tcp\<rparr>) | _ \<Rightarrow> (rt, Ok ()))
                  | ST_Udp udp \<Rightarrow>
                      bindS (on_world rt (os_udp_connect (e_os env) udp sa)) (\<lambda>rt r.
                      case r of Ok _ \<Rightarrow> mod_fiber rt pos (\<lambda>fib. fib\<lparr>f_sock := S_Udp udp\<rparr>) | _ \<Rightarrow> (rt, Ok ()))) (\<lambda>rt _.
           register_interest env rt pos ReadyWritable)))) of
        (rt, Ok (Ok _)) \<Rightarrow> Some (rt, Ok ())
      | (rt, Ok (Err _)) \<Rightarrow> step_into env pos rt
      | (rt, _) \<Rightarrow> Some (rt, Panic))"

text \<open>One element of the run queue.\<close>

definition exec_fiber ::
  "('w, 's, 'k, 'p, 'r, 'f) env \<Rightarrow> nat \<Rightarrow> ('w, 's, 'k, 'p, 'r, 'f) runner_int \<Rightarrow>
    (('w, 's, 'k, 'p, 'r, 'f) runner_int \<times> (unit, unit) res) option" where
  "exec_fiber env pos rt =
     (case the_fiber rt pos of
        (rt, Ok fib) \<Rightarrow>
          if f_connect_param fib \<noteq> None then
            (case on_world rt (sock_read (e_os env) (f_sock fib) 512) of
               (rt, Ok (Ok buf)) \<Rightarrow>
                 (case dns_parse (e_bo env) buf of
                    Ok (Some adr) \<Rightarrow>
                      (case bindS (case f_wtoken fib of Some tk \<Rightarrow> cancel_token env rt tk | None \<Rightarrow> (rt, Ok ())) (\<lambda>rt _.
                            mod_fiber rt pos (\<lambda>fib. fib\<lparr>f_wtoken := None\<rparr>)) of
                         (rt, Ok _) \<Rightarrow> have_addr env rt pos adr
                       | (rt, _) \<Rightarrow> Some (rt, Panic))
                  | Ok None \<Rightarrow> Some (rt, Ok ())
                  | _ \<Rightarrow> Some (rt, Panic))
             | (rt, Ok _) \<Rightarrow> Some (rt, Ok ())
             | (rt, _) \<Rightarrow> Some (rt, Panic))
          else step_into env pos rt
      | (rt, _) \<Rightarrow> Some (rt, Panic))"

partial_function (option) run_toexec ::
  "('w, 's, 'k, 'p, 'r, 'f) env \<Rightarrow> ('w, 's, 'k, 'p, 'r, 'f) runner_int \<Rightarrow>
    (('w, 's, 'k, 'p, 'r, 'f) runner_int \<times> (unit, unit) res) option"
where [code]:
  "run_toexec env rt =
     (case pop_toexec rt of
        (rt, Ok None) \<Rightarrow> Some (rt, Ok ())
      | (rt, Ok (Some pos)) \<Rightarrow>
          (case exec_fiber env (unat pos) rt of
             None \<Rightarrow> None
           | Some (rt, Ok _) \<Rightarrow> run_toexec env rt
           | Some (rt, _) \<Rightarrow> Some (rt, Panic))
      | (rt, _) \<Rightarrow> Some (rt, Panic))"

text \<open>One lookup result; a result for an earlier use of the slot is dropped.\<close>

definition exec_lookup ::
  "('w, 's, 'k, 'p, 'r, 'f) env \<Rightarrow> nat \<Rightarrow> usize \<Rightarrow> ip_addr \<Rightarrow> ('w, 's, 'k, 'p, 'r, 'f) runner_int \<Rightarrow>
    (('w, 's, 'k, 'p, 'r, 'f) runner_int \<times> (unit, unit) res) option" where
  "exec_lookup env pos gen addr rt =
     (case the_fiber rt pos of
        (rt, Ok fib) \<Rightarrow>
          if f_generation fib \<noteq> gen then Some (rt, Ok ())
          else
            (case (case f_wtoken fib of
                     Some tk \<Rightarrow> bindS (cancel_token env rt tk) (\<lambda>rt _. mod_fiber rt pos (\<lambda>fib. fib\<lparr>f_wtoken := None\<rparr>))
                   | None \<Rightarrow> (rt, Ok ())) of
               (rt, Ok _) \<Rightarrow> have_addr env rt pos addr
             | (rt, _) \<Rightarrow> Some (rt, Panic))
      | (rt, _) \<Rightarrow> Some (rt, Panic))"

partial_function (option) run_lookups ::
  "('w, 's, 'k, 'p, 'r, 'f) env \<Rightarrow> ('w, 's, 'k, 'p, 'r, 'f) runner_int \<Rightarrow>
    (('w, 's, 'k, 'p, 'r, 'f) runner_int \<times> (unit, unit) res) option"
where [code]:
  "run_lookups env rt =
     (case on_poller rt (\<lambda>p. dns_check p (r_pos rt)) of
        (rt, Ok None) \<Rightarrow> Some (rt, Ok ())
      | (rt, Ok (Some (pos, gen, addr))) \<Rightarrow>
          (case exec_lookup env (unat pos) gen addr rt of
             None \<Rightarrow> None
           | Some (rt, Ok _) \<Rightarrow> run_lookups env rt
           | Some (rt, _) \<Rightarrow> Some (rt, Panic))
      | (rt, _) \<Rightarrow> Some (rt, Panic))"

text \<open>
  One timed-out fiber: a tick of a lookup, which asks the next server or gives up, or the end of a wait.
  \<^verbatim>\<open>timed_out -= 1\<close> panics when the counter is 0.
\<close>

definition lookup_tick ::
  "('w, 's, 'k, 'p, 'r, 'f) env \<Rightarrow> nat \<Rightarrow> connect_param \<Rightarrow> ('w, 's, 'k, 'p, 'r, 'f) runner_int \<Rightarrow>
    ('w, 's, 'k, 'p, 'r, 'f) runner_int \<times> (unit, unit) res" where
  "lookup_tick env pos cp rt =
     bindS (the_fiber rt pos) (\<lambda>rt fib.
     case f_sock fib of
       S_Udp udp \<Rightarrow>
         bindS (on_world rt (lookup_on (e_bo env) (net_ops.truncate (e_os env)) (pl_dns (r_poller rt)) udp
                  (unat (f_timed_out fib)) (cp_host cp))) (\<lambda>rt _.
         bindS (reg_timer env rt (fiber_id rt pos) None) (\<lambda>rt tk.
         mod_fiber rt pos (\<lambda>fib. fib\<lparr>f_wtoken := tk\<rparr>)))
     | _ \<Rightarrow> (rt, Ok ()))"

definition exec_timeout ::
  "('w, 's, 'k, 'p, 'r, 'f) env \<Rightarrow> nat \<Rightarrow> ('w, 's, 'k, 'p, 'r, 'f) runner_int \<Rightarrow>
    (('w, 's, 'k, 'p, 'r, 'f) runner_int \<times> (unit, unit) res) option" where
  "exec_timeout env pos rt =
     (case the_fiber rt pos of
        (rt, Ok fib) \<Rightarrow>
          if f_wtoken fib = None then Some (rt, Ok ())
          else
            (case f_connect_param fib of
               Some cp \<Rightarrow>
                 if f_timed_out fib = 0 then Some (rt, Panic)
                 else
                   (case mod_fiber rt pos (\<lambda>fib. fib\<lparr>f_timed_out := f_timed_out fib - 1\<rparr>) of
                      (rt, Ok _) \<Rightarrow>
                        if f_timed_out fib - 1 > 0 then Some (lookup_tick env pos cp rt)
                        else
                          (case mod_fiber rt pos (\<lambda>fib. fib\<lparr>f_sock := S_Empty, f_wtoken := None\<rparr>) of
                             (rt, Ok _) \<Rightarrow> step_into env pos rt
                           | (rt, _) \<Rightarrow> Some (rt, Panic))
                    | (rt, _) \<Rightarrow> Some (rt, Panic))
             | None \<Rightarrow>
                 (case mod_fiber rt pos (\<lambda>fib. fib\<lparr>f_wtoken := None, f_timed_out := 1\<rparr>) of
                    (rt, Ok _) \<Rightarrow> step_into env pos rt
                  | (rt, _) \<Rightarrow> Some (rt, Panic)))
      | (rt, _) \<Rightarrow> Some (rt, Panic))"

partial_function (option) run_timeouts ::
  "('w, 's, 'k, 'p, 'r, 'f) env \<Rightarrow> ('w, 's, 'k, 'p, 'r, 'f) runner_int \<Rightarrow>
    (('w, 's, 'k, 'p, 'r, 'f) runner_int \<times> (unit, unit) res) option"
where [code]:
  "run_timeouts env rt =
     (case on_poller rt (\<lambda>p. timedout_pop p (r_pos rt)) of
        (rt, Ok None) \<Rightarrow> Some (rt, Ok ())
      | (rt, Ok (Some pos)) \<Rightarrow>
          (case exec_timeout env (unat pos) rt of
             None \<Rightarrow> None
           | Some (rt, Ok _) \<Rightarrow> run_timeouts env rt
           | Some (rt, _) \<Rightarrow> Some (rt, Panic))
      | (rt, _) \<Rightarrow> Some (rt, Panic))"

definition runner_run ::
  "('w, 's, 'k, 'p, 'r, 'f) env \<Rightarrow> ('w, 's, 'k, 'p, 'r, 'f) runner_int \<Rightarrow>
    (('w, 's, 'k, 'p, 'r, 'f) runner_int \<times> (unit, bool) res) option" where
  "runner_run env rt =
     (case run_toexec env rt of
        Some (rt, Ok _) \<Rightarrow>
          (case run_lookups env rt of
             Some (rt, Ok _) \<Rightarrow>
               (case run_timeouts env rt of
                  Some (rt, Ok _) \<Rightarrow> Some (rt, Ok (signaled rt))
                | Some (rt, _) \<Rightarrow> Some (rt, Panic)
                | None \<Rightarrow> None)
           | Some (rt, _) \<Rightarrow> Some (rt, Panic)
           | None \<Rightarrow> None)
      | Some (rt, _) \<Rightarrow> Some (rt, Panic)
      | None \<Rightarrow> None)"

end
