(* ===== verification/Runner_Lemmas.thy ===== *)
theory Runner_Lemmas
  imports Runner
begin

text \<open>Facts that the proofs about the runner share: positions in range, queues in range, and identifiers.\<close>

named_theorems in_range

lemma the_fiber_in [in_range]: "pos < length (r_fibers rt) \<Longrightarrow> the_fiber rt pos = (rt, Ok (r_fibers rt ! pos))"
  by (simp add: the_fiber_def index_in lift_def)

lemma mod_fiber_in [in_range]:
  "pos < length (r_fibers rt) \<Longrightarrow>
   mod_fiber rt pos f = (rt\<lparr>r_fibers := (r_fibers rt)[pos := f (r_fibers rt ! pos)]\<rparr>, Ok ())"
  by (simp add: mod_fiber_def the_fiber_in)

lemma the_fiber_out: "\<not> pos < length (r_fibers rt) \<Longrightarrow> the_fiber rt pos = (rt, Panic)"
  by (simp add: the_fiber_def index_def lift_def)

lemma mod_fiber_out: "\<not> pos < length (r_fibers rt) \<Longrightarrow> mod_fiber rt pos f = (rt, Panic)"
  by (simp add: mod_fiber_def the_fiber_out)

lemma toexec_push_in [in_range]:
  "n < length (toexec_fibers p) \<Longrightarrow>
   toexec_push p n x = (p\<lparr>toexec_fibers := (toexec_fibers p)[n := toexec_fibers p ! n @ [x]]\<rparr>, Ok ())"
  by (simp add: toexec_push_def queue_push_in)

lemma toexec_pop_in [in_range]:
  "n < length (toexec_fibers p) \<Longrightarrow>
   toexec_pop p n = (p\<lparr>toexec_fibers := (toexec_fibers p)[n := snd (pop_front (toexec_fibers p ! n))]\<rparr>,
     Ok (fst (pop_front (toexec_fibers p ! n))))"
  by (simp add: toexec_pop_def queue_pop_in)

lemma timedout_pop_in [in_range]:
  "n < length (timedout_fibers p) \<Longrightarrow>
   timedout_pop p n = (p\<lparr>timedout_fibers := (timedout_fibers p)[n := snd (pop_front (timedout_fibers p ! n))]\<rparr>,
     Ok (fst (pop_front (timedout_fibers p ! n))))"
  by (simp add: timedout_pop_def queue_pop_in)

lemma dns_check_in [in_range]:
  "n < length (lookup_results p) \<Longrightarrow>
   dns_check p n = (p\<lparr>lookup_results := (lookup_results p)[n := snd (pop_front (lookup_results p ! n))]\<rparr>,
     Ok (fst (pop_front (lookup_results p ! n))))"
  by (simp add: dns_check_def queue_pop_in)

text \<open>Identifiers take apart into the runner and the position they were made from.\<close>

lemma runner_id_split:
  assumes "runner < 256" "pos < 2 ^ 32"
  shows "split_id (runner_id runner pos) = (runner, word_of_nat pos)"
proof -
  let ?p = "word_of_nat pos :: usize" and ?r = "word_of_nat runner :: usize"
  have up: "unat ?p = pos" and ur: "unat ?r = runner" using assms by (simp_all add: unat_of_nat)
  have un: "bit (unat v) n" if "bit v n" for v :: usize and n
    unfolding bit_unsigned_iff using that by simp
  have bp: "n < 32" if "bit ?p n" for n
    using bit_small_nat [OF assms(2)] un [OF that] unfolding up by blast
  have br: "n < 8" if "bit ?r n" for n
    using bit_small_nat [of runner 8] assms(1) un [OF that] unfolding ur by simp
  have "drop_bit 40 (?p OR push_bit 40 ?r) AND 255 = ?r"
  proof (rule bit_word_eqI)
    fix n assume "n < LENGTH(64)"
    have "bit (255 :: usize) n \<longleftrightarrow> n < 8" using bit_mask_iff [of 8 n, where ?'a = usize]
      by (auto simp: mask_eq_exp_minus_1 \<open>n < LENGTH(64)\<close>)
    then show "bit (drop_bit 40 (?p OR push_bit 40 ?r) AND 255) n = bit ?r n"
      using bp [of "n + 40"] br [of n] by (auto simp: bit_simps add.commute)
  qed
  moreover have "(?p OR push_bit 40 ?r) AND 0xFFFFFFFF = ?p"
  proof (rule bit_word_eqI)
    fix n assume "n < LENGTH(64)"
    have "bit (0xFFFFFFFF :: usize) n \<longleftrightarrow> n < 32" using bit_mask_iff [of 32 n, where ?'a = usize]
      by (auto simp: mask_eq_exp_minus_1 \<open>n < LENGTH(64)\<close>)
    then show "bit ((?p OR push_bit 40 ?r) AND 0xFFFFFFFF) n = bit ?p n"
      using bp [of n] by (auto simp: bit_simps)
  qed
  ultimately show ?thesis using ur by (simp add: split_id_def runner_id_def)
qed

lemma runner_id_handle: "runner < 256 \<Longrightarrow> pos < 2 ^ 32 \<Longrightarrow> unat (runner_id runner pos AND 0xFFFFFFFF) = pos"
  using runner_id_split [of runner pos] by (simp add: split_id_def unat_of_nat)

lemma register_interest_Ok:
  assumes "pos < length (r_fibers rt)" "fiber_register (e_os env) (r_fibers rt ! pos) rdy (r_world rt) = (fib, w, Ok ())"
  shows "register_interest env rt pos rdy = (rt\<lparr>r_fibers := (r_fibers rt)[pos := fib], r_world := w\<rparr>, Ok (Ok ()))"
  using assms by (simp add: register_interest_def in_range)

end
