(* ===== verification/Runner_Life.thy ===== *)
theory Runner_Life
  imports Runner_Lemmas
begin

text \<open>The life of a fiber: entering it, returning from it, waiting with a timeout, hibernating, and its children.\<close>

section \<open>Entering and leaving\<close>

lemma fiber_run_halt: "code_step env i c rt = Some (rt', Ok (Inr h)) \<Longrightarrow> fiber_run env i c rt = Some (rt', Ok h)"
  by (subst fiber_run.simps) simp

lemma fiber_run_step: "code_step env i c rt = Some (rt', Ok (Inl c')) \<Longrightarrow> fiber_run env i c rt = fiber_run env i c' rt'"
  by (subst fiber_run.simps) simp

lemma fiber_run_Return [simp]: "fiber_run env i (Prog (Return r)) rt = Some (rt, Ok (Returned r))"
  by (rule fiber_run_halt) (simp add: code_step_def)

text \<open>A call that the library answers at once, after one attempt, or by suspending the fiber.\<close>

lemma fiber_run_answered:
  "call_turn env rt i rq = (rt', Ok (Finish x)) \<Longrightarrow> fiber_run env i (Prog (Call rq k)) rt = fiber_run env i (Prog (k x)) rt'"
  by (rule fiber_run_step) (simp add: code_step_def)

lemma fiber_run_attempt:
  assumes "call_turn env rt i rq = (rt, Ok (Goto pt))" "at_turn env rt i pt = Some (rt', Ok (Finish x))"
  shows "fiber_run env i (Prog (Call rq k)) rt = fiber_run env i (Prog (k x)) rt'"
proof -
  have "fiber_run env i (Prog (Call rq k)) rt = fiber_run env i (At pt k) rt"
    by (rule fiber_run_step) (simp add: code_step_def assms(1))
  also have "\<dots> = fiber_run env i (Prog (k x)) rt'"
    by (rule fiber_run_step) (simp add: code_step_def assms(2))
  finally show ?thesis .
qed

lemma fiber_run_blocks:
  assumes "call_turn env rt i rq = (rt, Ok (Goto pt))" "at_turn env rt i pt = Some (rt', Ok (StepOut pt'))"
  shows "fiber_run env i (Prog (Call rq k)) rt = Some (rt', Ok (Suspended pt' k))"
proof -
  have "fiber_run env i (Prog (Call rq k)) rt = fiber_run env i (At pt k) rt"
    by (rule fiber_run_step) (simp add: code_step_def assms(1))
  also have "\<dots> = Some (rt', Ok (Suspended pt' k))"
    by (rule fiber_run_halt) (simp add: code_step_def assms(2))
  finally show ?thesis .
qed

text \<open>What happens once the body has stopped.\<close>

definition settle ::
  "nat \<Rightarrow> nat \<Rightarrow> (('w, 's, 'k, 'p, 'r, 'f) runner_int \<times> (unit, ('p, 'r, 'f) halt) res) option \<Rightarrow>
    (('w, 's, 'k, 'p, 'r, 'f) runner_int \<times> (unit, unit) res) option" where
  "settle pos i =
     map_option (\<lambda>m. bindS m (\<lambda>rt h. bindS (leave_ctx rt pos i h)
       (\<lambda>rt t. mod_fiber rt pos (\<lambda>fib. fib\<lparr>f_t := Some t\<rparr>))))"

text \<open>Entering a fiber for the first time: a stack, a fresh context, and the body from its start.\<close>

definition running :: "'k \<Rightarrow> ('p, 'r, 'f, 'k) fiber_int \<Rightarrow> ('p, 'r, 'f, 'k) fiber_int" where
  "running st fib = fib\<lparr>f_stack := Some st, f_state := Stacked, f_t := Some MainCtx, f_param := None\<rparr>"

lemma running_simps [simp]:
  "f_stack (running st fib) = Some st" "f_state (running st fib) = Stacked" "f_t (running st fib) = Some MainCtx"
  "f_param (running st fib) = None" "f_me (running st fib) = f_me fib" "f_sock (running st fib) = f_sock fib"
  "f_func (running st fib) = f_func fib" "f_parent (running st fib) = f_parent fib" "f_result (running st fib) = f_result fib"
  "f_ready (running st fib) = f_ready fib" "f_wtoken (running st fib) = f_wtoken fib"
  "f_connect_param (running st fib) = f_connect_param fib" "f_generation (running st fib) = f_generation fib"
  by (simp_all add: running_def)

lemma enter_fresh:
  assumes "pos < length (r_fibers rt)" "r_fibers rt ! pos = fib"
    and "f_func fib = Some g" "f_param fib = Some p" "f_t fib = None"
    and "stack_pop (e_stack env) (r_poller rt) = (pl, Ok st)"
  shows "enter_fiber env rt pos =
    settle pos (handle_id fib) (fiber_run env (handle_id fib) (Prog (e_code env g p))
      (rt\<lparr>r_poller := pl, r_fibers := (r_fibers rt)[pos := running st fib]\<rparr>))"
  using assms
  by (simp add: enter_fiber_def in_range on_poller_def resume_ctx_def enter_ctx_def context_function_def settle_def
      running_def lift_def bindS_assoc handle_id_def option.map_comp comp_def)

text \<open>Entering a suspended fiber: its context is resumed behind the point where it stepped out.\<close>

lemma enter_suspended:
  assumes "pos < length (r_fibers rt)" "r_fibers rt ! pos = fib"
    and "f_func fib = Some g" "f_t fib = Some (FiberCtx pt k)" "handle_id fib = pos"
  shows "enter_fiber env rt pos =
    settle pos pos (fiber_run env pos (Back pt k) (rt\<lparr>r_fibers := (r_fibers rt)[pos := fib\<lparr>f_t := Some MainCtx\<rparr>]\<rparr>))"
  using assms
  by (simp add: enter_fiber_def in_range resume_ctx_def enter_ctx_def settle_def lift_def bindS_assoc handle_id_def
      option.map_comp comp_def)

lemma take_result_in [in_range]:
  "pos < length (r_fibers rt) \<Longrightarrow> take_result rt pos =
    (rt\<lparr>r_fibers := (r_fibers rt)[pos := (r_fibers rt ! pos)\<lparr>f_result := None\<rparr>],
        r_results := r_results rt @ (case f_result (r_fibers rt ! pos) of Some r \<Rightarrow> [r] | None \<Rightarrow> [])\<rparr>, Ok ())"
  by (simp add: take_result_def in_range push_back_def split: option.split)

section \<open>Queues that are empty\<close>

definition idle :: "('w, 's, 'k, 'p, 'r, 'f) runner_int \<Rightarrow> bool" where
  "idle rt \<longleftrightarrow>
     r_pos rt < MAX_RUNNERS \<and> length (toexec_fibers (r_poller rt)) = MAX_RUNNERS \<and>
     length (timedout_fibers (r_poller rt)) = MAX_RUNNERS \<and> length (lookup_results (r_poller rt)) = MAX_RUNNERS \<and>
     toexec_fibers (r_poller rt) ! r_pos rt = [] \<and> timedout_fibers (r_poller rt) ! r_pos rt = [] \<and>
     lookup_results (r_poller rt) ! r_pos rt = []"

lemma upd_same: "i < length xs \<Longrightarrow> xs ! i = v \<Longrightarrow> xs[i := v] = xs"
  by auto

lemma run_toexec_idle: "idle rt \<Longrightarrow> run_toexec env rt = Some (rt, Ok ())"
  by (subst run_toexec.simps) (simp add: pop_toexec_def on_poller_def in_range idle_def upd_same)

lemma runner_run_idle:
  assumes "idle rt"
  shows "runner_run env rt = Some (rt, Ok (signaled rt))"
proof -
  have a: "run_toexec env rt = Some (rt, Ok ())" by (rule run_toexec_idle [OF assms])
  have b: "run_lookups env rt = Some (rt, Ok ())"
    using assms by (subst run_lookups.simps) (simp add: on_poller_def in_range idle_def upd_same)
  have c: "run_timeouts env rt = Some (rt, Ok ())"
    using assms by (subst run_timeouts.simps) (simp add: on_poller_def in_range idle_def upd_same)
  show ?thesis by (simp add: runner_run_def a b c)
qed

section \<open>Registering\<close>

definition free_slot :: "('w, 's, 'k, 'p, 'r, 'f) runner_int \<Rightarrow> nat" where
  "free_slot rt = (case r_free_fibers rt of [] \<Rightarrow> length (r_fibers rt) | q # _ \<Rightarrow> q)"

definition put_fiber :: "'a list \<Rightarrow> nat \<Rightarrow> 'a \<Rightarrow> 'a list" where
  "put_fiber xs i x = (if i < length xs then xs[i := x] else xs @ [x])"

definition next_generation :: "('w, 's, 'k, 'p, 'r, 'f) runner_int \<Rightarrow> usize" where
  "next_generation rt = (if r_free_fibers rt = [] then 0 else f_generation (r_fibers rt ! free_slot rt) + 1)"

lemma length_put_fiber: "i \<le> length xs \<Longrightarrow> length (put_fiber xs i x) = max (length xs) (i + 1)"
  by (auto simp: put_fiber_def)

lemma nth_put_fiber: "i \<le> length xs \<Longrightarrow> put_fiber xs i x ! j = (if j = i then x else xs ! j) \<or> length xs < j"
  by (auto simp: put_fiber_def nth_append nth_list_update)

lemma place_fiber_plain:
  assumes "\<And>s. ft \<noteq> S_Listener s" "\<forall>q \<in> set (r_free_fibers rt). q < length (r_fibers rt)"
  shows "place_fiber env rt func ft param parent =
    (rt\<lparr>r_free_fibers := tl (r_free_fibers rt),
        r_fibers := put_fiber (r_fibers rt) (free_slot rt)
          (new_fiber (r_pos rt) func ft param parent (fiber_id rt (free_slot rt)) (next_generation rt))\<rparr>,
     Ok (Ok (free_slot rt)))"
proof -
  have w: "watch_listener env rt fib = (rt, Ok (Ok fib))" if "f_sock fib = ft" for rt fib
    using assms(1) that by (cases ft) (auto simp: watch_listener_def)
  show ?thesis
  proof (cases "r_free_fibers rt")
    case Nil
    then show ?thesis
      using assms by (simp add: place_fiber_def w new_fiber_def free_slot_def put_fiber_def next_generation_def)
  next
    case (Cons q qs)
    then show ?thesis
      using assms by (simp add: place_fiber_def in_range w new_fiber_def free_slot_def put_fiber_def next_generation_def
          fiber_id_def)
  qed
qed

lemma push_toexec_in [in_range]:
  "r_pos rt < length (toexec_fibers (r_poller rt)) \<Longrightarrow> push_toexec rt pos =
    (rt\<lparr>r_poller := (r_poller rt)\<lparr>toexec_fibers := (toexec_fibers (r_poller rt))
       [r_pos rt := toexec_fibers (r_poller rt) ! r_pos rt @ [word_of_nat pos]]\<rparr>\<rparr>, Ok ())"
  by (simp add: push_toexec_def on_poller_def in_range)

section \<open>A fiber from start to end\<close>

lemma exec_fiber_plain:
  "pos < length (r_fibers rt) \<Longrightarrow> f_connect_param (r_fibers rt ! pos) = None \<Longrightarrow> exec_fiber env pos rt = step_into env pos rt"
  by (simp add: exec_fiber_def in_range)

lemma stack_pop_ok:
  assumes "\<And>n. \<exists>st. mk n = Ok st"
  obtains q st where "stack_pop mk p = (p\<lparr>free_stacks := q\<rparr>, Ok st)"
proof (cases "free_stacks p")
  case Nil
  obtain st where "mk (stack_size p) = Ok st" using assms by blast
  then show ?thesis using that Nil by (cases "stack_size p") (auto simp: stack_pop_def)
next
  case (Cons s q)
  then show ?thesis using that by (auto simp: stack_pop_def)
qed

section \<open>Waiting with a timeout\<close>

text \<open>What a wait that timed out returns to the body.\<close>

fun timeout_resp :: "point \<Rightarrow> 'r resp option" where
  "timeout_resp (At_read n) = Some (Rs_read (Err read_timeout))"
| "timeout_resp (At_read_bufs bufs) = Some (Rs_read_bufs bufs (Err read_timeout))"
| "timeout_resp (At_write buf) = Some (Rs_write (Err write_timeout))"
| "timeout_resp (At_write_bufs bufs) = Some (Rs_write (Err write_timeout))"
| "timeout_resp (At_tls cr) = Some (Rs_io (Err write_timeout))"
| "timeout_resp _ = None"

lemma back_turn_timeout:
  assumes "pos < length (r_fibers rt)" "f_wtoken (r_fibers rt ! pos) = None" "f_timed_out (r_fibers rt ! pos) > 0"
    and "timeout_resp pt = Some resp"
  shows "back_turn env rt pos pt =
    (rt\<lparr>r_fibers := (r_fibers rt)[pos := (r_fibers rt ! pos)\<lparr>f_timed_out := 0\<rparr>]\<rparr>, Ok (Finish resp))"
  using assms by (cases pt) (auto simp: back_turn_def after_wait_def tls_back_def disarm_timeout_def in_range)

definition timed_out_fiber :: "('p, 'r, 'f, 'k) fiber_int \<Rightarrow> ('p, 'r, 'f, 'k) fiber_int" where
  "timed_out_fiber fib = fib\<lparr>f_wtoken := None, f_t := Some MainCtx, f_timed_out := 0\<rparr>"

lemma exec_timeout_resumes:
  assumes "pos < length (r_fibers rt)" "r_fibers rt ! pos = fib" "f_wtoken fib = Some tk" "f_connect_param fib = None"
    and "f_func fib = Some g" "f_t fib = Some (FiberCtx pt k)" "handle_id fib = pos" "timeout_resp pt = Some resp"
  defines "rt1 \<equiv> rt\<lparr>r_fibers := (r_fibers rt)[pos := fib\<lparr>f_wtoken := None, f_timed_out := 1\<rparr>]\<rparr>"
    and "rt2 \<equiv> rt\<lparr>r_fibers := (r_fibers rt)[pos := timed_out_fiber fib]\<rparr>"
  shows "exec_timeout env pos rt = step_into env pos rt1"
    "enter_fiber env rt1 pos = settle pos pos (fiber_run env pos (Prog (k resp)) rt2)"
proof -
  show "exec_timeout env pos rt = step_into env pos rt1"
    using assms(1-4) by (simp add: exec_timeout_def in_range rt1_def)
  let ?rt = "rt1\<lparr>r_fibers := (r_fibers rt1)[pos := (r_fibers rt1 ! pos)\<lparr>f_t := Some MainCtx\<rparr>]\<rparr>"
  have "enter_fiber env rt1 pos = settle pos pos (fiber_run env pos (Back pt k) ?rt)"
    using assms(1-7) by (intro enter_suspended) (simp_all add: rt1_def handle_id_def)
  also have "fiber_run env pos (Back pt k) ?rt = fiber_run env pos (Prog (k resp)) rt2"
  proof (rule fiber_run_step)
    have "back_turn env ?rt pos pt =
        (?rt\<lparr>r_fibers := (r_fibers ?rt)[pos := (r_fibers ?rt ! pos)\<lparr>f_timed_out := 0\<rparr>]\<rparr>, Ok (Finish resp))"
      using assms(1,8) by (intro back_turn_timeout) (simp_all add: rt1_def)
    also have "?rt\<lparr>r_fibers := (r_fibers ?rt)[pos := (r_fibers ?rt ! pos)\<lparr>f_timed_out := 0\<rparr>]\<rparr> = rt2"
      using assms(1) by (simp add: rt1_def rt2_def timed_out_fiber_def)
    finally show "code_step env pos (Back pt k) ?rt = Some (rt2, Ok (Inl (Prog (k resp))))"
      by (simp add: code_step_def)
  qed
  finally show "enter_fiber env rt1 pos = settle pos pos (fiber_run env pos (Prog (k resp)) rt2)" .
qed

section \<open>Hibernation\<close>

definition hibernated :: "('p, 'r, 'f, 'k) fiber_int \<Rightarrow> ('p, 'r, 'f, 'k) fiber_int" where
  "hibernated fib = fib\<lparr>f_param := None, f_state := Unstacked, f_stack := None, f_t := None\<rparr>"

lemma step_into_hibernate:
  assumes "pos < length (r_fibers rt)" "r_fibers rt ! pos = fib" "handle_id fib = pos"
    "f_func fib = Some g" "f_param fib = Some p" "f_t fib = None" "f_parent fib = None" "f_result fib = None"
    "stack_pop (e_stack env) (r_poller rt) = (pl, Ok st)" "e_code env g p = Call Rq_hibernate_join_main k"
  shows "step_into env pos rt =
    Some (rt\<lparr>r_poller := stack_push pl st, r_fibers := (r_fibers rt)[pos := hibernated fib],
             r_tomain_fibers := r_tomain_fibers rt @ [fiber_ref_new (r_pos rt) pos]\<rparr>, Ok ())"
proof -
  let ?rt1 = "rt\<lparr>r_poller := pl, r_fibers := (r_fibers rt)[pos := running st fib]\<rparr>"
  let ?rt2 = "rt\<lparr>r_poller := pl, r_fibers := (r_fibers rt)[pos := (running st fib)\<lparr>f_state := Unstacked\<rparr>],
      r_tomain_fibers := r_tomain_fibers rt @ [fiber_ref_new (r_pos rt) pos]\<rparr>"
  have "fiber_run env pos (Prog (Call Rq_hibernate_join_main k)) ?rt1 = Some (?rt2, Ok (Suspended At_hibernate_join_main k))"
    using assms(1) by (intro fiber_run_halt) (simp add: code_step_def call_turn_def hibernate_join_main_def in_range push_back_def)
  then have "enter_fiber env rt pos = Some (?rt2\<lparr>r_fibers := (r_fibers rt)[pos := (running st fib)\<lparr>f_state := Unstacked,
      f_t := Some (FiberCtx At_hibernate_join_main k)\<rparr>]\<rparr>, Ok ())"
    using enter_fresh [OF assms(1,2,4,5,6,9)] assms(1,3,10)
    by (simp add: settle_def leave_ctx_def leave_fiber_def in_range lift_def)
  then show ?thesis
    using assms(1,7,8)
    by (subst step_into.simps) (simp add: stepped_out_def unstack_def in_range lift_def running_def hibernated_def)
qed

lemma step_into_join_main:
  assumes "pos < length (r_fibers rt)" "r_fibers rt ! pos = fib" "handle_id fib = pos"
    "f_func fib = Some g" "f_param fib = Some p" "f_t fib = None" "f_parent fib = None" "f_result fib = None"
    "stack_pop (e_stack env) (r_poller rt) = (pl, Ok st)" "e_code env g p = Call Rq_join_main k"
  shows "step_into env pos rt =
    Some (rt\<lparr>r_poller := pl, r_fibers := (r_fibers rt)[pos := (running st fib)\<lparr>f_t := Some (FiberCtx At_join_main k)\<rparr>],
             r_tomain_fibers := r_tomain_fibers rt @ [fiber_ref_new (r_pos rt) pos]\<rparr>, Ok ())"
proof -
  let ?rt1 = "rt\<lparr>r_poller := pl, r_fibers := (r_fibers rt)[pos := running st fib]\<rparr>"
  let ?rt2 = "?rt1\<lparr>r_tomain_fibers := r_tomain_fibers rt @ [fiber_ref_new (r_pos rt) pos]\<rparr>"
  have "fiber_run env pos (Prog (Call Rq_join_main k)) ?rt1 = Some (?rt2, Ok (Suspended At_join_main k))"
    by (intro fiber_run_halt) (simp add: code_step_def call_turn_def join_main_def push_back_def)
  then have "enter_fiber env rt pos =
      Some (?rt2\<lparr>r_fibers := (r_fibers rt)[pos := (running st fib)\<lparr>f_t := Some (FiberCtx At_join_main k)\<rparr>]\<rparr>, Ok ())"
    using enter_fresh [OF assms(1,2,4,5,6,9)] assms(1,3,10)
    by (simp add: settle_def leave_ctx_def leave_fiber_def in_range lift_def)
  then show ?thesis
    using assms(1,7,8) by (subst step_into.simps) (simp add: stepped_out_def in_range)
qed

lemma step_into_without_param:
  assumes "pos < length (r_fibers rt)" "f_func (r_fibers rt ! pos) = Some g" "f_t (r_fibers rt ! pos) = None"
    "f_param (r_fibers rt ! pos) = None" "stack_pop (e_stack env) (r_poller rt) = (pl, Ok st)"
  shows "\<exists>rt'. step_into env pos rt = Some (rt', Panic)"
  using assms
  by (subst step_into.simps)
    (simp add: enter_fiber_def in_range on_poller_def resume_ctx_def enter_ctx_def context_function_def lift_def)

section \<open>Children\<close>

definition child_ready :: "('p, 'r, 'f, 'k) fiber_int list \<Rightarrow> nat \<Rightarrow> bool" where
  "child_ready fibs c \<longleftrightarrow> f_state (fibs ! c) = Closed \<or> f_result (fibs ! c) \<noteq> None"

lemma find_child_Cons:
  "c < length fibs \<Longrightarrow> find_child fibs i (c # cs) =
    (if child_ready fibs c then Ok (Some (i, c)) else find_child fibs (i + 1) cs)"
  by (simp add: index_in child_ready_def)

declare find_child.simps(2) [simp del]

lemma find_child_none:
  "\<forall>c \<in> set cs. c < length fibs \<Longrightarrow> find (child_ready fibs) cs = None \<Longrightarrow> find_child fibs i cs = Ok None"
  by (induction cs arbitrary: i) (auto simp: find_child_Cons split: if_splits)

lemma find_child_some:
  "\<forall>c \<in> set cs. c < length fibs \<Longrightarrow> find (child_ready fibs) cs = Some c \<Longrightarrow>
   \<exists>n < length cs. cs ! n = c \<and> find_child fibs i cs = Ok (Some (i + n, c))"
proof (induction cs arbitrary: i)
  case (Cons x xs)
  show ?case
  proof (cases "child_ready fibs x")
    case True
    then show ?thesis using Cons.prems by (intro exI [of _ 0]) (simp add: find_child_Cons)
  next
    case False
    then obtain n where "n < length xs" "xs ! n = c" "find_child fibs (i + 1) xs = Ok (Some (i + 1 + n, c))"
      using Cons.prems Cons.IH [of "i + 1"] by auto
    then show ?thesis using False Cons.prems by (intro exI [of _ "Suc n"]) (simp add: find_child_Cons)
  qed
qed simp

lemma child_turn_blocked:
  assumes "parent < length (r_fibers rt)" "\<forall>c \<in> set (f_children (r_fibers rt ! parent)). c < length (r_fibers rt)"
    and "find (child_ready (r_fibers rt)) (f_children (r_fibers rt ! parent)) = None"
  shows "child_turn rt parent =
    (rt, Ok (if f_children (r_fibers rt ! parent) = [] then Finish (Rs_opt None) else StepOut At_child_iter))"
  using assms find_child_none [OF assms(2,3), of 0] by (simp add: child_turn_def in_range)

lemma child_turn_ready:
  assumes par: "parent < length (r_fibers rt)"
    and cs: "\<forall>c \<in> set (f_children (r_fibers rt ! parent)). c < length (r_fibers rt) \<and> c \<noteq> parent"
    and q: "r_pos rt < length (toexec_fibers (r_poller rt))"
    and c: "find (child_ready (r_fibers rt)) (f_children (r_fibers rt ! parent)) = Some c"
  defines "fib \<equiv> r_fibers rt ! c"
  shows "\<exists>rt'. child_turn rt parent =
      (rt', Ok (case f_result fib of Some r \<Rightarrow> Finish (Rs_opt (Some r)) | None \<Rightarrow> Goto At_child_iter)) \<and>
    r_fibers rt' ! c = fib\<lparr>f_result := None\<rparr> \<and>
    (if f_state fib = Closed
     then mset (f_children (r_fibers rt' ! parent)) = mset (f_children (r_fibers rt ! parent)) - {#c#} \<and>
       r_free_fibers rt' = r_free_fibers rt @ [c] \<and> r_poller rt' = r_poller rt
     else r_fibers rt' ! parent = r_fibers rt ! parent \<and> r_free_fibers rt' = r_free_fibers rt \<and>
       toexec_fibers (r_poller rt') ! r_pos rt = toexec_fibers (r_poller rt) ! r_pos rt @ [word_of_nat c])"
proof -
  let ?cs = "f_children (r_fibers rt ! parent)"
  have cs': "\<forall>c \<in> set ?cs. c < length (r_fibers rt)" using cs by blast
  obtain n where n: "n < length ?cs" "?cs ! n = c" "find_child (r_fibers rt) 0 ?cs = Ok (Some (n, c))"
    using find_child_some [OF cs' c, of 0] by auto
  have cin: "c < length (r_fibers rt)" "c \<noteq> parent" using cs n(1,2) nth_mem by blast+
  have ne: "?cs \<noteq> []" using n(1) by auto
  have ms: "mset (swap_remove_front ?cs n) = mset ?cs - {#c#}" using mset_swap_remove_front [OF n(1)] n(2) by simp
  show ?thesis
  proof (cases "f_state fib = Closed")
    case True
    then show ?thesis
      using par cin ne n(3) ms
      by (cases "f_result fib") (simp_all add: child_turn_def in_range lift_def fib_def push_back_def)
  next
    case False
    then show ?thesis
      using par cin ne n(3) q
      by (cases "f_result fib") (simp_all add: child_turn_def in_range lift_def fib_def)
  qed
qed

end
