(* ===== verification/Runner_Stream.thy ===== *)
theory Runner_Stream
  imports Runner_Life
begin

text \<open>
  A fiber from start to end: a body that hands a sequence of chunks to the main stack (\<^verbatim>\<open>resp_chunk\<close>) and returns.
\<close>

primrec stream :: "'r list \<Rightarrow> 'r option \<Rightarrow> ('p, 'r, 'f) prog" where
  "stream [] res = Return res"
| "stream (c # cs) res = Call (Rq_resp_chunk c) (\<lambda>_. stream cs res)"

text \<open>The fiber after its body has run up to its next chunk or its end.\<close>

fun streamed :: "'r list \<Rightarrow> 'r option \<Rightarrow> ('p, 'r, 'f, 'k) fiber_int \<Rightarrow> ('p, 'r, 'f, 'k) fiber_int" where
  "streamed [] res fib = fib\<lparr>f_result := res, f_state := Closed, f_t := Some DeadCtx\<rparr>"
| "streamed (c # cs) res fib = fib\<lparr>f_result := Some c, f_t := Some (FiberCtx At_resp_chunk (\<lambda>_. stream cs res))\<rparr>"

lemma settle_stream:
  assumes "pos < length (r_fibers rt)" "r_fibers rt ! pos = fib" "f_t fib = Some MainCtx"
  shows "settle pos pos (fiber_run env pos (Prog (stream cs res)) rt) =
    Some (rt\<lparr>r_fibers := (r_fibers rt)[pos := streamed cs res fib]\<rparr>, Ok ())"
proof (cases cs)
  case Nil
  then show ?thesis using assms by (simp add: settle_def leave_ctx_def leave_fiber_def in_range lift_def)
next
  case (Cons c cs')
  have "fiber_run env pos (Prog (stream cs res)) rt =
      Some (rt\<lparr>r_fibers := (r_fibers rt)[pos := fib\<lparr>f_result := Some c\<rparr>]\<rparr>, Ok (Suspended At_resp_chunk (\<lambda>_. stream cs' res)))"
    using assms Cons by (intro fiber_run_halt) (simp add: code_step_def call_turn_def resp_chunk_def in_range)
  then show ?thesis using assms Cons by (simp add: settle_def leave_ctx_def leave_fiber_def in_range lift_def)
qed

text \<open>The fiber between two chunks, and after its end.\<close>

definition resting :: "'k \<Rightarrow> 'r list \<Rightarrow> 'r option \<Rightarrow> ('p, 'r, 'f, 'k) fiber_int \<Rightarrow> ('p, 'r, 'f, 'k) fiber_int" where
  "resting st cs res fib =
     fib\<lparr>f_stack := Some st, f_state := Stacked, f_param := None, f_t := Some (FiberCtx At_resp_chunk (\<lambda>_. stream cs res)),
         f_result := None\<rparr>"

definition closed_fiber :: "('p, 'r, 'f, 'k) fiber_int \<Rightarrow> ('p, 'r, 'f, 'k) fiber_int" where
  "closed_fiber fib =
     fib\<lparr>f_param := None, f_state := Closed, f_stack := None, f_t := None, f_sock := S_Empty, f_result := None\<rparr>"

lemma closed_fiber_simps:
  "f_state (closed_fiber fib) = Closed" "f_sock (closed_fiber fib) = S_Empty" "f_t (closed_fiber fib) = None"
  by (simp_all add: closed_fiber_def)

text \<open>What one entry into such a fiber does, when its body still has the chunks \<open>cs\<close> to send.\<close>

fun stream_step :: "'k \<Rightarrow> nat \<Rightarrow> 'r list \<Rightarrow> 'r option \<Rightarrow> ('p, 'r, 'f, 'k) fiber_int \<Rightarrow>
    ('w, 's, 'k, 'p, 'r, 'f) runner_int \<Rightarrow> ('w, 's, 'k, 'p, 'r, 'f) runner_int" where
  "stream_step st pos [] res fib rt =
     rt\<lparr>r_poller := stack_push (r_poller rt) st, r_fibers := (r_fibers rt)[pos := closed_fiber fib],
        r_results := r_results rt @ (case res of Some r \<Rightarrow> [r] | None \<Rightarrow> []), r_free_fibers := r_free_fibers rt @ [pos]\<rparr>"
| "stream_step st pos (c # cs) res fib rt =
     rt\<lparr>r_fibers := (r_fibers rt)[pos := resting st cs res fib], r_results := r_results rt @ [c],
        r_poller := (r_poller rt)\<lparr>toexec_fibers := (toexec_fibers (r_poller rt))
          [r_pos rt := toexec_fibers (r_poller rt) ! r_pos rt @ [word_of_nat pos]]\<rparr>\<rparr>"

lemma stepped_out_stream:
  assumes "pos < length (r_fibers rt)" "r_pos rt < length (toexec_fibers (r_poller rt))" "f_parent fib = None"
  shows "stepped_out (rt\<lparr>r_fibers := (r_fibers rt)[pos := streamed cs res (running st fib)]\<rparr>) pos =
    (stream_step st pos cs res fib rt, Ok None)"
  using assms
  by (cases cs) (simp_all add: stepped_out_def unstack_def in_range lift_def push_back_def resting_def closed_fiber_def running_def)

lemma step_into_stream_first:
  assumes "pos < length (r_fibers rt)" "r_fibers rt ! pos = fib" "r_pos rt < length (toexec_fibers (r_poller rt))"
    "f_func fib = Some g" "f_param fib = Some p" "f_t fib = None" "f_parent fib = None" "handle_id fib = pos"
    "stack_pop (e_stack env) (r_poller rt) = ((r_poller rt)\<lparr>free_stacks := fq\<rparr>, Ok st)" "e_code env g p = stream cs res"
  shows "step_into env pos rt =
    Some (stream_step st pos cs res fib (rt\<lparr>r_poller := (r_poller rt)\<lparr>free_stacks := fq\<rparr>\<rparr>), Ok ())"
proof -
  let ?rt = "rt\<lparr>r_poller := (r_poller rt)\<lparr>free_stacks := fq\<rparr>\<rparr>"
  have "enter_fiber env rt pos = Some (?rt\<lparr>r_fibers := (r_fibers ?rt)[pos := streamed cs res (running st fib)]\<rparr>, Ok ())"
    using enter_fresh [OF assms(1,2,4,5,6,9)] assms(1,8,10) by (simp add: settle_stream)
  then show ?thesis
    using stepped_out_stream [of pos ?rt fib cs res st] assms(1,3,7) by (subst step_into.simps) simp
qed

lemma step_into_stream_next:
  assumes "pos < length (r_fibers rt)" "r_fibers rt ! pos = resting st cs res fib"
    "r_pos rt < length (toexec_fibers (r_poller rt))"
    "f_func fib = Some g" "f_parent fib = None" "handle_id fib = pos"
  shows "step_into env pos rt = Some (stream_step st pos cs res (fib\<lparr>f_param := None, f_result := None\<rparr>) rt, Ok ())"
proof -
  let ?fib = "fib\<lparr>f_param := None, f_result := None\<rparr>"
  let ?rt = "rt\<lparr>r_fibers := (r_fibers rt)[pos := running st ?fib]\<rparr>"
  have "fiber_run env pos (Back At_resp_chunk (\<lambda>_. stream cs res)) ?rt = fiber_run env pos (Prog (stream cs res)) ?rt"
    by (rule fiber_run_step) (simp add: code_step_def back_turn_def)
  moreover have "(resting st cs res fib)\<lparr>f_t := Some MainCtx\<rparr> = running st ?fib" by (simp add: resting_def running_def)
  ultimately have "enter_fiber env rt pos = Some (rt\<lparr>r_fibers := (r_fibers rt)[pos := streamed cs res (running st ?fib)]\<rparr>, Ok ())"
    using enter_suspended [OF assms(1,2), of g At_resp_chunk "\<lambda>_. stream cs res" env] assms(1,4,6)
    by (simp add: resting_def handle_id_def settle_stream)
  then show ?thesis
    using stepped_out_stream [of pos rt ?fib cs res st] assms(1,3,5) by (subst step_into.simps) simp
qed

text \<open>The whole life: what the run queue does once it has entered the fiber for the first time.\<close>

lemma run_toexec_one:
  assumes "r_pos rt < length (toexec_fibers (r_poller rt))"
    and "toexec_fibers (r_poller rt) ! r_pos rt = [word_of_nat pos]" "pos < 2 ^ 64" "pos < length (r_fibers rt)"
    and "f_connect_param (r_fibers rt ! pos) = None"
    and "step_into env pos (rt\<lparr>r_poller := (r_poller rt)\<lparr>toexec_fibers := (toexec_fibers (r_poller rt))[r_pos rt := []]\<rparr>\<rparr>)
      = Some (rt', Ok ())"
  shows "run_toexec env rt = run_toexec env rt'"
proof -
  have u: "unat (word_of_nat pos :: usize) = pos" using assms(3) by (simp add: unat_of_nat)
  show ?thesis
    using assms by (subst run_toexec.simps) (simp add: pop_toexec_def on_poller_def in_range u exec_fiber_plain)
qed

definition finished :: "'k \<Rightarrow> nat \<Rightarrow> 'r list \<Rightarrow> 'r option \<Rightarrow> ('w, 's, 'k, 'p, 'r, 'f) runner_int \<Rightarrow>
    ('w, 's, 'k, 'p, 'r, 'f) runner_int \<Rightarrow> bool" where
  "finished st pos cs res rt rt' \<longleftrightarrow>
     r_results rt' = r_results rt @ cs @ (case res of Some r \<Rightarrow> [r] | None \<Rightarrow> []) \<and>
     r_free_fibers rt' = r_free_fibers rt @ [pos] \<and> r_tomain_fibers rt' = r_tomain_fibers rt \<and> r_pos rt' = r_pos rt \<and>
     (\<exists>fib. f_state fib = Closed \<and> f_sock fib = S_Empty \<and> f_t fib = None \<and> r_fibers rt' = (r_fibers rt)[pos := fib]) \<and>
     r_poller rt' = stack_push ((r_poller rt)\<lparr>toexec_fibers := (toexec_fibers (r_poller rt))[r_pos rt := []]\<rparr>) st"

lemma run_stream:
  assumes "idle rt" "pos < length (r_fibers rt)" "pos < 2 ^ 64" "f_connect_param fib = None"
    "f_func fib = Some g" "f_parent fib = None" "handle_id fib = pos"
  shows "\<exists>rt'. run_toexec env (stream_step st pos cs res fib rt) = Some (rt', Ok ()) \<and> finished st pos cs res rt rt'"
  using assms
proof (induction cs arbitrary: rt fib)
  case Nil
  have "idle (stream_step st pos [] res fib rt)" using Nil.prems(1) by (simp add: idle_def stack_push_def)
  then have "run_toexec env (stream_step st pos [] res fib rt) = Some (stream_step st pos [] res fib rt, Ok ())"
    by (rule run_toexec_idle)
  moreover have "finished st pos [] res rt (stream_step st pos [] res fib rt)"
    using Nil.prems(1) upd_same [of "r_pos rt" "toexec_fibers (r_poller rt)" "[]"]
    by (auto simp: finished_def idle_def intro!: exI [of _ "closed_fiber fib"] closed_fiber_simps)
  ultimately show ?case by blast
next
  case (Cons c cs)
  let ?rt = "rt\<lparr>r_fibers := (r_fibers rt)[pos := resting st cs res fib], r_results := r_results rt @ [c]\<rparr>"
  let ?fib = "fib\<lparr>f_param := None, f_result := None\<rparr>"
  have q: "r_pos rt < length (toexec_fibers (r_poller rt))" "toexec_fibers (r_poller rt) ! r_pos rt = []"
    "(toexec_fibers (r_poller rt))[r_pos rt := []] = toexec_fibers (r_poller rt)"
    using Cons.prems(1) upd_same [of "r_pos rt" "toexec_fibers (r_poller rt)" "[]"] by (simp_all add: idle_def)
  have "step_into env pos ?rt = Some (stream_step st pos cs res ?fib ?rt, Ok ())"
    using Cons.prems q by (intro step_into_stream_next) simp_all
  then have run: "run_toexec env (stream_step st pos (c # cs) res fib rt) = run_toexec env (stream_step st pos cs res ?fib ?rt)"
    using Cons.prems q by (intro run_toexec_one [where pos = pos]) (simp_all add: resting_def)
  have "idle ?rt" using Cons.prems(1) by (simp add: idle_def)
  then obtain rt' where rt': "run_toexec env (stream_step st pos cs res ?fib ?rt) = Some (rt', Ok ())"
    "finished st pos cs res ?rt rt'"
    using Cons.IH [of ?rt ?fib] Cons.prems by (auto simp: handle_id_def)
  have "finished st pos (c # cs) res rt rt'" using rt'(2) by (auto simp: finished_def)
  then show ?case using run rt'(1) by auto
qed

lemma finished_idle: "idle rt \<Longrightarrow> finished st pos cs res rt rt' \<Longrightarrow> idle rt'"
  by (auto simp: idle_def finished_def stack_push_def)

text \<open>
  A fiber that is registered on an idle runner: it is the only one in the run queue, so that its first entry, followed by
  whatever that entry queues, is the whole run.
\<close>

definition placed_fiber ::
  "('w, 's, 'k, 'p, 'r, 'f) runner_int \<Rightarrow> 'f \<Rightarrow> fiber_sock \<Rightarrow> 'p \<Rightarrow> ('p, 'r, 'f, 'k) fiber_int" where
  "placed_fiber rt g ft p = new_fiber (r_pos rt) (Some g) ft (Some p) None (fiber_id rt (free_slot rt)) (next_generation rt)"

definition placed ::
  "('w, 's, 'k, 'p, 'r, 'f) runner_int \<Rightarrow> 'f \<Rightarrow> fiber_sock \<Rightarrow> 'p \<Rightarrow> ('w, 's, 'k, 'p, 'r, 'f) runner_int" where
  "placed rt g ft p =
     rt\<lparr>r_free_fibers := tl (r_free_fibers rt), r_fibers := put_fiber (r_fibers rt) (free_slot rt) (placed_fiber rt g ft p)\<rparr>"

lemma placed_simps [simp]:
  "r_poller (placed rt g ft p) = r_poller rt" "r_pos (placed rt g ft p) = r_pos rt" "r_world (placed rt g ft p) = r_world rt"
  "r_results (placed rt g ft p) = r_results rt" "r_tomain_fibers (placed rt g ft p) = r_tomain_fibers rt"
  "r_free_fibers (placed rt g ft p) = tl (r_free_fibers rt)"
  by (simp_all add: placed_def)

lemma placed_fiber_simps [simp]:
  "f_connect_param (placed_fiber rt g ft p) = None" "f_func (placed_fiber rt g ft p) = Some g"
  "f_parent (placed_fiber rt g ft p) = None" "f_param (placed_fiber rt g ft p) = Some p" "f_t (placed_fiber rt g ft p) = None"
  "f_sock (placed_fiber rt g ft p) = ft" "f_result (placed_fiber rt g ft p) = None" "f_wtoken (placed_fiber rt g ft p) = None"
  "f_me (placed_fiber rt g ft p) = fiber_id rt (free_slot rt)"
  by (simp_all add: placed_fiber_def new_fiber_def)

lemma placed_in:
  assumes "idle rt" "\<forall>q \<in> set (r_free_fibers rt). q < length (r_fibers rt)" "length (r_fibers rt) < 2 ^ 32"
  shows "free_slot rt < length (r_fibers (placed rt g ft p))" "free_slot rt < 2 ^ 32"
    "r_fibers (placed rt g ft p) ! free_slot rt = placed_fiber rt g ft p"
    "handle_id (placed_fiber rt g ft p) = free_slot rt"
    "i < length (r_fibers rt) \<Longrightarrow> i \<noteq> free_slot rt \<Longrightarrow> r_fibers (placed rt g ft p) ! i = r_fibers rt ! i"
proof -
  have pos: "free_slot rt \<le> length (r_fibers rt)" using assms(2) by (auto simp: free_slot_def split: list.splits)
  then show "free_slot rt < length (r_fibers (placed rt g ft p))" "r_fibers (placed rt g ft p) ! free_slot rt = placed_fiber rt g ft p"
    "i < length (r_fibers rt) \<Longrightarrow> i \<noteq> free_slot rt \<Longrightarrow> r_fibers (placed rt g ft p) ! i = r_fibers rt ! i"
    by (auto simp: placed_def put_fiber_def nth_append)
  show p32: "free_slot rt < 2 ^ 32" using pos assms(3) by simp
  show "handle_id (placed_fiber rt g ft p) = free_slot rt"
    using runner_id_handle [of "r_pos rt" "free_slot rt"] p32 assms(1)
    by (simp add: handle_id_def fiber_id_def idle_def MAX_RUNNERS_def)
qed

lemma registered_run:
  assumes idle: "idle rt" and free: "\<forall>q \<in> set (r_free_fibers rt). q < length (r_fibers rt)"
    and len: "length (r_fibers rt) < 2 ^ 32" and ft: "\<And>s. ft \<noteq> S_Listener s"
    and st: "step_into env (free_slot rt) (placed rt g ft p) = Some (rt2, Ok ())"
    and run: "run_toexec env rt2 = Some (rt3, Ok ())" and idle3: "idle rt3"
  shows "\<exists>rt1. register env rt (Some g) ft (Some p) None True = (rt1, Ok (Ok (free_slot rt))) \<and>
    runner_run env rt1 = Some (rt3, Ok (signaled rt3))"
proof -
  let ?pos = "free_slot rt" and ?P = "r_poller rt"
  let ?rt1 = "(placed rt g ft p)\<lparr>r_poller := ?P\<lparr>toexec_fibers := (toexec_fibers ?P)[r_pos rt := [word_of_nat ?pos]]\<rparr>\<rparr>"
  have q: "r_pos rt < length (toexec_fibers ?P)" "toexec_fibers ?P ! r_pos rt = []"
    "(toexec_fibers ?P)[r_pos rt := []] = toexec_fibers ?P"
    using idle upd_same [of "r_pos rt" "toexec_fibers ?P" "[]"] by (simp_all add: idle_def)
  have "register env rt (Some g) ft (Some p) None True = (?rt1, Ok (Ok ?pos))"
    using place_fiber_plain [OF ft free, of env "Some g" "Some p" None] q
    by (simp add: register_def in_range placed_def placed_fiber_def)
  moreover have same: "(placed rt g ft p)\<lparr>r_poller := ?P\<rparr> = placed rt g ft p" by (cases rt) (simp add: placed_def)
  have "run_toexec env ?rt1 = run_toexec env rt2"
    using st q placed_in [OF idle free len] by (intro run_toexec_one [where pos = ?pos]) (simp_all add: same)
  then have "runner_run env ?rt1 = Some (rt3, Ok (signaled rt3))"
    using runner_run_idle [OF idle3, of env] run_toexec_idle [OF idle3, of env] run by (simp add: runner_run_def)
  ultimately show ?thesis by blast
qed

lemma fiber_life:
  assumes idle: "idle rt" and free: "\<forall>q \<in> set (r_free_fibers rt). q < length (r_fibers rt)"
    and len: "length (r_fibers rt) < 2 ^ 32" and stacks: "\<And>n. \<exists>st. e_stack env n = Ok st"
    and code: "e_code env g p = stream cs res"
  shows "\<exists>rt1 rt2. register env rt (Some g) S_Empty (Some p) None True = (rt1, Ok (Ok (free_slot rt))) \<and>
    runner_run env rt1 = Some (rt2, Ok (signaled rt2)) \<and> idle rt2 \<and>
    r_results rt2 = r_results rt @ cs @ (case res of Some r \<Rightarrow> [r] | None \<Rightarrow> []) \<and>
    r_free_fibers rt2 = tl (r_free_fibers rt) @ [free_slot rt] \<and> r_tomain_fibers rt2 = r_tomain_fibers rt \<and>
    f_state (r_fibers rt2 ! free_slot rt) = Closed \<and>
    (\<forall>i < length (r_fibers rt). i \<noteq> free_slot rt \<longrightarrow> r_fibers rt2 ! i = r_fibers rt ! i)"
proof -
  let ?pos = "free_slot rt" and ?P = "r_poller rt" and ?placed = "placed rt g S_Empty p"
  note pl = placed_in [OF idle free len]
  obtain fq st where stk: "stack_pop (e_stack env) ?P = (?P\<lparr>free_stacks := fq\<rparr>, Ok st)"
    by (rule stack_pop_ok [OF stacks])
  let ?entered = "?placed\<lparr>r_poller := ?P\<lparr>free_stacks := fq\<rparr>\<rparr>" and ?fib = "placed_fiber rt g S_Empty p"
  have "r_pos rt < length (toexec_fibers ?P)" using idle by (simp add: idle_def)
  then have step: "step_into env ?pos ?placed = Some (stream_step st ?pos cs res ?fib ?entered, Ok ())"
    using step_into_stream_first [of ?pos ?placed ?fib g p env fq st cs res] pl(1,3,4) stk code by simp
  have idle': "idle ?entered" using idle by (simp add: idle_def)
  then obtain rt2 where rt2: "run_toexec env (stream_step st ?pos cs res ?fib ?entered) = Some (rt2, Ok ())"
    "finished st ?pos cs res ?entered rt2"
    using run_stream [of ?entered ?pos ?fib g env st cs res] pl(1,2,4) by auto
  have idle2: "idle rt2" by (rule finished_idle [OF idle' rt2(2)])
  obtain rt1 where "register env rt (Some g) S_Empty (Some p) None True = (rt1, Ok (Ok ?pos))"
    "runner_run env rt1 = Some (rt2, Ok (signaled rt2))"
    using registered_run [OF idle free len _ step rt2(1) idle2] by auto
  moreover have "r_fibers rt2 ! i = r_fibers rt ! i" if "i < length (r_fibers rt)" "i \<noteq> ?pos" for i
    using that rt2(2) placed_in(5) [OF idle free len that] by (auto simp: finished_def)
  moreover have "f_state (r_fibers rt2 ! ?pos) = Closed" using rt2(2) pl(1) by (auto simp: finished_def)
  ultimately show ?thesis using idle2 rt2(2) by (intro exI [of _ rt1] exI [of _ rt2]) (simp add: finished_def)
qed

end
