(* ===== verification/Runner_Invariant.thy ===== *)
theory Runner_Invariant
  imports Runner_Stream
begin

text \<open>
  The invariant of a runner: every fiber carries the identifier of its own slot, and every position that the runner
  keeps (parents, children, free slots, references handed to the main stack) lies in its vector of fibers.  Each
  operation keeps it, whatever the bodies of the fibers and the system do.
\<close>

definition fiber_ok :: "nat \<Rightarrow> nat \<Rightarrow> nat \<Rightarrow> ('p, 'r, 'f, 'k) fiber_int \<Rightarrow> bool" where
  "fiber_ok runner n i fib \<longleftrightarrow>
     f_me fib = runner_id runner i \<and> f_runner fib = runner \<and> (\<forall>par. f_parent fib = Some par \<longrightarrow> par < n) \<and>
     (\<forall>c \<in> set (f_children fib). c < n)"

definition runner_ok :: "('w, 's, 'k, 'p, 'r, 'f) runner_int \<Rightarrow> bool" where
  "runner_ok rt \<longleftrightarrow>
     (\<forall>i < length (r_fibers rt). fiber_ok (r_pos rt) (length (r_fibers rt)) i (r_fibers rt ! i)) \<and>
     (\<forall>q \<in> set (r_free_fibers rt). q < length (r_fibers rt)) \<and>
     (\<forall>ref \<in> set (r_tomain_fibers rt). fr_runner ref = r_pos rt \<and> fr_id ref < length (r_fibers rt))"

text \<open>The invariant with a lower bound on the number of fibers, which only grows.\<close>

definition good :: "nat \<Rightarrow> nat \<Rightarrow> ('w, 's, 'k, 'p, 'r, 'f) runner_int \<Rightarrow> bool" where
  "good n runner rt \<longleftrightarrow> runner_ok rt \<and> n \<le> length (r_fibers rt) \<and> r_pos rt = runner"

named_theorems keeps

lemma good_bindS [keeps]:
  "good n R (fst m) \<Longrightarrow> (\<And>rt a. m = (rt, Ok a) \<Longrightarrow> good n R rt \<Longrightarrow> good n R (fst (f rt a))) \<Longrightarrow> good n R (fst (bindS m f))"
  by (cases m; cases "snd m") auto

lemma good_range: "good n R rt \<Longrightarrow> i < n \<Longrightarrow> i < length (r_fibers rt)"
  by (simp add: good_def)

lemma good_grown: "good n R rt \<Longrightarrow> good (length (r_fibers rt)) R rt"
  by (simp add: good_def)

lemma good_weaken: "good n R rt \<Longrightarrow> m \<le> n \<Longrightarrow> good m R rt"
  by (simp add: good_def)

lemma good_other [simp]:
  "good n R (rt\<lparr>r_poller := p\<rparr>) = good n R rt" "good n R (rt\<lparr>r_world := w\<rparr>) = good n R rt"
  "good n R (rt\<lparr>r_results := rs\<rparr>) = good n R rt" "good n R (rt\<lparr>r_tmp_buf := b\<rparr>) = good n R rt"
  by (simp_all add: good_def runner_ok_def)

lemma good_free: "good n R rt \<Longrightarrow> q < length (r_fibers rt) \<Longrightarrow> good n R (rt\<lparr>r_free_fibers := push_back (r_free_fibers rt) q\<rparr>)"
  by (auto simp: good_def runner_ok_def push_back_def)

lemma good_tomain:
  "good n R rt \<Longrightarrow> i < length (r_fibers rt) \<Longrightarrow>
   good n R (rt\<lparr>r_tomain_fibers := push_back (r_tomain_fibers rt) (fiber_ref_new (r_pos rt) i)\<rparr>)"
  by (auto simp: good_def runner_ok_def push_back_def fiber_ref_new_def)

lemma the_fiber_keeps [keeps]: "good n R rt \<Longrightarrow> good n R (fst (the_fiber rt pos))"
  by (simp add: the_fiber_def lift_def)

lemma lift_keeps [keeps]: "good n R rt \<Longrightarrow> good n R (fst (lift rt x))"
  by (simp add: lift_def)

lemma the_fiber_Ok: "the_fiber rt pos = (rt', Ok fib) \<Longrightarrow> rt' = rt \<and> pos < length (r_fibers rt) \<and> fib = r_fibers rt ! pos"
  by (auto simp: the_fiber_def lift_def index_def split: if_splits)

lemma good_fiber: "good n R rt \<Longrightarrow> i < length (r_fibers rt) \<Longrightarrow> fiber_ok R (length (r_fibers rt)) i (r_fibers rt ! i)"
  by (auto simp: good_def runner_ok_def)

lemma good_store:
  assumes "good n R rt" "r_fibers rt = fs" "pos < length fs \<Longrightarrow> fiber_ok R (length fs) pos fib"
  shows "good n R (rt\<lparr>r_fibers := fs[pos := fib]\<rparr>)"
  using assms by (cases "pos < length fs") (auto simp: good_def runner_ok_def nth_list_update)

text \<open>An update that leaves the identity and the relations of a fiber alone, or shrinks them.\<close>

definition tame :: "(('p, 'r, 'f, 'k) fiber_int \<Rightarrow> ('p, 'r, 'f, 'k) fiber_int) \<Rightarrow> bool" where
  "tame f \<longleftrightarrow>
     (\<forall>fib. f_me (f fib) = f_me fib \<and> f_runner (f fib) = f_runner fib \<and>
        (f_parent (f fib) = f_parent fib \<or> f_parent (f fib) = None) \<and> set (f_children (f fib)) \<subseteq> set (f_children fib))"

lemma tame_ok:
  assumes "tame f" "fiber_ok R n i fib"
  shows "fiber_ok R n i (f fib)"
proof -
  have "f_me (f fib) = f_me fib" "f_runner (f fib) = f_runner fib"
    "f_parent (f fib) = f_parent fib \<or> f_parent (f fib) = None" "set (f_children (f fib)) \<subseteq> set (f_children fib)"
    using assms(1) by (simp_all add: tame_def)
  then show ?thesis using assms(2) by (auto simp: fiber_ok_def)
qed

lemma mod_fiber_keeps [keeps]:
  assumes "good n R rt" "tame f"
  shows "good n R (fst (mod_fiber rt pos f))"
proof (cases "pos < length (r_fibers rt)")
  case True
  then show ?thesis
    using good_store [OF assms(1) refl, of pos "f (r_fibers rt ! pos)"] tame_ok [OF assms(2) good_fiber [OF assms(1)]]
    by (simp add: in_range)
qed (simp add: mod_fiber_out assms(1))

lemma on_poller_keeps [keeps]: "good n R rt \<Longrightarrow> good n R (fst (on_poller rt f))"
  by (simp add: on_poller_def split_beta)

lemma on_world_keeps [keeps]: "good n R rt \<Longrightarrow> good n R (fst (on_world rt f))"
  by (simp add: on_world_def split_beta)

lemma tame_fiber_register: "tame (\<lambda>fib. fst (fiber_register os fib rdy w))"
  by (auto simp: tame_def fiber_register_def split_beta split: res.splits)

lemma register_interest_keeps [keeps]: "good n R rt \<Longrightarrow> good n R (fst (register_interest env rt pos rdy))"
  using mod_fiber_keeps [OF _ tame_fiber_register, of n R rt pos "e_os env" rdy "r_world rt"]
  by (cases "pos < length (r_fibers rt)") (simp_all add: register_interest_def in_range the_fiber_out split_beta Let_def)

lemma reg_timer_keeps [keeps]: "good n R rt \<Longrightarrow> good n R (fst (reg_timer env rt i dur))"
  by (simp add: reg_timer_def split_beta on_poller_keeps)

lemma cancel_token_keeps [keeps]: "good n R rt \<Longrightarrow> good n R (fst (cancel_token env rt tk))"
  by (simp add: cancel_token_def on_poller_keeps)

lemma push_toexec_keeps [keeps]: "good n R rt \<Longrightarrow> good n R (fst (push_toexec rt pos))"
  by (simp add: push_toexec_def on_poller_keeps)

lemma take_result_keeps [keeps]: "good n R rt \<Longrightarrow> good n R (fst (take_result rt pos))"
  unfolding take_result_def by (intro keeps) (auto simp: tame_def split: option.split)

section \<open>Registration\<close>

lemma set_swap_remove_front: "set (swap_remove_front q i) \<subseteq> set q"
proof (cases q)
  case (Cons x xs)
  then show ?thesis
    using set_update_subset_insert [of xs "i - 1" x] by (cases i) (auto simp: swap_remove_front_def)
qed (simp add: swap_remove_front_def)

lemma set_pop_back: "set (snd (pop_back q)) \<subseteq> set q"
  by (auto simp: pop_back_def dest: in_set_butlastD)

lemma fiber_ok_tame: "fst (fiber_register os fib rdy w) = fib' \<Longrightarrow> fiber_ok R n i fib \<Longrightarrow> fiber_ok R n i fib'"
  using tame_ok [OF tame_fiber_register] by metis

lemma watch_listener_keeps [keeps]: "good n R rt \<Longrightarrow> good n R (fst (watch_listener env rt fib))"
  by (auto simp: watch_listener_def split_beta Let_def split: fiber_sock.split res.split)

lemma watch_listener_fiber:
  assumes "watch_listener env rt fib = (rt', Ok (Ok fib'))" "fiber_ok R n i fib"
  shows "fiber_ok R n i fib' \<and> r_fibers rt' = r_fibers rt \<and> r_free_fibers rt' = r_free_fibers rt \<and> r_pos rt' = r_pos rt"
  using assms fiber_ok_tame [of "e_os env" fib ReadyReadable "r_world rt" fib' R n i]
  by (auto simp: watch_listener_def split_beta Let_def split: fiber_sock.splits res.splits)

lemma good_push:
  assumes "good n R rt" "r_fibers rt = fs" "fiber_ok R (Suc (length fs)) (length fs) fib"
  shows "good n R (rt\<lparr>r_fibers := fs @ [fib]\<rparr>)"
proof -
  have "fiber_ok R (Suc (length fs)) i ((fs @ [fib]) ! i)" if "i < Suc (length fs)" for i
  proof (cases "i = length fs")
    case False
    then have "i < length fs" using that by simp
    then have "fiber_ok R (length fs) i (fs ! i)" using good_fiber [OF assms(1)] assms(2) by simp
    then show ?thesis using \<open>i < length fs\<close> by (auto simp: fiber_ok_def nth_append intro: less_SucI)
  qed (simp add: assms(3))
  then show ?thesis
    using assms(1,2) unfolding good_def runner_ok_def by (simp add: less_Suc_eq_le less_imp_le)
qed

lemma new_fiber_ok:
  "(\<And>par. parent = Some par \<Longrightarrow> par < n) \<Longrightarrow> fiber_ok R n i (new_fiber R func ft param parent (runner_id R i) gen)"
  by (auto simp: fiber_ok_def new_fiber_def)

lemma place_fiber_keeps:
  assumes g: "good n R rt" and par: "\<And>par. parent = Some par \<Longrightarrow> par < n"
  shows "good n R (fst (place_fiber env rt func ft param parent))"
    and "place_fiber env rt func ft param parent = (rt', Ok (Ok pos)) \<Longrightarrow> pos < length (r_fibers rt')"
proof -
  have R: "r_pos rt = R" and par': "\<And>q. parent = Some q \<Longrightarrow> q < length (r_fibers rt)"
    using g par by (auto simp: good_def intro: order.strict_trans2)
  have "good n R (fst (place_fiber env rt func ft param parent)) \<and>
    (\<forall>rt' pos. place_fiber env rt func ft param parent = (rt', Ok (Ok pos)) \<longrightarrow> pos < length (r_fibers rt'))"
  proof (cases "r_free_fibers rt")
    case Nil
    let ?fib = "new_fiber R func ft param parent (runner_id R (length (r_fibers rt))) 0"
    have ok: "fiber_ok R (length (r_fibers rt) + 1) (length (r_fibers rt)) ?fib"
      using par' by (intro new_fiber_ok) (simp add: less_Suc_eq)
    obtain rt1 r where w: "watch_listener env rt ?fib = (rt1, r)" by (cases "watch_listener env rt ?fib")
    have g1: "good n R rt1" using watch_listener_keeps [OF g, of env ?fib] w by simp
    have "place_fiber env rt func ft param parent = bindS (rt1, r) (\<lambda>rt r.
        case r of Ok fib \<Rightarrow> (rt\<lparr>r_fibers := r_fibers rt @ [fib]\<rparr>, Ok (Ok (length (r_fibers rt))))
          | Err e \<Rightarrow> (rt, Ok (Err e)) | Panic \<Rightarrow> (rt, Panic))"
      using Nil w R by (simp add: place_fiber_def fiber_id_def)
    then show ?thesis
      using g1 w
      by (cases r) (auto intro!: good_push dest!: watch_listener_fiber [OF _ ok] split: res.splits)
  next
    case (Cons q qs)
    let ?rt = "rt\<lparr>r_free_fibers := qs\<rparr>"
    have q: "q < length (r_fibers rt)" and g0: "good n R ?rt" using g Cons by (auto simp: good_def runner_ok_def)
    let ?fib = "new_fiber R func ft param parent (runner_id R q) (f_generation (r_fibers rt ! q) + 1)"
    have ok: "fiber_ok R (length (r_fibers rt)) q ?fib" using par' by (intro new_fiber_ok)
    obtain rt1 r where w: "watch_listener env ?rt ?fib = (rt1, r)" by (cases "watch_listener env ?rt ?fib")
    have g1: "good n R rt1" using watch_listener_keeps [OF g0, of env ?fib] w by simp
    have "place_fiber env rt func ft param parent = bindS (rt1, r) (\<lambda>rt r.
        case r of Ok fib \<Rightarrow> bindS (mod_fiber rt q (\<lambda>_. fib)) (\<lambda>rt _. (rt, Ok (Ok q)))
          | Err e \<Rightarrow> (rt, Ok (Err e)) | Panic \<Rightarrow> (rt, Panic))"
      using Cons w R q by (simp add: place_fiber_def in_range fiber_id_def)
    then show ?thesis
      using g1 q w
      by (cases r) (auto simp: in_range intro!: good_store dest!: watch_listener_fiber [OF _ ok] split: res.splits)
  qed
  then show "good n R (fst (place_fiber env rt func ft param parent))"
    "place_fiber env rt func ft param parent = (rt', Ok (Ok pos)) \<Longrightarrow> pos < length (r_fibers rt')" by blast+
qed

lemma push_child_keeps:
  assumes "good n R rt" "c < length (r_fibers rt)"
  shows "good n R (fst (mod_fiber rt pos (\<lambda>fib. fib\<lparr>f_children := push_back (f_children fib) c\<rparr>)))"
proof (cases "pos < length (r_fibers rt)")
  case True
  then show ?thesis
    using good_fiber [OF assms(1) True] assms by (auto simp: in_range fiber_ok_def push_back_def intro!: good_store)
qed (simp add: mod_fiber_out assms(1))

lemma push_toexec_fibers: "r_fibers (fst (push_toexec rt pos)) = r_fibers rt"
  by (simp add: push_toexec_def on_poller_def split_beta)

lemma register_keeps:
  assumes g: "good n R rt" and par: "\<And>par. parent = Some par \<Longrightarrow> par < n"
  shows "good n R (fst (register env rt func ft param parent schedule))"
proof -
  have "good n R (fst (bindS (if schedule then push_toexec rt1 pos else (rt1, Ok ())) (\<lambda>rt _.
      bindS (case parent of
          Some par \<Rightarrow> mod_fiber rt par (\<lambda>fib. fib\<lparr>f_children := push_back (f_children fib) pos\<rparr>)
        | None \<Rightarrow> (rt, Ok ())) (\<lambda>rt _. (rt, Ok (Ok pos))))))"
    if "place_fiber env rt func ft param parent = (rt1, Ok (Ok pos))" "good n R rt1" for rt1 pos
  proof -
    have pos: "pos < length (r_fibers rt1)" using place_fiber_keeps(2) [OF g par] that(1) by blast
    have "r_fibers rt2 = r_fibers rt1" if "(if schedule then push_toexec rt1 pos else (rt1, Ok ())) = (rt2, x)" for rt2 x
      using that push_toexec_fibers [of rt1 pos] by (auto split: if_splits)
    then show ?thesis
      using that(2) pos
      by (intro good_bindS) (auto simp: push_toexec_keeps push_child_keeps split: option.split)
  qed
  then show ?thesis
    unfolding register_def using place_fiber_keeps(1) [OF g par]
    by (intro good_bindS) (auto split: res.split)
qed

section \<open>Operations that do not add fibers\<close>

lemma tame_updates:
  "tame (f_result_update g)" "tame (f_wtoken_update h)" "tame (f_param_update u)" "tame (f_timed_out_update v)"
  "tame (f_state_update a)" "tame (f_sock_update b)" "tame (f_t_update c)" "tame (f_stack_update d)"
  "tame (f_connect_param_update e)" "tame (f_ready_update k)" "tame (f_timeout_update l)" "tame (f_parent_update (\<lambda>_. None))"
  "tame (\<lambda>fib. fib\<lparr>f_children := swap_remove_front (f_children fib) i\<rparr>)"
  "tame (\<lambda>fib. fib\<lparr>f_children := snd (pop_back (f_children fib))\<rparr>)"
  by (simp_all add: tame_def set_swap_remove_front set_pop_back)

lemma tame_comp: "tame f \<Longrightarrow> tame g \<Longrightarrow> tame (\<lambda>fib. f (g fib))"
  unfolding tame_def by (metis subset_trans)

lemmas tames = tame_updates tame_updates [THEN tame_comp]

lemma mod_free_keeps:
  assumes "good n R rt" "tame f"
  shows "good n R (fst (bindS (mod_fiber rt pos f) (\<lambda>rt _. (rt\<lparr>r_free_fibers := push_back (r_free_fibers rt) pos\<rparr>, Ok x))))"
proof (cases "pos < length (r_fibers rt)")
  case True
  then show ?thesis
    using good_free [OF mod_fiber_keeps [OF assms, of pos], of pos] by (simp add: in_range)
qed (simp add: mod_fiber_out assms(1))

lemma cancel_timer_keeps [keeps]: "good n R rt \<Longrightarrow> good n R (fst (cancel_timer env rt pos))"
  unfolding cancel_timer_def
  by (intro keeps) (auto split: option.split intro!: good_bindS [OF cancel_token_keeps] mod_free_keeps tames)

lemma new_timer_keeps: "good n R rt \<Longrightarrow> good n R (fst (new_timer env rt func dur param resp))"
  unfolding new_timer_def
  by (intro good_bindS [OF register_keeps]) (auto split: res.split option.split intro!: keeps tames)

lemma resume_fiber_keeps [keeps]: "good n R rt \<Longrightarrow> good n R (fst (resume_fiber rt pos r))"
  unfolding resume_fiber_def by (intro keeps tames)

lemma new_resolve_keeps:
  assumes "good n R rt" "\<And>par. parent = Some par \<Longrightarrow> par < n"
  shows "good n R (fst (new_resolve env rt parent domain func to st prt param))"
proof -
  have "good n R (fst (register env rt func S_Empty (Some param) parent False))" by (rule register_keeps [OF assms])
  then show ?thesis
    unfolding new_resolve_def using assms(1)
    by (auto simp: Let_def split: res.split option.split intro!: keeps tames)
qed

lemma arm_timeout_keeps [keeps]: "good n R rt \<Longrightarrow> good n R (fst (arm_timeout env rt pos))"
  unfolding arm_timeout_def by (intro keeps) (auto split: option.split intro!: keeps tames)

lemma disarm_timeout_keeps [keeps]: "good n R rt \<Longrightarrow> good n R (fst (disarm_timeout env rt pos))"
  unfolding disarm_timeout_def by (intro keeps) (auto split: option.split intro!: keeps tames)

lemma would_block_keeps [keeps]: "good n R rt \<Longrightarrow> good n R (fst (would_block env rt pos rdy pt err))"
  unfolding would_block_def by (intro keeps) (auto split: res.split intro!: keeps)

lemma after_wait_keeps [keeps]: "good n R rt \<Longrightarrow> good n R (fst (after_wait env rt pos pt t))"
  unfolding after_wait_def by (intro keeps) (auto intro!: keeps tames)

section \<open>Turns\<close>

lemma read_turn_keeps [keeps]: "good n R rt \<Longrightarrow> good n R (fst (read_turn env rt pos k))"
  unfolding read_turn_def by (intro keeps) (auto split: res.split intro!: keeps)

lemma read_bufs_turn_keeps [keeps]: "good n R rt \<Longrightarrow> good n R (fst (read_bufs_turn env rt pos bufs))"
  unfolding read_bufs_turn_def by (intro keeps) (auto simp: Let_def split: res.split prod.split intro!: keeps)

lemma write_turn_keeps [keeps]: "good n R rt \<Longrightarrow> good n R (fst (write_turn env rt pos buf))"
  unfolding write_turn_def by (intro keeps) (auto split: res.split intro!: keeps)

lemma write_bufs_turn_keeps: "good n R rt \<Longrightarrow> write_bufs_turn env rt pos bufs = Some m \<Longrightarrow> good n R (fst m)"
  by (cases "pos < length (r_fibers rt)")
    (auto simp: write_bufs_turn_def Let_def in_range the_fiber_out split: prod.splits res.splits option.splits if_splits
      intro!: keeps)

lemma accept_turn_keeps [keeps]: "good n R rt \<Longrightarrow> good n R (fst (accept_turn env rt pos))"
  unfolding accept_turn_def by (intro keeps) (auto split: res.split intro!: keeps)

lemma tls_turn_keeps [keeps]: "good n R rt \<Longrightarrow> good n R (fst (tls_turn env rt pos cr))"
  unfolding tls_turn_def by (auto split: res.split tls_result.split intro!: keeps tames)

lemma tls_back_keeps [keeps]: "good n R rt \<Longrightarrow> good n R (fst (tls_back env rt pos))"
  unfolding tls_back_def by (auto split: fiber_sock.split prod.split intro!: keeps tames)

lemma tcp_tls_start_keeps [keeps]: "good n R rt \<Longrightarrow> good n R (fst (tcp_tls_start rt pos f))"
  unfolding tcp_tls_start_def by (auto split: fiber_sock.split prod.split intro!: keeps tames)

lemma child_turn_keeps [keeps]:
  assumes g: "good n R rt"
  shows "good n R (fst (child_turn rt parent))"
proof (cases "parent < length (r_fibers rt) \<and> f_children (r_fibers rt ! parent) \<noteq> []")
  case True
  have free: "good n R (fst (bindS (mod_fiber rt parent f) (\<lambda>rt _.
      (rt\<lparr>r_free_fibers := push_back (r_free_fibers rt) c\<rparr>, Ok ()))))"
    if "good n R rt" "tame f" "c < length (r_fibers rt)" for rt :: "('a, 'b, 'c, 'd, 'e, 'f) runner_int" and f c
  proof (cases "parent < length (r_fibers rt)")
    case True
    then show ?thesis using good_free [OF mod_fiber_keeps [OF that(1,2), of parent], of c] that(3) by (simp add: in_range)
  qed (simp add: mod_fiber_out that(1))
  let ?found = "find_child (r_fibers rt) 0 (f_children (r_fibers rt ! parent))"
  show ?thesis
  proof (cases "\<exists>i c. ?found = Ok (Some (i, c)) \<and> c < length (r_fibers rt)")
    case found: True
    then obtain i c where c: "?found = Ok (Some (i, c))" "c < length (r_fibers rt)" by blast
    have g1: "good n R (rt\<lparr>r_fibers := (r_fibers rt)[c := (r_fibers rt ! c)\<lparr>f_result := None\<rparr>]\<rparr>)"
      using mod_fiber_keeps [OF g tames(1), of c "\<lambda>_. None"] c(2) by (simp add: in_range)
    show ?thesis
    proof (cases "f_state (r_fibers rt ! c) = Closed")
      case closed: True
      show ?thesis
        using True c closed free [OF g1 tame_updates(13), of c i] by (auto simp: child_turn_def in_range split: option.split)
    next
      case False
      then show ?thesis
        using True c
        by (auto simp: child_turn_def in_range split: option.split intro!: good_bindS [OF push_toexec_keeps [OF g1]])
    qed
  next
    case False
    then show ?thesis
      using g True by (cases ?found) (auto simp: child_turn_def in_range the_fiber_out lift_def split: option.split)
  qed
next
  case False
  then show ?thesis
    using g by (cases "parent < length (r_fibers rt)") (auto simp: child_turn_def in_range the_fiber_out)
qed

lemma at_turn_keeps: "good n R rt \<Longrightarrow> at_turn env rt pos pt = Some m \<Longrightarrow> good n R (fst m)"
  by (cases pt) (auto simp: at_turn_def intro: keeps write_bufs_turn_keeps)

lemma back_turn_keeps: "good n R rt \<Longrightarrow> good n R (fst (back_turn env rt pos pt))"
  by (cases pt) (auto simp: back_turn_def intro!: keeps tames)

lemma started_keeps: "good n R (fst m) \<Longrightarrow> good n R (fst (started m))"
  unfolding started_def by (intro good_bindS) auto

lemma tomain_keeps:
  "good n R rt \<Longrightarrow> i < n \<Longrightarrow>
   good n R (rt\<lparr>r_tomain_fibers := push_back (r_tomain_fibers rt) (fiber_ref_new (r_pos rt) i)\<rparr>)"
  using good_tomain good_range by blast

lemma call_turn_keeps:
  assumes "good n R rt" "i < n"
  shows "good n R (fst (call_turn env rt i rq))"
proof -
  have hib: "good n R (fst (hibernate_join_main rt i))"
    unfolding hibernate_join_main_def using assms
    by (intro good_bindS) (auto intro!: keeps tames tomain_keeps)
  have hr: "good n R (fst (hibernate_for_read env rt i))"
    unfolding hibernate_for_read_def using assms(1)
    by (auto split: res.split intro!: keeps tames)
  show ?thesis
    using assms hib hr
    by (cases rq)
      (auto simp: call_turn_def socket_timeout_def resp_chunk_def join_main_def fiber_flush_def tcp_tls_connect_def
        tcp_tls_accept_def intro!: keeps tames started_keeps register_keeps new_resolve_keeps tomain_keeps)
qed

section \<open>Switching\<close>

lemma code_step_keeps: "good n R rt \<Longrightarrow> i < n \<Longrightarrow> code_step env i c rt = Some m \<Longrightarrow> good n R (fst m)"
  by (auto simp: code_step_def split: code.splits prog.splits
      intro!: good_bindS intro: call_turn_keeps back_turn_keeps dest: at_turn_keeps)

lemma fiber_run_keeps:
  assumes "fiber_run env i c rt = Some m" "good n R rt" "i < n"
  shows "good n R (fst m)"
proof -
  define Q where "Q = (\<lambda>(env :: ('a, 'b, 'c, 'd, 'e, 'f) env) i (c :: ('d, 'e, 'f) code)
    (rt :: ('a, 'b, 'c, 'd, 'e, 'f) runner_int) (m :: ('a, 'b, 'c, 'd, 'e, 'f) runner_int \<times> (unit, ('d, 'e, 'f) halt) res).
      good n R rt \<longrightarrow> i < n \<longrightarrow> good n R (fst m))"
  have "Q env i c rt m"
  proof (rule fiber_run.raw_induct [of Q, OF _ assms(1)], goal_cases)
    case (1 rec env i c rt m)
    show ?case
      unfolding Q_def
    proof (intro impI)
      assume g: "good n R rt" "i < n"
      obtain rt1 r where s: "code_step env i c rt = Some (rt1, r)" using "1"(2) by (auto split: option.splits)
      have g1: "good n R rt1" using code_step_keeps [OF g s] by simp
      show "good n R (fst m)"
        using "1"(2) s g1 g(2) "1"(1) [unfolded Q_def]
        by (auto split: res.splits sum.splits)
    qed
  qed
  then show ?thesis using assms(2,3) by (simp add: Q_def)
qed

lemma handle_id_le:
  assumes "f_me fib = runner_id R pos"
  shows "handle_id fib \<le> pos"
proof -
  let ?p = "word_of_nat pos :: usize" and ?m = "0xFFFFFFFF :: usize"
  have m: "?m = mask 32" by (simp add: mask_eq_exp_minus_1)
  have "(?p OR push_bit 40 (word_of_nat R)) AND ?m = ?p AND ?m"
    unfolding m by (rule bit_word_eqI) (auto simp: bit_simps)
  then have "handle_id fib = unat (?p AND ?m)" using assms by (simp add: handle_id_def runner_id_def)
  also have "\<dots> \<le> unat ?p" by (simp add: word_and_le2 word_le_nat_alt [symmetric])
  also have "\<dots> \<le> pos" by (simp add: unat_of_nat)
  finally show ?thesis .
qed

lemma leave_fiber_keeps [keeps]: "good n R rt \<Longrightarrow> good n R (fst (leave_fiber rt i))"
  unfolding leave_fiber_def by (intro keeps tames)

lemma leave_ctx_keeps [keeps]: "good n R rt \<Longrightarrow> good n R (fst (leave_ctx rt pos i h))"
  unfolding leave_ctx_def by (auto split: halt.split intro!: keeps tames)

lemma enter_ctx_keeps:
  assumes g: "good n R rt" and e: "enter_ctx env rt pos t = (rt', Ok (i, c))"
  shows "good n R rt'" "i < length (r_fibers rt')"
proof -
  have pos: "pos < length (r_fibers rt)"
    using e by (cases "pos < length (r_fibers rt)")
      (auto simp: enter_ctx_def context_function_def the_fiber_out mod_fiber_out split: ctx.splits)
  have "handle_id (r_fibers rt ! pos) \<le> pos" using good_fiber [OF g pos] handle_id_le by (auto simp: fiber_ok_def)
  then have h: "handle_id (r_fibers rt ! pos) < length (r_fibers rt)" using pos by simp
  have "good n R (fst (enter_ctx env rt pos t))"
    using g by (auto simp: enter_ctx_def context_function_def split: ctx.split intro!: keeps tames)
  then show "good n R rt'" using e by simp
  show "i < length (r_fibers rt')"
    using e pos h
    by (auto simp: enter_ctx_def context_function_def in_range bindS_Ok_iff lift_def handle_id_def split: ctx.splits)
qed

lemma resume_ctx_keeps:
  assumes g: "good n R rt" and r: "resume_ctx env rt pos t = Some m"
  shows "good n R (fst m)"
proof -
  have bad: "good n R (fst (enter_ctx env rt pos t))"
    using g by (auto simp: enter_ctx_def context_function_def split: ctx.split intro!: keeps tames)
  obtain rt1 x where e: "enter_ctx env rt pos t = (rt1, x)" by (cases "enter_ctx env rt pos t")
  show ?thesis
  proof (cases x)
    case (Ok ic)
    obtain i c where ic: "ic = (i, c)" by (cases ic)
    note k = enter_ctx_keeps [OF g e [unfolded Ok ic]]
    obtain m1 where m1: "fiber_run env i c rt1 = Some m1" "m = bindS m1 (\<lambda>rt h. leave_ctx rt pos i h)"
      using r e Ok ic by (auto simp: resume_ctx_def)
    have "good (length (r_fibers rt1)) R (fst m1)" by (rule fiber_run_keeps [OF m1(1) good_grown [OF k(1)] k(2)])
    moreover have "n \<le> length (r_fibers rt1)" using k(1) by (simp add: good_def)
    ultimately have "good n R (fst m1)" by (rule good_weaken)
    then show ?thesis unfolding m1(2) by (intro keeps)
  qed (use r e bad in \<open>auto simp: resume_ctx_def\<close>)
qed

lemma unstack_keeps [keeps]: "good n R rt \<Longrightarrow> good n R (fst (unstack rt pos))"
  unfolding unstack_def by (auto intro!: keeps tames)

lemma stepped_out_keeps [keeps]: "good n R rt \<Longrightarrow> good n R (fst (stepped_out rt pos))"
proof -
  assume g: "good n R rt"
  have fr: "good n R (fst (bindS (take_result rt pos) (\<lambda>rt _.
      (rt\<lparr>r_free_fibers := push_back (r_free_fibers rt) pos\<rparr>, Ok None))))"
    if "good n R rt" for rt :: "('a, 'b, 'c, 'd, 'e, 'f) runner_int"
  proof (cases "pos < length (r_fibers rt)")
    case True
    then show ?thesis using good_free [OF take_result_keeps [OF that, of pos], of pos] by (simp add: in_range)
  qed (simp add: take_result_def the_fiber_out that)
  show ?thesis
    unfolding stepped_out_def using g by (auto split: option.split intro!: fr keeps tames)
qed

lemma enter_fiber_keeps: "good n R rt \<Longrightarrow> enter_fiber env rt pos = Some m \<Longrightarrow> good n R (fst m)"
proof -
  assume g: "good n R rt" and e: "enter_fiber env rt pos = Some m"
  show ?thesis
  proof (cases "pos < length (r_fibers rt) \<and> f_func (r_fibers rt ! pos) \<noteq> None")
    case True
    let ?a = "if f_t (r_fibers rt ! pos) = None
      then bindS (on_poller rt (stack_pop (e_stack env))) (\<lambda>rt st.
        mod_fiber rt pos (\<lambda>fib. fib\<lparr>f_stack := Some st, f_t := Some FreshCtx\<rparr>)) else (rt, Ok ())"
    obtain rt1 x where a: "?a = (rt1, x)" by (cases ?a)
    have "good n R (fst ?a)" using g by (auto intro!: keeps tames)
    then have g1: "good n R rt1" using a by simp
    let ?b = "bindS (the_fiber rt1 pos) (\<lambda>rt fib.
      bindS (mod_fiber rt pos (\<lambda>fib. fib\<lparr>f_t := None\<rparr>)) (\<lambda>rt _. lift rt (unwrapO (f_t fib))))"
    obtain rt2 y where b: "?b = (rt2, y)" by (cases ?b)
    have "good n R (fst ?b)" using g1 by (auto intro!: keeps tames)
    then have g2: "good n R rt2" using b by simp
    show ?thesis
      using e True a b g g1 g2
      by (auto simp: enter_fiber_def the_fiber_in split: res.splits intro!: keeps tames dest: resume_ctx_keeps)
  next
    case False
    then show ?thesis
      using e g mod_fiber_keeps [OF g tame_updates(5), of pos "\<lambda>_. Closed"]
      by (cases "pos < length (r_fibers rt)") (auto simp: enter_fiber_def the_fiber_in the_fiber_out)
  qed
qed

lemma step_into_keeps:
  assumes "step_into env pos rt = Some m" "good n R rt"
  shows "good n R (fst m)"
proof -
  define Q where "Q = (\<lambda>(env :: ('a, 'b, 'c, 'd, 'e, 'f) env) (pos :: nat) (rt :: ('a, 'b, 'c, 'd, 'e, 'f) runner_int)
    (m :: ('a, 'b, 'c, 'd, 'e, 'f) runner_int \<times> (unit, unit) res). good n R rt \<longrightarrow> good n R (fst m))"
  have "Q env pos rt m"
  proof (rule step_into.raw_induct [of Q, OF _ assms(1)], goal_cases)
    case (1 rec env pos rt m)
    show ?case
      unfolding Q_def
    proof (intro impI)
      assume g: "good n R rt"
      obtain rt1 r where e: "enter_fiber env rt pos = Some (rt1, r)" using "1"(2) by (auto split: option.splits)
      have g1: "good n R rt1" using enter_fiber_keeps [OF g e] by simp
      obtain rt2 r2 where s: "stepped_out rt1 pos = (rt2, r2)" by (cases "stepped_out rt1 pos")
      have g2: "good n R rt2" using stepped_out_keeps [OF g1, of pos] s by simp
      show "good n R (fst m)"
        using "1"(2) e s g1 g2 "1"(1) [unfolded Q_def]
        by (auto split: res.splits option.splits)
    qed
  qed
  then show ?thesis using assms(2) by (simp add: Q_def)
qed

text \<open>The two shapes of the loop's parts: an operation that goes on to a computation that may not end.\<close>

lemma keeps_then:
  assumes "good n R (fst a)" "(case a of (rt, Ok x) \<Rightarrow> f rt x | (rt, _) \<Rightarrow> Some (rt, Panic)) = Some m"
    "\<And>rt x. a = (rt, Ok x) \<Longrightarrow> good n R rt \<Longrightarrow> f rt x = Some m \<Longrightarrow> good n R (fst m)"
  shows "good n R (fst m)"
  using assms by (cases a; cases "snd a") auto

lemma have_addr_keeps: "good n R rt \<Longrightarrow> have_addr env rt pos addr = Some m \<Longrightarrow> good n R (fst m)"
proof -
  let ?a = "bindS (the_fiber rt pos) (\<lambda>rt fib.
    bindS (mod_fiber rt pos (\<lambda>fib. fib\<lparr>f_sock := S_Empty, f_ready := ReadyEmpty, f_timed_out := 0,
             f_connect_param := None\<rparr>)) (\<lambda>rt _.
    bindS (lift rt (unwrapO (f_connect_param fib))) (\<lambda>rt cp.
    let sa = SocketAddr addr (cp_port cp) in
    bindS (case cp_st cp of
             ST_Tcp \<Rightarrow>
               bindS (on_world rt (os_tcp_connect (e_os env) sa)) (\<lambda>rt r.
               case r of Ok tcp \<Rightarrow> mod_fiber rt pos (\<lambda>fib. fib\<lparr>f_sock := S_Tcp tcp\<rparr>) | _ \<Rightarrow> (rt, Ok ()))
           | ST_Udp udp \<Rightarrow>
               bindS (on_world rt (os_udp_connect (e_os env) udp sa)) (\<lambda>rt r.
               case r of Ok _ \<Rightarrow> mod_fiber rt pos (\<lambda>fib. fib\<lparr>f_sock := S_Udp udp\<rparr>) | _ \<Rightarrow> (rt, Ok ()))) (\<lambda>rt _.
    register_interest env rt pos ReadyWritable))))"
  assume g: "good n R rt" and h: "have_addr env rt pos addr = Some m"
  have ga: "good n R (fst ?a)"
    using g by (auto simp: Let_def tame_def split: res.split socket_type.split intro!: keeps tames)
  obtain rt1 r where a: "?a = (rt1, r)" by (cases ?a)
  then have g1: "good n R rt1" using ga by simp
  have h': "(case (rt1, r) of (rt, Ok (Ok _)) \<Rightarrow> Some (rt, Ok ()) | (rt, Ok (Err _)) \<Rightarrow> step_into env pos rt
      | (rt, _) \<Rightarrow> Some (rt, Panic)) = Some m"
    using h unfolding have_addr_def a by simp
  then show ?thesis using g1 by (auto split: res.splits dest: step_into_keeps)
qed

lemma exec_fiber_keeps: "good n R rt \<Longrightarrow> exec_fiber env pos rt = Some m \<Longrightarrow> good n R (fst m)"
proof -
  assume g: "good n R rt" and e: "exec_fiber env pos rt = Some m"
  show ?thesis
  proof (cases "pos < length (r_fibers rt)")
    case True
    let ?fib = "r_fibers rt ! pos"
    obtain rt1 x where w: "on_world rt (sock_read (e_os env) (f_sock ?fib) 512) = (rt1, x)"
      by (cases "on_world rt (sock_read (e_os env) (f_sock ?fib) 512)")
    have g1: "good n R rt1" using on_world_keeps [OF g, of "sock_read (e_os env) (f_sock ?fib) 512"] w by simp
    let ?a = "bindS (case f_wtoken ?fib of Some tk \<Rightarrow> cancel_token env rt1 tk | None \<Rightarrow> (rt1, Ok ())) (\<lambda>rt _.
      mod_fiber rt pos (\<lambda>fib. fib\<lparr>f_wtoken := None\<rparr>))"
    have ga: "good n R (fst ?a)" using g1 by (auto split: option.split intro!: keeps tames)
    obtain rt2 y where a: "?a = (rt2, y)" by (cases ?a)
    have g2: "good n R rt2" using ga unfolding a by simp
    show ?thesis
    proof (cases "\<exists>buf adr. f_connect_param ?fib \<noteq> None \<and> x = Ok (Ok buf) \<and> dns_parse (e_bo env) buf = Ok (Some adr)")
      case parsed: True
      then obtain buf adr where b: "f_connect_param ?fib \<noteq> None" "x = Ok (Ok buf)" "dns_parse (e_bo env) buf = Ok (Some adr)"
        by blast
      have "(case (rt2, y) of (rt, Ok _) \<Rightarrow> have_addr env rt pos adr | (rt, _) \<Rightarrow> Some (rt, Panic)) = Some m"
        using e True w b unfolding a [symmetric] by (auto simp: exec_fiber_def the_fiber_in)
      then show ?thesis using g2 by (auto split: res.splits dest: have_addr_keeps)
    next
      case False
      then show ?thesis
        using e g g1 True w
        by (auto simp: exec_fiber_def the_fiber_in split: if_splits res.splits dest: step_into_keeps)
    qed
  qed (use e g in \<open>auto simp: exec_fiber_def the_fiber_out\<close>)
qed

lemma exec_lookup_keeps: "good n R rt \<Longrightarrow> exec_lookup env pos gen addr rt = Some m \<Longrightarrow> good n R (fst m)"
proof -
  assume g: "good n R rt" and e: "exec_lookup env pos gen addr rt = Some m"
  let ?a = "case f_wtoken (r_fibers rt ! pos) of
      Some tk \<Rightarrow> bindS (cancel_token env rt tk) (\<lambda>rt _. mod_fiber rt pos (\<lambda>fib. fib\<lparr>f_wtoken := None\<rparr>))
    | None \<Rightarrow> (rt, Ok ())"
  have a: "good n R (fst ?a)" using g by (auto split: option.split intro!: keeps tames)
  show ?thesis
  proof (cases "pos < length (r_fibers rt)")
    case True
    show ?thesis
    proof (cases "f_generation (r_fibers rt ! pos) = gen")
      case gen: True
      have "(case ?a of (rt, Ok x) \<Rightarrow> have_addr env rt pos addr | (rt, _) \<Rightarrow> Some (rt, Panic)) = Some m"
        using e True gen by (simp add: exec_lookup_def in_range)
      then show ?thesis by (rule keeps_then [OF a]) (auto intro: have_addr_keeps)
    qed (use e g True in \<open>auto simp: exec_lookup_def in_range\<close>)
  qed (use e g in \<open>auto simp: exec_lookup_def the_fiber_out\<close>)
qed

lemma lookup_tick_keeps [keeps]: "good n R rt \<Longrightarrow> good n R (fst (lookup_tick env pos cp rt))"
  unfolding lookup_tick_def by (auto split: fiber_sock.split intro!: keeps tames)

lemma exec_timeout_keeps: "good n R rt \<Longrightarrow> exec_timeout env pos rt = Some m \<Longrightarrow> good n R (fst m)"
proof -
  assume g: "good n R rt" and e: "exec_timeout env pos rt = Some m"
  have mf: "good n R (rt\<lparr>r_fibers := (r_fibers rt)[pos := f (r_fibers rt ! pos)]\<rparr>)"
    if "good n R rt" "tame f" "pos < length (r_fibers rt)" for rt :: "('a, 'b, 'c, 'd, 'e, 'f) runner_int" and f
    using mod_fiber_keeps [OF that(1,2), of pos] that(3) by (simp add: in_range)
  show ?thesis
  proof (cases "pos < length (r_fibers rt)")
    case True
    define rt1 where "rt1 = rt\<lparr>r_fibers := (r_fibers rt)[pos := (r_fibers rt ! pos)\<lparr>f_timed_out := f_timed_out (r_fibers rt ! pos) - 1\<rparr>]\<rparr>"
    define rt2 where "rt2 = rt1\<lparr>r_fibers := (r_fibers rt1)[pos := (r_fibers rt1 ! pos)\<lparr>f_sock := S_Empty, f_wtoken := None\<rparr>]\<rparr>"
    define rt3 where "rt3 = rt\<lparr>r_fibers := (r_fibers rt)[pos := (r_fibers rt ! pos)\<lparr>f_wtoken := None, f_timed_out := 1\<rparr>]\<rparr>"
    have m1: "mod_fiber rt pos (\<lambda>fib. fib\<lparr>f_timed_out := f_timed_out fib - 1\<rparr>) = (rt1, Ok ())"
      using True by (simp add: in_range rt1_def)
    have True': "pos < length (r_fibers rt1)" using True by (simp add: rt1_def)
    have m2: "mod_fiber rt1 pos (\<lambda>fib. fib\<lparr>f_sock := S_Empty, f_wtoken := None\<rparr>) = (rt2, Ok ())"
      using True' by (simp add: in_range rt2_def)
    have m3: "mod_fiber rt pos (\<lambda>fib. fib\<lparr>f_wtoken := None, f_timed_out := 1\<rparr>) = (rt3, Ok ())"
      using True by (simp add: in_range rt3_def)
    have g1: "good n R rt1" unfolding rt1_def by (rule mf [OF g _ True]) (simp add: tame_def)
    have g2: "good n R rt2" unfolding rt2_def by (rule mf [OF g1 _ True']) (simp add: tame_def)
    have g3: "good n R rt3" unfolding rt3_def by (rule mf [OF g _ True]) (simp add: tame_def)
    show ?thesis
      using e g g1 g2 g3 True
      by (auto simp: exec_timeout_def the_fiber_in m1 m2 m3 split: if_splits option.splits
          dest: step_into_keeps intro: lookup_tick_keeps)
  qed (use e g in \<open>auto simp: exec_timeout_def the_fiber_out\<close>)
qed

section \<open>The loop\<close>

lemma run_toexec_keeps:
  assumes "run_toexec env rt = Some m" "good n R rt"
  shows "good n R (fst m)"
proof -
  define Q where "Q = (\<lambda>(env :: ('a, 'b, 'c, 'd, 'e, 'f) env) (rt :: ('a, 'b, 'c, 'd, 'e, 'f) runner_int)
    (m :: ('a, 'b, 'c, 'd, 'e, 'f) runner_int \<times> (unit, unit) res). good n R rt \<longrightarrow> good n R (fst m))"
  have "Q env rt m"
  proof (rule run_toexec.raw_induct [of Q, OF _ assms(1)], goal_cases)
    case (1 rec env rt m)
    show ?case
      unfolding Q_def
    proof (intro impI)
      assume g: "good n R rt"
      obtain rt1 x where p: "pop_toexec rt = (rt1, x)" by (cases "pop_toexec rt")
      have g1: "good n R rt1" using on_poller_keeps [OF g] p unfolding pop_toexec_def by (metis fst_conv)
      show "good n R (fst m)"
        using "1"(2) p g1 "1"(1) [unfolded Q_def]
        by (cases m) (auto split: res.splits option.splits dest!: exec_fiber_keeps [OF g1])
    qed
  qed
  then show ?thesis using assms(2) by (simp add: Q_def)
qed

lemma run_lookups_keeps:
  assumes "run_lookups env rt = Some m" "good n R rt"
  shows "good n R (fst m)"
proof -
  define Q where "Q = (\<lambda>(env :: ('a, 'b, 'c, 'd, 'e, 'f) env) (rt :: ('a, 'b, 'c, 'd, 'e, 'f) runner_int)
    (m :: ('a, 'b, 'c, 'd, 'e, 'f) runner_int \<times> (unit, unit) res). good n R rt \<longrightarrow> good n R (fst m))"
  have "Q env rt m"
  proof (rule run_lookups.raw_induct [of Q, OF _ assms(1)], goal_cases)
    case (1 rec env rt m)
    show ?case
      unfolding Q_def
    proof (intro impI)
      assume g: "good n R rt"
      obtain rt1 x where p: "on_poller rt (\<lambda>p. dns_check p (r_pos rt)) = (rt1, x)"
        by (cases "on_poller rt (\<lambda>p. dns_check p (r_pos rt))")
      have g1: "good n R rt1" using on_poller_keeps [OF g] p by (metis fst_conv)
      show "good n R (fst m)"
        using "1"(2) p g1 "1"(1) [unfolded Q_def]
        by (cases m) (auto split: res.splits option.splits dest!: exec_lookup_keeps [OF g1])
    qed
  qed
  then show ?thesis using assms(2) by (simp add: Q_def)
qed

lemma run_timeouts_keeps:
  assumes "run_timeouts env rt = Some m" "good n R rt"
  shows "good n R (fst m)"
proof -
  define Q where "Q = (\<lambda>(env :: ('a, 'b, 'c, 'd, 'e, 'f) env) (rt :: ('a, 'b, 'c, 'd, 'e, 'f) runner_int)
    (m :: ('a, 'b, 'c, 'd, 'e, 'f) runner_int \<times> (unit, unit) res). good n R rt \<longrightarrow> good n R (fst m))"
  have "Q env rt m"
  proof (rule run_timeouts.raw_induct [of Q, OF _ assms(1)], goal_cases)
    case (1 rec env rt m)
    show ?case
      unfolding Q_def
    proof (intro impI)
      assume g: "good n R rt"
      obtain rt1 x where p: "on_poller rt (\<lambda>p. timedout_pop p (r_pos rt)) = (rt1, x)"
        by (cases "on_poller rt (\<lambda>p. timedout_pop p (r_pos rt))")
      have g1: "good n R rt1" using on_poller_keeps [OF g] p by (metis fst_conv)
      show "good n R (fst m)"
        using "1"(2) p g1 "1"(1) [unfolded Q_def]
        by (cases m) (auto split: res.splits option.splits dest!: exec_timeout_keeps [OF g1])
    qed
  qed
  then show ?thesis using assms(2) by (simp add: Q_def)
qed

lemma runner_run_keeps:
  assumes g: "good n R rt" and r: "runner_run env rt = Some m"
  shows "good n R (fst m)"
proof -
  obtain rt1 x1 where 1: "run_toexec env rt = Some (rt1, x1)" using r by (auto simp: runner_run_def split: option.splits)
  have g1: "good n R rt1" using run_toexec_keeps [OF 1 g] by simp
  show ?thesis
  proof (cases "x1 = Ok ()")
    case True
    then obtain rt2 x2 where 2: "run_lookups env rt1 = Some (rt2, x2)"
      using r 1 by (auto simp: runner_run_def split: option.splits)
    have g2: "good n R rt2" using run_lookups_keeps [OF 2 g1] by simp
    show ?thesis
      using r 1 2 True g2 by (auto simp: runner_run_def split: option.splits res.splits dest!: run_timeouts_keeps [OF _ g2])
  qed (use r 1 g1 in \<open>auto simp: runner_run_def split: res.splits\<close>)
qed

end
