(* ===== verification/Thread_Api.thy ===== *)
theory Thread_Api
  imports Runner_Invariant
begin

text \<open>
  The state of a thread (\<^verbatim>\<open>tls.c\<close>): one poller and a table of 20 runners, both reached through raw pointers; and the
  calls a program makes on the main stack (\<^verbatim>\<open>Poller\<close>, \<^verbatim>\<open>Runner\<close>, \<^verbatim>\<open>FiberRef\<close>, \<^verbatim>\<open>TimerRef\<close>).

  In the code a runner finds the poller of its thread by a call of \<^verbatim>\<open>poller()\<close>; in the model it is lent to the runner
  for the call (\<open>with_runner\<close>).  An operation through a null pointer is undefined in the code; here it ends the thread
  like a panic.  All runners of the model have the same parameter and result types.
\<close>

section \<open>State\<close>

record ('w, 's, 'k, 'p, 'r, 'f) thread =
  th_poller :: "('s, 'k) poller_int option"
  th_runners :: "('w, 's, 'k, 'p, 'r, 'f) runner_int option list"
  th_world :: 'w

definition thread_start :: "'w \<Rightarrow> ('w, 's, 'k, 'p, 'r, 'f) thread" where
  "thread_start w = \<lparr>th_poller = None, th_runners = replicate MAX_RUNNERS None, th_world = w\<rparr>"

fun find_empty_from :: "int \<Rightarrow> 'a option list \<Rightarrow> int" where
  "find_empty_from i [] = -1"
| "find_empty_from i (r # rs) = (if r = None then i else find_empty_from (i + 1) rs)"

definition find_empty :: "('w, 's, 'k, 'p, 'r, 'f) thread \<Rightarrow> int" where
  "find_empty th = find_empty_from 0 (th_runners th)"

definition get_runner :: "('w, 's, 'k, 'p, 'r, 'f) thread \<Rightarrow> nat \<Rightarrow> ('w, 's, 'k, 'p, 'r, 'f) runner_int option" where
  "get_runner th pos = (if pos < length (th_runners th) then th_runners th ! pos else None)"

definition set_runner ::
  "('w, 's, 'k, 'p, 'r, 'f) thread \<Rightarrow> nat \<Rightarrow> ('w, 's, 'k, 'p, 'r, 'f) runner_int option \<Rightarrow> ('w, 's, 'k, 'p, 'r, 'f) thread" where
  "set_runner th pos r = th\<lparr>th_runners := (th_runners th)[pos := r]\<rparr>"

section \<open>Starting and stopping\<close>

text \<open>\<^verbatim>\<open>Poller::new\<close> and its end; the arguments after the stack size are those of \<^const>\<open>poller_int_new\<close>.\<close>

definition start_poller ::
  "('s, entry) slab_ops \<Rightarrow> nat option \<Rightarrow> (io_error, unit) res \<Rightarrow> ustr option \<Rightarrow> instant \<Rightarrow>
    ('w, 's, 'k, 'p, 'r, 'f) thread \<Rightarrow> ('w, 's, 'k, 'p, 'r, 'f) thread \<times> (unit, (io_error, unit) res) res" where
  "start_poller sl ssize poll_new contents now th =
     (if th_poller th \<noteq> None then (th, Ok (Err (IoError NotConnected ''poller exists'')))
      else
        bindS (lift th (poller_int_new sl ssize poll_new contents now)) (\<lambda>th p.
        (th\<lparr>th_poller := Some p\<rparr>, Ok (Ok ()))))"

definition poller_drop :: "('w, 's, 'k, 'p, 'r, 'f) thread \<Rightarrow> ('w, 's, 'k, 'p, 'r, 'f) thread" where
  "poller_drop th = th\<lparr>th_poller := None\<rparr>"

definition poll ::
  "('s, entry) slab_ops \<Rightarrow> (io_error, usize list) res \<Rightarrow> instant \<Rightarrow> ('w, 's, 'k, 'p, 'r, 'f) thread \<Rightarrow>
    (('w, 's, 'k, 'p, 'r, 'f) thread \<times> (unit, bool) res) option" where
  "poll sl evs now th =
     (case th_poller th of
        None \<Rightarrow> Some (th, Panic)
      | Some p \<Rightarrow> map_option (\<lambda>(p, r). (th\<lparr>th_poller := Some p\<rparr>, r)) (poller_poll sl evs now p))"

text \<open>\<^verbatim>\<open>start_runner\<close> (the poller in the new record is the one lent to its calls).\<close>

definition start_runner ::
  "('w, 's, 'k, 'p, 'r, 'f) thread \<Rightarrow> ('w, 's, 'k, 'p, 'r, 'f) thread \<times> (io_error, int) res" where
  "start_runner th =
     (case th_poller th of
        None \<Rightarrow> (th, Err (IoError OtherKind ''no poller''))
      | Some p \<Rightarrow>
          (let pos = find_empty th in
           if pos = -1 then (th, Err (IoError OtherKind ''no space''))
           else (set_runner th (nat pos) (Some (runner_int_new (nat pos) p (th_world th))), Ok pos)))"

text \<open>\<^verbatim>\<open>Drop for Runner\<close>.\<close>

definition runner_drop ::
  "('w, 's, 'k, 'p, 'r, 'f) thread \<Rightarrow> nat \<Rightarrow> ('w, 's, 'k, 'p, 'r, 'f) thread \<times> (unit, unit) res" where
  "runner_drop th pos =
     (if get_runner th pos = None then (th, Panic) else (set_runner th pos None, Ok ()))"

section \<open>Calls on a runner\<close>

text \<open>\<^verbatim>\<open>runner(pos)\<close> with its thread's poller, for an operation that ends, and for one that may not.\<close>

definition lend ::
  "('w, 's, 'k, 'p, 'r, 'f) thread \<Rightarrow> nat \<Rightarrow> (unit, ('w, 's, 'k, 'p, 'r, 'f) runner_int) res" where
  "lend th pos =
     (case (get_runner th pos, th_poller th) of
        (Some rt, Some p) \<Rightarrow> Ok (rt\<lparr>r_poller := p, r_world := th_world th\<rparr>)
      | _ \<Rightarrow> Panic)"

definition give_back ::
  "('w, 's, 'k, 'p, 'r, 'f) thread \<Rightarrow> nat \<Rightarrow> ('w, 's, 'k, 'p, 'r, 'f) runner_int \<times> (unit, 'a) res \<Rightarrow>
    ('w, 's, 'k, 'p, 'r, 'f) thread \<times> (unit, 'a) res" where
  "give_back th pos m =
     (let (rt, x) = m in
      (th\<lparr>th_runners := (th_runners th)[pos := Some rt], th_poller := Some (r_poller rt), th_world := r_world rt\<rparr>, x))"

definition with_runner ::
  "('w, 's, 'k, 'p, 'r, 'f) thread \<Rightarrow> nat \<Rightarrow>
    (('w, 's, 'k, 'p, 'r, 'f) runner_int \<Rightarrow> ('w, 's, 'k, 'p, 'r, 'f) runner_int \<times> (unit, 'a) res) \<Rightarrow>
    ('w, 's, 'k, 'p, 'r, 'f) thread \<times> (unit, 'a) res" where
  "with_runner th pos f =
     (case lend th pos of Ok rt \<Rightarrow> give_back th pos (f rt) | _ \<Rightarrow> (th, Panic))"

text \<open>\<^verbatim>\<open>.map(|_| ())\<close> on the result of registering.\<close>

definition no_position ::
  "('w, 's, 'k, 'p, 'r, 'f) runner_int \<times> (unit, (io_error, nat) res) res \<Rightarrow>
    ('w, 's, 'k, 'p, 'r, 'f) runner_int \<times> (unit, (io_error, unit) res) res" where
  "no_position m = bindS m (\<lambda>rt r. (rt, Ok (bindR r (\<lambda>_. Ok ()))))"

definition run_runner ::
  "('w, 's, 'k, 'p, 'r, 'f) env \<Rightarrow> ('w, 's, 'k, 'p, 'r, 'f) thread \<Rightarrow> nat \<Rightarrow>
    (('w, 's, 'k, 'p, 'r, 'f) thread \<times> (unit, bool) res) option" where
  "run_runner env th pos =
     (case lend th pos of
        Ok rt \<Rightarrow> map_option (give_back th pos) (runner_run env rt)
      | _ \<Rightarrow> Some (th, Panic))"

definition get_response ::
  "('w, 's, 'k, 'p, 'r, 'f) thread \<Rightarrow> nat \<Rightarrow> ('w, 's, 'k, 'p, 'r, 'f) thread \<times> (unit, 'r option) res" where
  "get_response th pos = with_runner th pos (\<lambda>rt. let (rt, x) = iter_responses rt in (rt, Ok x))"

definition get_fiber ::
  "('w, 's, 'k, 'p, 'r, 'f) thread \<Rightarrow> nat \<Rightarrow> ('w, 's, 'k, 'p, 'r, 'f) thread \<times> (unit, fiber_ref option) res" where
  "get_fiber th pos = with_runner th pos (\<lambda>rt. let (rt, x) = iter_fibers rt in (rt, Ok x))"

definition main_resolve_connect ::
  "('w, 's, 'k, 'p, 'r, 'f) env \<Rightarrow> ('w, 's, 'k, 'p, 'r, 'f) thread \<Rightarrow> nat \<Rightarrow> bytes \<Rightarrow> socket_type \<Rightarrow> u16 \<Rightarrow> duration \<Rightarrow>
    'f \<Rightarrow> 'p \<Rightarrow> ('w, 's, 'k, 'p, 'r, 'f) thread \<times> (unit, (io_error, unit) res) res" where
  "main_resolve_connect env th pos domain st prt to func param =
     with_runner th pos (\<lambda>rt. no_position (new_resolve env rt None domain (Some func) to st prt param))"

definition main_new_tcp ::
  "('w, 's, 'k, 'p, 'r, 'f) env \<Rightarrow> ('w, 's, 'k, 'p, 'r, 'f) thread \<Rightarrow> nat \<Rightarrow> sock \<Rightarrow> 'f \<Rightarrow> 'p \<Rightarrow>
    ('w, 's, 'k, 'p, 'r, 'f) thread \<times> (unit, (io_error, unit) res) res" where
  "main_new_tcp env th pos tcp func param =
     with_runner th pos (\<lambda>rt. no_position (register env rt (Some func) (S_Tcp tcp) (Some param) None True))"

definition main_new_listener ::
  "('w, 's, 'k, 'p, 'r, 'f) env \<Rightarrow> ('w, 's, 'k, 'p, 'r, 'f) thread \<Rightarrow> nat \<Rightarrow> sock \<Rightarrow> 'f \<Rightarrow> 'p \<Rightarrow>
    ('w, 's, 'k, 'p, 'r, 'f) thread \<times> (unit, (io_error, unit) res) res" where
  "main_new_listener env th pos tcp func param =
     with_runner th pos (\<lambda>rt. no_position (register env rt (Some func) (S_Listener tcp) (Some param) None True))"

definition main_new_udp ::
  "('w, 's, 'k, 'p, 'r, 'f) env \<Rightarrow> ('w, 's, 'k, 'p, 'r, 'f) thread \<Rightarrow> nat \<Rightarrow> sock \<Rightarrow> 'f \<Rightarrow> 'p \<Rightarrow>
    ('w, 's, 'k, 'p, 'r, 'f) thread \<times> (unit, (io_error, unit) res) res" where
  "main_new_udp env th pos udp func param =
     with_runner th pos (\<lambda>rt. no_position (register env rt (Some func) (S_Udp udp) (Some param) None True))"

definition main_new_timer ::
  "('w, 's, 'k, 'p, 'r, 'f) env \<Rightarrow> ('w, 's, 'k, 'p, 'r, 'f) thread \<Rightarrow> nat \<Rightarrow> duration \<Rightarrow> 'r \<Rightarrow>
    ('w, 's, 'k, 'p, 'r, 'f) thread \<times> (unit, timer_ref option) res" where
  "main_new_timer env th pos dur resp = with_runner th pos (\<lambda>rt. new_timer env rt None dur None (Some resp))"

definition main_new_fiber_timer ::
  "('w, 's, 'k, 'p, 'r, 'f) env \<Rightarrow> ('w, 's, 'k, 'p, 'r, 'f) thread \<Rightarrow> nat \<Rightarrow> duration \<Rightarrow> 'f \<Rightarrow> 'p \<Rightarrow>
    ('w, 's, 'k, 'p, 'r, 'f) thread \<times> (unit, timer_ref option) res" where
  "main_new_fiber_timer env th pos dur func param =
     with_runner th pos (\<lambda>rt. new_timer env rt (Some func) dur (Some param) None)"

definition main_new_processor ::
  "('w, 's, 'k, 'p, 'r, 'f) env \<Rightarrow> ('w, 's, 'k, 'p, 'r, 'f) thread \<Rightarrow> nat \<Rightarrow> 'f \<Rightarrow> 'p \<Rightarrow>
    ('w, 's, 'k, 'p, 'r, 'f) thread \<times> (unit, (io_error, unit) res) res" where
  "main_new_processor env th pos func param =
     with_runner th pos (\<lambda>rt. no_position (register env rt (Some func) S_Empty (Some param) None True))"

text \<open>Resuming and dropping the references that the program holds.\<close>

definition ref_resume ::
  "('w, 's, 'k, 'p, 'r, 'f) thread \<Rightarrow> fiber_ref \<Rightarrow> 'r option \<Rightarrow> ('w, 's, 'k, 'p, 'r, 'f) thread \<times> (unit, fiber_ref) res" where
  "ref_resume th ref resp = with_runner th (fr_runner ref) (\<lambda>rt. fiber_ref_resume rt ref resp)"

definition ref_drop ::
  "('w, 's, 'k, 'p, 'r, 'f) thread \<Rightarrow> fiber_ref \<Rightarrow> ('w, 's, 'k, 'p, 'r, 'f) thread \<times> (unit, unit) res" where
  "ref_drop th ref = (if fr_resumed ref then (th, Ok ()) else with_runner th (fr_runner ref) (\<lambda>rt. fiber_ref_drop rt ref))"

definition timer_drop ::
  "('w, 's, 'k, 'p, 'r, 'f) env \<Rightarrow> ('w, 's, 'k, 'p, 'r, 'f) thread \<Rightarrow> timer_ref \<Rightarrow>
    ('w, 's, 'k, 'p, 'r, 'f) thread \<times> (unit, unit) res" where
  "timer_drop env th ref = with_runner th (tr_runner ref) (\<lambda>rt. timer_ref_drop env rt ref)"

section \<open>Invariant\<close>

text \<open>The table has its 20 entries, and the runner in each is well-formed and knows its own position.\<close>

definition thread_ok :: "('w, 's, 'k, 'p, 'r, 'f) thread \<Rightarrow> bool" where
  "thread_ok th \<longleftrightarrow>
     length (th_runners th) = MAX_RUNNERS \<and>
     (\<forall>pos rt. pos < MAX_RUNNERS \<longrightarrow> th_runners th ! pos = Some rt \<longrightarrow> runner_ok rt \<and> r_pos rt = pos)"

text \<open>
  What a program can do on a thread, in any order and with any fibers.  A panic ends the thread, so only completed
  calls continue.
\<close>

inductive thread_reach ::
  "('w, 's, 'k, 'p, 'r, 'f) env \<Rightarrow> ('w, 's, 'k, 'p, 'r, 'f) thread \<Rightarrow> bool"
  for env :: "('w, 's, 'k, 'p, 'r, 'f) env" where
  th_start: "thread_reach env (thread_start w)"
| th_world: "thread_reach env th \<Longrightarrow> thread_reach env (th\<lparr>th_world := w\<rparr>)"
| th_poller: "thread_reach env th \<Longrightarrow> start_poller (e_slab env) ssize poll_new contents now th = (th', Ok io) \<Longrightarrow>
    thread_reach env th'"
| th_poller_drop: "thread_reach env th \<Longrightarrow> thread_reach env (poller_drop th)"
| th_poll: "thread_reach env th \<Longrightarrow> poll (e_slab env) evs now th = Some (th', Ok b) \<Longrightarrow> thread_reach env th'"
| th_runner: "thread_reach env th \<Longrightarrow> thread_reach env (fst (start_runner th))"
| th_runner_drop: "thread_reach env th \<Longrightarrow> runner_drop th pos = (th', Ok u) \<Longrightarrow> thread_reach env th'"
| th_run: "thread_reach env th \<Longrightarrow> run_runner env th pos = Some (th', Ok b) \<Longrightarrow> thread_reach env th'"
| th_response: "thread_reach env th \<Longrightarrow> get_response th pos = (th', Ok r) \<Longrightarrow> thread_reach env th'"
| th_fiber: "thread_reach env th \<Longrightarrow> get_fiber th pos = (th', Ok fr) \<Longrightarrow> thread_reach env th'"
| th_resolve: "thread_reach env th \<Longrightarrow> main_resolve_connect env th pos domain st prt to func param = (th', Ok io) \<Longrightarrow>
    thread_reach env th'"
| th_tcp: "thread_reach env th \<Longrightarrow> main_new_tcp env th pos s func param = (th', Ok io) \<Longrightarrow> thread_reach env th'"
| th_listener: "thread_reach env th \<Longrightarrow> main_new_listener env th pos s func param = (th', Ok io) \<Longrightarrow> thread_reach env th'"
| th_udp: "thread_reach env th \<Longrightarrow> main_new_udp env th pos s func param = (th', Ok io) \<Longrightarrow> thread_reach env th'"
| th_timer: "thread_reach env th \<Longrightarrow> main_new_timer env th pos dur resp = (th', Ok tr) \<Longrightarrow> thread_reach env th'"
| th_fiber_timer: "thread_reach env th \<Longrightarrow> main_new_fiber_timer env th pos dur func param = (th', Ok tr) \<Longrightarrow>
    thread_reach env th'"
| th_processor: "thread_reach env th \<Longrightarrow> main_new_processor env th pos func param = (th', Ok io) \<Longrightarrow> thread_reach env th'"
| th_resume: "thread_reach env th \<Longrightarrow> ref_resume th fref resp' = (th', Ok fref') \<Longrightarrow> thread_reach env th'"
| th_drop: "thread_reach env th \<Longrightarrow> ref_drop th fref = (th', Ok u) \<Longrightarrow> thread_reach env th'"
| th_timer_drop: "thread_reach env th \<Longrightarrow> timer_drop env th tref = (th', Ok u) \<Longrightarrow> thread_reach env th'"

lemma thread_ok_other [simp]: "thread_ok (th\<lparr>th_poller := p\<rparr>) = thread_ok th" "thread_ok (th\<lparr>th_world := w\<rparr>) = thread_ok th"
  by (simp_all add: thread_ok_def)

lemma thread_ok_set:
  assumes "thread_ok th" "\<And>rt. r = Some rt \<Longrightarrow> good 0 pos rt"
  shows "thread_ok (set_runner th pos r)"
proof -
  have "runner_ok rt \<and> r_pos rt = q" if "q < MAX_RUNNERS" "(th_runners th)[pos := r] ! q = Some rt" for q rt
    using assms that by (cases "q = pos") (auto simp: thread_ok_def good_def)
  then show ?thesis using assms(1) by (simp add: thread_ok_def set_runner_def)
qed

lemma lend_good: "thread_ok th \<Longrightarrow> lend th pos = Ok rt \<Longrightarrow> good 0 pos rt"
proof -
  assume ok: "thread_ok th" and l: "lend th pos = Ok rt"
  obtain r p where r: "pos < length (th_runners th)" "th_runners th ! pos = Some r" "rt = r\<lparr>r_poller := p, r_world := th_world th\<rparr>"
    using l by (auto simp: lend_def get_runner_def split: option.splits if_splits)
  then have "good 0 pos r" using ok by (auto simp: thread_ok_def good_def)
  then show ?thesis using r(3) by simp
qed

lemma give_back_ok: "thread_ok th \<Longrightarrow> good 0 pos (fst m) \<Longrightarrow> thread_ok (fst (give_back th pos m))"
  using thread_ok_set [of th "Some (fst m)" pos] by (simp add: give_back_def split_beta set_runner_def)

text \<open>
  The contract that the calls of the program on a runner share: each keeps the invariant of the runner, and with it that
  of the thread.
\<close>

locale runner_call =
  fixes call :: "('w, 's, 'k, 'p, 'r, 'f) runner_int \<Rightarrow> ('w, 's, 'k, 'p, 'r, 'f) runner_int \<times> (unit, 'a) res"
  assumes call_keeps: "good n R rt \<Longrightarrow> good n R (fst (call rt))"
begin

lemma on_thread:
  assumes "thread_ok th" "with_runner th pos call = (th', x)"
  shows "thread_ok th'"
proof (cases "lend th pos")
  case (Ok rt)
  then show ?thesis
    using give_back_ok [OF assms(1) call_keeps [OF lend_good [OF assms(1) Ok]]] assms(2) by (simp add: with_runner_def)
qed (use assms in \<open>auto simp: with_runner_def\<close>)

end

lemma no_position_keeps [keeps]: "good n R (fst m) \<Longrightarrow> good n R (fst (no_position m))"
  unfolding no_position_def by (intro good_bindS) auto

interpretation responses: runner_call "\<lambda>rt. let (rt, x) = iter_responses rt in (rt, Ok x)"
  by unfold_locales
    (auto simp: split_beta iter_responses_def pop_front_def good_def runner_ok_def split: list.splits)

interpretation fibers: runner_call "\<lambda>rt. let (rt, x) = iter_fibers rt in (rt, Ok x)"
  by unfold_locales
    (auto simp: split_beta iter_fibers_def pop_front_def good_def runner_ok_def split: list.splits)

interpretation registration: runner_call "\<lambda>rt. no_position (register env rt func ft param None schedule)"
  for env func ft param schedule
  by unfold_locales (auto intro!: keeps register_keeps)

interpretation lookup: runner_call "\<lambda>rt. no_position (new_resolve env rt None domain func to st prt param)"
  for env domain func to st prt param
  by unfold_locales (auto intro!: keeps new_resolve_keeps)

interpretation timer: runner_call "\<lambda>rt. new_timer env rt func dur param resp" for env func dur param resp
  by unfold_locales (rule new_timer_keeps)

interpretation resumption: runner_call "\<lambda>rt. fiber_ref_resume rt fref resp" for fref resp
  by unfold_locales (auto simp: fiber_ref_resume_def intro!: keeps)

interpretation abandoned: runner_call "\<lambda>rt. fiber_ref_drop rt fref" for fref
  by unfold_locales (auto simp: fiber_ref_drop_def intro!: keeps)

interpretation cancellation: runner_call "\<lambda>rt. timer_ref_drop env rt tref" for env tref
  by unfold_locales (auto simp: timer_ref_drop_def intro!: keeps)

lemmas calls_on_thread =
  responses.on_thread fibers.on_thread registration.on_thread lookup.on_thread timer.on_thread resumption.on_thread
  abandoned.on_thread cancellation.on_thread

lemmas main_calls =
  get_response_def get_fiber_def main_resolve_connect_def main_new_tcp_def main_new_listener_def main_new_udp_def
  main_new_timer_def main_new_fiber_timer_def main_new_processor_def ref_resume_def ref_drop_def timer_drop_def

lemma run_runner_ok:
  assumes "thread_ok th" "run_runner env th pos = Some (th', x)"
  shows "thread_ok th'"
proof (cases "lend th pos")
  case (Ok rt)
  then obtain m where m: "runner_run env rt = Some m" "give_back th pos m = (th', x)"
    using assms(2) by (auto simp: run_runner_def)
  show ?thesis
    using give_back_ok [OF assms(1) runner_run_keeps [OF lend_good [OF assms(1) Ok] m(1)]] m(2) by simp
qed (use assms in \<open>auto simp: run_runner_def\<close>)

lemma poll_ok: "thread_ok th \<Longrightarrow> poll sl evs now th = Some (th', x) \<Longrightarrow> thread_ok th'"
  by (auto simp: poll_def split: option.splits)

lemma start_poller_ok: "thread_ok th \<Longrightarrow> start_poller sl ssize poll_new contents now th = (th', Ok x) \<Longrightarrow> thread_ok th'"
  by (auto simp: start_poller_def lift_def bindS_Ok_iff split: if_splits)

lemma runner_int_new_good: "good 0 pos (runner_int_new pos p w)"
  by (simp add: good_def runner_ok_def runner_int_new_def)

lemma start_runner_ok: "thread_ok th \<Longrightarrow> thread_ok (fst (start_runner th))"
  by (auto simp: start_runner_def Let_def split: option.split intro!: thread_ok_set runner_int_new_good)

lemma runner_drop_ok: "thread_ok th \<Longrightarrow> runner_drop th pos = (th', x) \<Longrightarrow> thread_ok th'"
  by (auto simp: runner_drop_def split: if_splits intro!: thread_ok_set)

lemma thread_reach_ok: "thread_reach env th \<Longrightarrow> thread_ok th"
proof (induction rule: thread_reach.induct)
  case (th_start w)
  show ?case by (simp add: thread_ok_def thread_start_def)
next
  case (th_poller th ssize poll_new contents now th' io)
  then show ?case using start_poller_ok by blast
next
  case (th_drop th fref th' u)
  then show ?case by (auto simp: ref_drop_def split: if_splits dest: abandoned.on_thread)
qed (auto simp: poller_drop_def main_calls dest: calls_on_thread poll_ok run_runner_ok runner_drop_ok intro: start_runner_ok)

text \<open>A fiber that the program registers and one call of \<^verbatim>\<open>run\<close>, seen from the thread.\<close>

lemma start_and_run:
  assumes "lend th pos = Ok rt" "register env rt func ft param None schedule = (rt1, Ok (Ok q))"
    and "runner_run env rt1 = Some (rt2, Ok b)"
  shows "\<exists>th1 th2. with_runner th pos (\<lambda>rt. no_position (register env rt func ft param None schedule)) = (th1, Ok (Ok ())) \<and>
    run_runner env th1 pos = Some (th2, Ok b) \<and> lend th2 pos = Ok rt2"
proof -
  have in_table: "pos < length (th_runners th)" using assms(1) by (auto simp: lend_def get_runner_def split: option.splits if_splits)
  have lent: "lend (fst (give_back th' pos (rt', x))) pos = Ok rt'" if "pos < length (th_runners th')" for th' rt' and x :: "(unit, 'x) res"
    using that by (simp add: give_back_def lend_def get_runner_def)
  let ?th1 = "fst (give_back th pos (rt1, Ok (Ok ()) :: (unit, (io_error, unit) res) res))"
  let ?th2 = "fst (give_back ?th1 pos (rt2, Ok b :: (unit, bool) res))"
  have "with_runner th pos (\<lambda>rt. no_position (register env rt func ft param None schedule)) = (?th1, Ok (Ok ()))"
    by (simp add: with_runner_def assms(1,2) no_position_def give_back_def)
  moreover have "run_runner env ?th1 pos = Some (?th2, Ok b)"
    using lent [OF in_table, of rt1 "Ok (Ok ())"] by (simp add: run_runner_def assms(3) give_back_def)
  moreover have "lend ?th2 pos = Ok rt2" by (rule lent) (use in_table in \<open>simp add: give_back_def\<close>)
  ultimately show ?thesis by blast
qed

end
