(* ===== verification/Thread_Properties.thy ===== *)
theory Thread_Properties
  imports Thread_Api
begin

text \<open>What the thread, its runners and their fibers guarantee, on the operations of the code.\<close>

section \<open>An example thread\<close>

text \<open>
  A thread with one runner at position 0, on the test system.  The fibers of the example are numbered: 0 sends two
  chunks and returns, 1 hibernates, 2 reads once and returns what it was told.
\<close>

fun ex_code :: "nat \<Rightarrow> nat \<Rightarrow> (nat, nat, nat) prog" where
  "ex_code f p =
     (if f = 0 then stream [p, p + 1] (Some (p + 2))
      else if f = 1 then Call Rq_hibernate_join_main (\<lambda>_. Return None)
      else Call (Rq_read 4) (\<lambda>r. case r of Rs_read (Ok d) \<Rightarrow> Return (Some (length d)) | _ \<Rightarrow> Return (Some 99)))"

definition ex_env :: "(test_os, entry vec_slab, nat, nat, nat, nat) env" where
  "ex_env =
     \<lparr>e_slab = vec_slab_ops, e_os = test_os_ops, e_bo = network, e_stack = (\<lambda>_. Ok 0), e_code = ex_code\<rparr>"

definition ex_runner :: "(test_os, entry vec_slab, nat, nat, nat, nat) runner_int" where
  "ex_runner = runner_int_new 0 ex_poller test_os_start"

definition ex_thread :: "(test_os, entry vec_slab, nat, nat, nat, nat) thread" where
  "ex_thread = \<lparr>th_poller = Some ex_poller, th_runners = Some ex_runner # None # replicate 18 None,
     th_world = test_os_start\<rparr>"

lemma runners_table: "replicate 20 x = x # x # replicate 18 x"
  by (simp add: numeral_nat)

lemma ex_poller_queues [simp]:
  "toexec_fibers ex_poller = replicate MAX_RUNNERS []" "timedout_fibers ex_poller = replicate MAX_RUNNERS []"
  "lookup_results ex_poller = replicate MAX_RUNNERS []" "free_stacks ex_poller = []" "stack_size ex_poller = None"
  by (simp_all add: ex_poller_def)

lemma ex_env_simps [simp]:
  "e_slab ex_env = vec_slab_ops" "e_os ex_env = test_os_ops" "e_stack ex_env = (\<lambda>_. Ok 0)" "e_code ex_env = ex_code"
  by (simp_all add: ex_env_def)

lemma ex_runner_idle: "idle ex_runner"
  by (simp add: idle_def ex_runner_def runner_int_new_def MAX_RUNNERS_def)

lemma ex_started:
  "start_poller vec_slab_ops None (Ok ()) (Some []) (Instant 0) (thread_start test_os_start) =
    ((thread_start test_os_start :: (test_os, entry vec_slab, nat, nat, nat, nat) thread)\<lparr>th_poller := Some ex_poller\<rparr>, Ok (Ok ()))"
  "start_runner ((thread_start test_os_start)\<lparr>th_poller := Some ex_poller\<rparr>) = (ex_thread, Ok 0)"
  by (simp_all add: start_poller_def thread_start_def ex_poller_new start_runner_def find_empty_def set_runner_def
      ex_thread_def ex_runner_def MAX_RUNNERS_def runners_table)

lemma ex_thread_reach: "thread_reach ex_env ex_thread"
proof -
  have "start_poller (e_slab ex_env) None (Ok ()) (Some []) (Instant 0) (thread_start test_os_start) =
      ((thread_start test_os_start :: (test_os, entry vec_slab, nat, nat, nat, nat) thread)\<lparr>th_poller := Some ex_poller\<rparr>, Ok (Ok ()))"
    by (simp only: ex_env_simps ex_started)
  from thread_reach.th_runner [OF thread_reach.th_poller [OF thread_reach.th_start this]] show ?thesis by (simp only: ex_started fst_conv)
qed

lemma ex_lend: "lend ex_thread 0 = Ok ex_runner"
  by (simp add: lend_def get_runner_def ex_thread_def ex_runner_def runner_int_new_def)

section \<open>Threads\<close>

text \<open>
  C2: whatever a program does on a thread (starting and dropping pollers and runners, polling, registering fibers,
  timers and lookups, resuming and dropping references, running, with any bodies of fibers), every runner of the thread
  stays well-formed: it sits at its own position, every fiber carries the identifier of its own slot, and every
  position it keeps (parents, children, free slots, references handed to the main stack) lies in its vector of fibers.
\<close>

theorem reachable_thread_ok:
  assumes "thread_reach env th"
  shows "thread_ok th"
  by (rule thread_reach_ok [OF assms])

theorem reachable_thread_ok_witness: "thread_ok ex_thread"
  by (rule reachable_thread_ok [OF ex_thread_reach])

text \<open>
  Starting a runner.  It fails with \<open>no poller\<close> before the poller exists and with \<open>no space\<close> exactly when all 20
  positions are taken; otherwise the new, empty runner sits at the first free position and the others are as before.
\<close>

theorem start_runner_first_free:
  assumes "length (th_runners th) = MAX_RUNNERS"
  shows "case th_poller th of
      None \<Rightarrow> start_runner th = (th, Err (IoError OtherKind ''no poller''))
    | Some p \<Rightarrow>
        if None \<in> set (th_runners th) then
          \<exists>pos < MAX_RUNNERS. th_runners th ! pos = None \<and> (\<forall>q < pos. th_runners th ! q \<noteq> None) \<and>
            start_runner th = (th\<lparr>th_runners := (th_runners th)[pos := Some (runner_int_new pos p (th_world th))]\<rparr>, Ok (int pos))
        else start_runner th = (th, Err (IoError OtherKind ''no space''))"
proof -
  have none: "None \<notin> set rs \<Longrightarrow> find_empty_from i rs = -1" for i and rs :: "'x option list"
    by (induction rs arbitrary: i) auto
  have some: "None \<in> set rs \<Longrightarrow> \<exists>n < length rs. rs ! n = None \<and> (\<forall>q < n. rs ! q \<noteq> None) \<and> find_empty_from i rs = i + int n"
    for i and rs :: "'x option list"
  proof (induction rs arbitrary: i)
    case (Cons r rs)
    show ?case
    proof (cases "r = None")
      case False
      then obtain n where "n < length rs" "rs ! n = None" "\<forall>q < n. rs ! q \<noteq> None" "find_empty_from (i + 1) rs = i + 1 + int n"
        using Cons by (auto dest: meta_spec [of _ "i + 1"])
      then show ?thesis using False by (intro exI [of _ "Suc n"]) (auto simp: less_Suc_eq_0_disj)
    qed auto
  qed simp
  show ?thesis
  proof (cases "None \<in> set (th_runners th)")
    case True
    from some [OF this, of 0] obtain n where "n < MAX_RUNNERS" "th_runners th ! n = None" "\<forall>q < n. th_runners th ! q \<noteq> None"
      "find_empty th = int n" using assms by (auto simp: find_empty_def)
    then show ?thesis
      using True by (auto simp: start_runner_def set_runner_def split: option.split intro!: exI [of _ n])
  next
    case False
    then show ?thesis using none [OF False, of 0] by (simp add: start_runner_def find_empty_def split: option.split)
  qed
qed

theorem start_runner_first_free_witness:
  "start_runner ex_thread = (ex_thread\<lparr>th_runners := Some ex_runner # Some (runner_int_new 1 ex_poller test_os_start) # replicate 18 None\<rparr>,
     Ok (1 :: int))"
proof -
  have rs: "th_runners ex_thread = Some ex_runner # None # replicate 18 None" by (simp add: ex_thread_def)
  have "\<exists>pos < MAX_RUNNERS. th_runners ex_thread ! pos = None \<and> (\<forall>q < pos. th_runners ex_thread ! q \<noteq> None) \<and>
      start_runner ex_thread = (ex_thread\<lparr>th_runners := (th_runners ex_thread)
        [pos := Some (runner_int_new pos ex_poller (th_world ex_thread))]\<rparr>, Ok (int pos))"
    using start_runner_first_free [of ex_thread] by (simp add: ex_thread_def MAX_RUNNERS_def)
  then obtain pos where p: "th_runners ex_thread ! pos = None" "\<forall>q < pos. th_runners ex_thread ! q \<noteq> None"
    "start_runner ex_thread = (ex_thread\<lparr>th_runners := (th_runners ex_thread)
        [pos := Some (runner_int_new pos ex_poller (th_world ex_thread))]\<rparr>, Ok (int pos))" by blast
  have "pos \<noteq> 0" using p(1) rs by (cases pos) auto
  moreover have "\<not> 1 < pos" using p(2) rs by auto
  ultimately have "pos = 1" by simp
  then show ?thesis using p(3) rs by (simp add: ex_thread_def)
qed

text \<open>
  C24: dropping a runner leaves its entries in the poller's queues.  A new runner started at the same position while
  such an entry is left panics when it runs, although nothing was registered on it.
\<close>

theorem restarted_runner_panics:
  assumes "start_runner th = (th', Ok (int pos))" and "th_poller th = Some p"
    and "length (toexec_fibers p) = MAX_RUNNERS" and "pos < MAX_RUNNERS" and "length (th_runners th) = MAX_RUNNERS"
    and "toexec_fibers p ! pos \<noteq> []"
  shows "\<exists>th''. run_runner env th' pos = Some (th'', Panic)"
proof -
  obtain q qs where q: "toexec_fibers p ! pos = q # qs" using assms(6) by (cases "toexec_fibers p ! pos") auto
  have th': "th' = set_runner th pos (Some (runner_int_new pos p (th_world th)))"
    using assms(1,2) by (auto simp: start_runner_def Let_def split: if_splits)
  let ?rt = "(runner_int_new pos p (th_world th))\<lparr>r_poller := p, r_world := th_world th\<rparr>"
  have l: "lend th' pos = Ok ?rt"
    using assms(2,4,5) by (simp add: th' lend_def get_runner_def set_runner_def)
  have "\<exists>rt'. run_toexec env ?rt = Some (rt', Panic)"
    using assms(3,4) q
    by (subst run_toexec.simps) (simp add: pop_toexec_def on_poller_def in_range runner_int_new_def exec_fiber_def the_fiber_out)
  then show ?thesis using l by (auto simp: run_runner_def runner_run_def give_back_def)
qed

text \<open>The runner of the example after its fiber has been registered: dropped before it ran, and replaced.\<close>

definition ex_left_over :: "(test_os, entry vec_slab, nat, nat, nat, nat) thread" where
  "ex_left_over = fst (runner_drop (fst (main_new_processor ex_env ex_thread 0 0 7)) 0)"

lemma ex_left_over:
  "ex_left_over = \<lparr>th_poller = Some (ex_poller\<lparr>toexec_fibers := [0] # [] # replicate 18 []\<rparr>), th_runners = replicate 20 None,
     th_world = test_os_start\<rparr>"
  by (simp add: ex_left_over_def main_new_processor_def with_runner_def lend_def no_position_def register_def place_fiber_def
      ex_runner_def runner_int_new_def pop_front_def watch_listener_def new_fiber_def push_toexec_def on_poller_def in_range
      MAX_RUNNERS_def give_back_def runner_drop_def get_runner_def set_runner_def ex_thread_def runners_table)

theorem restarted_runner_panics_witness:
  "\<exists>th''. run_runner ex_env (fst (start_runner ex_left_over)) 0 = Some (th'', Panic)"
proof -
  have s: "start_runner ex_left_over = (fst (start_runner ex_left_over), Ok (int 0))"
    by (simp add: start_runner_def ex_left_over find_empty_def runners_table)
  show ?thesis
    by (rule restarted_runner_panics [OF s, where p = "ex_poller\<lparr>toexec_fibers := [0] # [] # replicate 18 []\<rparr>"]) (simp_all add: ex_left_over MAX_RUNNERS_def)
qed

end
