(* ===== verification/Fiber_Properties.thy ===== *)
theory Fiber_Properties
  imports Thread_Properties
begin

text \<open>What happens to a fiber: its results, its waits and timeouts, its children, its identifier, and its slot.\<close>

section \<open>From start to end\<close>

text \<open>
  C1: a fiber from start to end.  On an idle runner, a processor fiber whose body hands a sequence of chunks to the main
  stack and then returns is registered in the first free slot (or a new one) and one call of \<^verbatim>\<open>run\<close> brings it to its end:
  the call terminates, the chunks and the result are queued for the program in order, the slot is free again, the
  runner is idle and no other fiber of the runner has changed.  The fiber is resumed after every chunk within this same call
  of \<^verbatim>\<open>run\<close>, before the program has taken the chunk.
\<close>

theorem processor_streams_results:
  assumes "thread_reach env th" and "lend th pos = Ok rt" and "idle rt" and "length (r_fibers rt) < 2 ^ 32"
    and "\<And>n. \<exists>st. e_stack env n = Ok st" and "e_code env g p = stream cs res"
  shows "\<exists>th1 th2 rt2 b. main_new_processor env th pos g p = (th1, Ok (Ok ())) \<and> run_runner env th1 pos = Some (th2, Ok b) \<and>
    lend th2 pos = Ok rt2 \<and> idle rt2 \<and>
    r_results rt2 = r_results rt @ cs @ (case res of Some r \<Rightarrow> [r] | None \<Rightarrow> []) \<and> b = signaled rt2 \<and>
    r_free_fibers rt2 = tl (r_free_fibers rt) @ [free_slot rt] \<and> f_state (r_fibers rt2 ! free_slot rt) = Closed \<and>
    (\<forall>i < length (r_fibers rt). i \<noteq> free_slot rt \<longrightarrow> r_fibers rt2 ! i = r_fibers rt ! i)"
proof -
  have g: "good 0 pos rt" by (rule lend_good [OF thread_reach_ok [OF assms(1)] assms(2)])
  then have free: "\<forall>q \<in> set (r_free_fibers rt). q < length (r_fibers rt)" by (simp add: good_def runner_ok_def)
  from fiber_life [OF assms(3) free assms(4-6)] obtain rt1 rt2 where
    reg: "register env rt (Some g) S_Empty (Some p) None True = (rt1, Ok (Ok (free_slot rt)))" and
    run: "runner_run env rt1 = Some (rt2, Ok (signaled rt2))" and
    res: "idle rt2" "r_results rt2 = r_results rt @ cs @ (case res of Some r \<Rightarrow> [r] | None \<Rightarrow> [])"
      "r_free_fibers rt2 = tl (r_free_fibers rt) @ [free_slot rt]" "f_state (r_fibers rt2 ! free_slot rt) = Closed"
      "\<forall>i < length (r_fibers rt). i \<noteq> free_slot rt \<longrightarrow> r_fibers rt2 ! i = r_fibers rt ! i" by blast
  show ?thesis using start_and_run [OF assms(2) reg run] res by (auto simp: main_new_processor_def)
qed

theorem processor_streams_results_witness:
  "\<exists>th1 th2 rt2 b. main_new_processor ex_env ex_thread 0 0 7 = (th1, Ok (Ok ())) \<and> run_runner ex_env th1 0 = Some (th2, Ok b) \<and>
    lend th2 0 = Ok rt2 \<and> r_results rt2 = [7, 8, 9] \<and> b = signaled rt2 \<and> r_free_fibers rt2 = [0]"
proof -
  have "length (r_fibers ex_runner) < 2 ^ 32" "\<And>n. \<exists>st. e_stack ex_env n = Ok st" "e_code ex_env 0 7 = stream [7, 8] (Some 9)"
    by (simp_all add: ex_runner_def runner_int_new_def)
  from processor_streams_results [OF ex_thread_reach ex_lend ex_runner_idle this]
  obtain th1 th2 rt2 b where "main_new_processor ex_env ex_thread 0 0 7 = (th1, Ok (Ok ()))" "run_runner ex_env th1 0 = Some (th2, Ok b)"
    "lend th2 0 = Ok rt2" "r_results rt2 = r_results ex_runner @ [7, 8] @ [9]" "b = signaled rt2"
    "r_free_fibers rt2 = tl (r_free_fibers ex_runner) @ [free_slot ex_runner]" by auto
  then show ?thesis by (auto simp: ex_runner_def runner_int_new_def free_slot_def)
qed

section \<open>Identifiers\<close>

text \<open>
  The identifier of a fiber, under which its socket events and timers come back, is taken apart by the poller into
  the runner and the position it was made from, for every runner and up to 2^32 fibers.
\<close>

theorem fiber_id_split:
  assumes "r_pos rt < MAX_RUNNERS" and "pos < 2 ^ 32"
  shows "split_id (fiber_id rt pos) = (r_pos rt, word_of_nat pos)"
  using runner_id_split [of "r_pos rt" pos] assms by (simp add: fiber_id_def MAX_RUNNERS_def)

theorem fiber_id_split_witness: "split_id (fiber_id (ex_runner\<lparr>r_pos := 19\<rparr>) 4294967295) = (19, 4294967295)"
  using fiber_id_split [of "ex_runner\<lparr>r_pos := 19\<rparr>" 4294967295] by (simp add: MAX_RUNNERS_def)

section \<open>Timeouts\<close>

text \<open>A fiber of the example that has read from an empty socket.\<close>

definition ex_fiber :: "nat \<Rightarrow> (nat, nat, nat, nat) fiber_int" where
  "ex_fiber f = (new_fiber 0 (Some f) (S_Tcp 4) (Some 7) None (runner_id 0 0) 0)"

lemma ex_fiber_simps [simp]:
  "f_me (ex_fiber f) = runner_id 0 0" "f_runner (ex_fiber f) = 0" "f_parent (ex_fiber f) = None" "f_children (ex_fiber f) = []"
  "f_func (ex_fiber f) = Some f" "f_param (ex_fiber f) = Some 7" "f_t (ex_fiber f) = None" "f_result (ex_fiber f) = None"
  "f_sock (ex_fiber f) = S_Tcp 4" "f_wtoken (ex_fiber f) = None" "f_connect_param (ex_fiber f) = None" "handle_id (ex_fiber f) = 0"
  "f_state (ex_fiber f) = Unstacked" "f_ready (ex_fiber f) = ReadyEmpty"
  by (simp_all add: ex_fiber_def new_fiber_def handle_id_def runner_id_handle)


definition ex_reading :: "(test_os, entry vec_slab, nat, nat, nat, nat) runner_int" where
  "ex_reading =
     ex_runner\<lparr>r_fibers := [(ex_fiber 2)\<lparr>f_ready := ReadyReadable, f_timeout := Some 1000000000\<rparr>]\<rparr>"

lemma ex_reading_simps [simp]:
  "r_pos ex_reading = 0" "r_poller ex_reading = ex_poller" "r_world ex_reading = test_os_start"
  "r_fibers ex_reading = [(ex_fiber 2)\<lparr>f_ready := ReadyReadable, f_timeout := Some 1000000000\<rparr>]"
  by (simp_all add: ex_reading_def ex_runner_def runner_int_new_def)

lemma ex_reading_ok: "runner_ok ex_reading" "addressable (runner_id 0 0)"
  by (simp_all add: runner_ok_def fiber_ok_def ex_reading_def ex_runner_def runner_int_new_def addressable_def runner_id_split
      MAX_RUNNERS_def)

lemma ex_blocks:
  "sock_read test_os_ops (S_Tcp 4) n test_os_start = (test_os_start, Err (IoError WouldBlock ''''))"
  "os_now test_os_ops test_os_start = (Instant 0, test_os_start)"
  by (simp_all add: sock_read_def test_os_ops_def script_read_def test_os_start_def)


text \<open>
  C9: when the runner takes a fiber from its timeout queue, the wait it is suspended in (a read, a write, a vectored
  one or a TLS handshake) ends: the body goes on with the time-out error of that operation, its timer token is gone
  and its timeout flag is reset.
\<close>

theorem timed_out_wait_resumes:
  assumes "pos < length (r_fibers rt)" and "r_fibers rt ! pos = fib" and "f_wtoken fib = Some tk"
    and "f_connect_param fib = None" and "f_func fib = Some g" and "f_t fib = Some (FiberCtx pt k)" and "handle_id fib = pos"
    and "timeout_resp pt = Some resp"
  shows "\<exists>rt1. exec_timeout env pos rt = step_into env pos rt1 \<and>
    enter_fiber env rt1 pos =
      settle pos pos (fiber_run env pos (Prog (k resp))
        (rt\<lparr>r_fibers := (r_fibers rt)[pos := fib\<lparr>f_wtoken := None, f_t := Some MainCtx, f_timed_out := 0\<rparr>]\<rparr>))"
  using exec_timeout_resumes [OF assms, of env] by (auto simp: timed_out_fiber_def)

definition ex_timed_out :: "(test_os, entry vec_slab, nat, nat, nat, nat) runner_int" where
  "ex_timed_out =
     ex_runner\<lparr>r_fibers := [(ex_fiber 2)\<lparr>f_wtoken := Some 0, f_t := Some (FiberCtx (At_read 4) (\<lambda>r. Return (Some 99)))\<rparr>]\<rparr>"

theorem timed_out_wait_resumes_witness:
  "\<exists>rt1. exec_timeout ex_env 0 ex_timed_out = step_into ex_env 0 rt1 \<and>
    enter_fiber ex_env rt1 0 =
      settle 0 0 (Some (ex_timed_out\<lparr>r_fibers := [(ex_fiber 2)\<lparr>f_wtoken := None, f_t := Some MainCtx, f_timed_out := 0\<rparr>]\<rparr>,
        Ok (Returned (Some 99))))"
  using timed_out_wait_resumes [of 0 ex_timed_out "r_fibers ex_timed_out ! 0" 0 2 "At_read 4" "\<lambda>r. Return (Some 99)"
      "Rs_read (Err read_timeout)" ex_env]
  by (simp add: ex_timed_out_def handle_id_def runner_id_handle)

text \<open>
  C10: a one-shot timer.  Once its time has come, a poll puts the timer's fiber into the timeout queue of its runner, and
  handling it queues the response for the program and frees the slot.
\<close>

theorem timer_delivers_response:
  assumes "slab (e_slab env)" and "poller_reach (e_slab env) (r_poller rt)" and "runner_ok rt" and "r_pos rt < MAX_RUNNERS"
    and "length (r_fibers rt) < 2 ^ 32" and "os_now (e_os env) (r_world rt) = (now, w)"
    and "can_register (e_slab env) (r_poller rt) (timer_at now (Some dur))"
    and new: "new_timer env rt None dur None (Some resp) = (rt1, Ok (Some ref))"
    and "in_horizon (pl_wheel (r_poller rt1)) now'" and "timer_at now (Some dur) \<le> now'"
    and "tick_instant (pl_wheel (r_poller rt)) (w_cur_tick (pl_wheel (r_poller rt)) + 1) \<le> now'"
  shows "\<exists>p b rt2. poller_poll (e_slab env) (Ok []) now' (r_poller rt1) = Some (p, Ok b) \<and>
    word_of_nat (tr_id ref) \<in> set (timedout_fibers p ! r_pos rt) \<and>
    exec_timeout env (tr_id ref) (rt1\<lparr>r_poller := p\<rparr>) = Some (rt2, Ok ()) \<and>
    r_results rt2 = r_results rt @ [resp] \<and> r_free_fibers rt2 = tl (r_free_fibers rt) @ [tr_id ref]"
proof -
  let ?pos = "free_slot rt"
  let ?fib = "new_fiber (r_pos rt) None S_Empty None None (fiber_id rt ?pos) (next_generation rt)"
  let ?fs = "put_fiber (r_fibers rt) ?pos ?fib"
  have free: "\<forall>q \<in> set (r_free_fibers rt). q < length (r_fibers rt)" using assms(3) by (simp add: runner_ok_def)
  then have pos: "?pos \<le> length (r_fibers rt)" by (auto simp: free_slot_def split: list.splits)
  have in_fs: "?pos < length ?fs" "?fs ! ?pos = ?fib" using pos by (auto simp: put_fiber_def nth_append)
  have sp: "split_id (fiber_id rt ?pos) = (r_pos rt, word_of_nat ?pos)"
    using runner_id_split [of "r_pos rt" ?pos] assms(4,5) pos by (simp add: fiber_id_def MAX_RUNNERS_def)
  then have adr: "addressable (fiber_id rt ?pos)" using assms(4) by (simp add: addressable_def)
  obtain p' r where reg: "timer_reg (e_slab env) now (r_poller rt) (fiber_id rt ?pos) (Some dur) = (p', r)"
    by (cases "timer_reg (e_slab env) now (r_poller rt) (fiber_id rt ?pos) (Some dur)")
  have step: "new_timer env rt None dur None (Some resp) =
    bindS (rt\<lparr>r_free_fibers := tl (r_free_fibers rt), r_fibers := ?fs[?pos := ?fib\<lparr>f_result := Some resp\<rparr>], r_world := w, r_poller := p'\<rparr>, r)
      (\<lambda>rt tk. case tk of
         Some tk \<Rightarrow> bindS (mod_fiber rt ?pos (\<lambda>fib. fib\<lparr>f_wtoken := Some tk\<rparr>)) (\<lambda>rt _. (rt, Ok (Some \<lparr>tr_runner = r_pos rt, tr_id = ?pos\<rparr>)))
       | None \<Rightarrow> (rt, Ok None))"
    using place_fiber_plain [of S_Empty rt env None None None] free in_fs reg assms(6)
    by (simp add: new_timer_def register_def in_range reg_timer_def on_poller_def fiber_id_def)
  obtain tk where r: "r = Ok (Some tk)" using new unfolding step by (cases r) (auto split: option.splits)
  have rt1: "rt1 = rt\<lparr>r_free_fibers := tl (r_free_fibers rt), r_world := w, r_poller := p',
      r_fibers := ?fs[?pos := ?fib\<lparr>f_result := Some resp, f_wtoken := Some tk\<rparr>]\<rparr>" "tr_id ref = ?pos"
    using new in_fs unfolding step r by (auto simp: in_range)
  have "fires_at (pl_wheel (r_poller rt)) (timer_at now (Some dur)) \<le> now'"
    using fires_at_bounds(2) [of "pl_wheel (r_poller rt)" "timer_at now (Some dur)"] assms(7,10,11)
      poller_ok_clock [OF wheel_slab.poller_reach_ok [OF wheel_slab.intro [OF assms(1)] assms(2)]]
    by (auto simp: can_register_def)
  with timer_after_waits [OF assms(1,2) adr assms(7) reg [unfolded r] waits_start, of now' "[]"] assms(9)
  obtain p b where poll: "poller_poll (e_slab env) (Ok []) now' (r_poller rt1) = Some (p, Ok b)"
    "word_of_nat ?pos \<in> set (timedout_fibers p ! r_pos rt)" by (auto simp: sp rt1)
  have "\<exists>rt2. exec_timeout env ?pos (rt1\<lparr>r_poller := p\<rparr>) = Some (rt2, Ok ()) \<and>
      r_results rt2 = r_results rt @ [resp] \<and> r_free_fibers rt2 = tl (r_free_fibers rt) @ [?pos]"
    using in_fs(1) unfolding rt1(1)
    by (simp add: exec_timeout_def in_range new_fiber_def, subst step_into.simps)
      (simp add: enter_fiber_def in_range stepped_out_def push_back_def)
  then show ?thesis using poll rt1(2) by auto
qed

theorem timer_delivers_response_witness:
  "\<exists>rt1 p b rt2. new_timer ex_env ex_runner None 1000000000 None (Some 42) = (rt1, Ok (Some \<lparr>tr_runner = 0, tr_id = 0\<rparr>)) \<and>
    poller_poll vec_slab_ops (Ok []) (Instant 1000000000) (r_poller rt1) = Some (p, Ok b) \<and>
    exec_timeout ex_env 0 (rt1\<lparr>r_poller := p\<rparr>) = Some (rt2, Ok ()) \<and> r_results rt2 = [42]"
proof -
  have r: "r_pos ex_runner = 0" "r_fibers ex_runner = []" "r_poller ex_runner = ex_poller" "r_world ex_runner = test_os_start"
    "r_free_fibers ex_runner = []" "r_results ex_runner = []" "runner_ok ex_runner"
    by (simp_all add: ex_runner_def runner_int_new_def runner_ok_def)
  obtain w' tk where reg: "timer_reg vec_slab_ops (Instant 0) ex_poller (runner_id 0 0) (Some 1000000000) =
      (ex_poller\<lparr>pl_wheel := w'\<rparr>, Ok (Some tk))" "in_horizon w' (Instant 1000000000)"
    using ex_reg_some [OF ex_reading_ok(2)] by blast
  obtain rt1 where new: "new_timer ex_env ex_runner None 1000000000 None (Some 42) = (rt1, Ok (Some \<lparr>tr_runner = 0, tr_id = 0\<rparr>))"
    "r_poller rt1 = ex_poller\<lparr>pl_wheel := w'\<rparr>"
    using reg(1) r by (simp add: new_timer_def register_def place_fiber_def pop_front_def watch_listener_def new_fiber_def in_range
        reg_timer_def ex_blocks on_poller_def fiber_id_def)
  have "\<exists>p b rt2. poller_poll (e_slab ex_env) (Ok []) (Instant 1000000000) (r_poller rt1) = Some (p, Ok b) \<and>
      word_of_nat 0 \<in> set (timedout_fibers p ! r_pos ex_runner) \<and>
      exec_timeout ex_env 0 (rt1\<lparr>r_poller := p\<rparr>) = Some (rt2, Ok ()) \<and>
      r_results rt2 = r_results ex_runner @ [42] \<and> r_free_fibers rt2 = tl (r_free_fibers ex_runner) @ [0]"
    using timer_delivers_response [of ex_env ex_runner "Instant 0" test_os_start 1000000000 42 rt1 "\<lparr>tr_runner = 0, tr_id = 0\<rparr>"
        "Instant 1000000000", unfolded ex_env_simps, OF vec_slab.slab_axioms] r new reg(2) ex_poller_reach(1) ex_blocks(2) ex_poller_can ex_due
    by (simp add: MAX_RUNNERS_def)
  then show ?thesis using new(1) r by auto
qed

section \<open>Children\<close>

text \<open>
  \<^verbatim>\<open>get_child\<close>, one turn of its loop.  Without children it returns nothing; if no child is closed or has a result, the
  fiber steps out.  Otherwise the first such child is served: its result is taken (and returned, if there is one);
  if it is closed, it is removed from the children, its slot is freed and no other child is lost; if not, it is queued
  to run on.
\<close>

theorem get_child_turn:
  assumes "runner_ok rt" and "parent < length (r_fibers rt)" and "parent \<notin> set (f_children (r_fibers rt ! parent))"
    and "r_pos rt < length (toexec_fibers (r_poller rt))"
  shows "case find (child_ready (r_fibers rt)) (f_children (r_fibers rt ! parent)) of
      None \<Rightarrow> child_turn rt parent =
        (rt, Ok (if f_children (r_fibers rt ! parent) = [] then Finish (Rs_opt None) else StepOut At_child_iter))
    | Some c \<Rightarrow> \<exists>rt'. child_turn rt parent =
          (rt', Ok (case f_result (r_fibers rt ! c) of Some r \<Rightarrow> Finish (Rs_opt (Some r)) | None \<Rightarrow> Goto At_child_iter)) \<and>
        r_fibers rt' ! c = (r_fibers rt ! c)\<lparr>f_result := None\<rparr> \<and>
        (if f_state (r_fibers rt ! c) = Closed
         then mset (f_children (r_fibers rt' ! parent)) = mset (f_children (r_fibers rt ! parent)) - {#c#} \<and>
           r_free_fibers rt' = r_free_fibers rt @ [c] \<and> r_poller rt' = r_poller rt
         else r_fibers rt' ! parent = r_fibers rt ! parent \<and> r_free_fibers rt' = r_free_fibers rt \<and>
           toexec_fibers (r_poller rt') ! r_pos rt = toexec_fibers (r_poller rt) ! r_pos rt @ [word_of_nat c])"
proof -
  have "fiber_ok (r_pos rt) (length (r_fibers rt)) parent (r_fibers rt ! parent)"
    using good_fiber [of 0 "r_pos rt" rt parent] assms(1,2) by (simp add: good_def)
  then have cs: "\<forall>c \<in> set (f_children (r_fibers rt ! parent)). c < length (r_fibers rt) \<and> c \<noteq> parent"
    using assms(3) by (auto simp: fiber_ok_def)
  show ?thesis
  proof (cases "find (child_ready (r_fibers rt)) (f_children (r_fibers rt ! parent))")
    case None
    then show ?thesis using child_turn_blocked [OF assms(2)] cs by simp
  next
    case (Some c)
    show ?thesis unfolding Some option.case by (rule child_turn_ready [OF assms(2) cs assms(4) Some])
  qed
qed

definition ex_family :: "(test_os, entry vec_slab, nat, nat, nat, nat) runner_int" where
  "ex_family =
     ex_runner\<lparr>r_fibers :=
       [(ex_fiber 0)\<lparr>f_children := [1, 2]\<rparr>,
        (ex_fiber 0)\<lparr>f_me := runner_id 0 1, f_parent := Some 0\<rparr>,
        (ex_fiber 0)\<lparr>f_me := runner_id 0 2, f_parent := Some 0, f_state := Closed, f_result := Some 5\<rparr>]\<rparr>"

theorem get_child_turn_witness:
  "\<exists>rt'. child_turn ex_family 0 = (rt', Ok (Finish (Rs_opt (Some 5)))) \<and> mset (f_children (r_fibers rt' ! 0)) = {#1#} \<and>
    r_free_fibers rt' = [2]"
proof -
  have f: "find (child_ready (r_fibers ex_family)) (f_children (r_fibers ex_family ! 0)) = Some 2"
    by (simp add: ex_family_def child_ready_def)
  have r: "r_pos ex_family = 0" "r_free_fibers ex_family = []" "r_tomain_fibers ex_family = []" "r_poller ex_family = ex_poller"
    by (simp_all add: ex_family_def ex_runner_def runner_int_new_def)
  have "runner_ok ex_family" unfolding runner_ok_def r by (simp add: ex_family_def fiber_ok_def less_Suc_eq numeral_2_eq_2)
  from get_child_turn [OF this, of 0] f r show ?thesis by (auto simp: ex_family_def MAX_RUNNERS_def)
qed

section \<open>Hibernation, lookups and slots\<close>

text \<open>
  C21: a fiber that hibernated with \<^verbatim>\<open>hibernate_join_main\<close> cannot be resumed: its parameter was taken when its body
  started, so starting the body again panics.
\<close>

theorem hibernated_fiber_panics:
  assumes "pos < length (r_fibers rt)" and "r_fibers rt ! pos = fib" and "handle_id fib = pos" and "f_func fib = Some g"
    and "f_param fib = Some p" and "f_t fib = None" and "f_parent fib = None" and "f_result fib = None"
    and "r_pos rt < length (toexec_fibers (r_poller rt))" and "\<And>n. \<exists>st. e_stack env n = Ok st"
    and "e_code env g p = Call Rq_hibernate_join_main k"
  shows "\<exists>rt1 rt2 rt3. step_into env pos rt = Some (rt1, Ok ()) \<and>
    fiber_ref_resume rt1 (fiber_ref_new (r_pos rt) pos) resp = (rt2, Ok \<lparr>fr_runner = r_pos rt, fr_id = pos, fr_resumed = True\<rparr>) \<and>
    r_tomain_fibers rt1 = r_tomain_fibers rt @ [fiber_ref_new (r_pos rt) pos] \<and>
    step_into env pos rt2 = Some (rt3, Panic)"
proof -
  obtain q st where stk: "stack_pop (e_stack env) (r_poller rt) = ((r_poller rt)\<lparr>free_stacks := q\<rparr>, Ok st)"
    by (rule stack_pop_ok [OF assms(10)])
  let ?rt1 = "rt\<lparr>r_poller := stack_push ((r_poller rt)\<lparr>free_stacks := q\<rparr>) st, r_fibers := (r_fibers rt)[pos := hibernated fib],
             r_tomain_fibers := r_tomain_fibers rt @ [fiber_ref_new (r_pos rt) pos]\<rparr>"
  have 1: "step_into env pos rt = Some (?rt1, Ok ())" by (rule step_into_hibernate [OF assms(1-8) stk assms(11)])
  have len: "r_pos rt < length (toexec_fibers (r_poller ?rt1))" using assms(9) by (simp add: stack_push_def)
  obtain rt2 where 2: "resume_fiber ?rt1 pos resp = (rt2, Ok ())" "r_fibers rt2 = (r_fibers rt)[pos := (hibernated fib)\<lparr>f_result := resp\<rparr>]"
    using assms(1) len by (simp add: resume_fiber_def in_range)
  obtain q' st' where stk': "stack_pop (e_stack env) (r_poller rt2) = ((r_poller rt2)\<lparr>free_stacks := q'\<rparr>, Ok st')"
    by (rule stack_pop_ok [OF assms(10)])
  obtain rt3 where 3: "step_into env pos rt2 = Some (rt3, Panic)"
    using step_into_without_param [OF _ _ _ _ stk', of pos g] 2(2) assms(1,4) by (auto simp: hibernated_def)
  have "fiber_ref_resume ?rt1 (fiber_ref_new (r_pos rt) pos) resp = (rt2, Ok \<lparr>fr_runner = r_pos rt, fr_id = pos, fr_resumed = True\<rparr>)"
    by (simp add: fiber_ref_resume_def fiber_ref_new_def 2(1) [unfolded fiber_ref_new_def])
  then show ?thesis using 1 3 by (intro exI conjI) auto
qed

theorem hibernated_fiber_panics_witness:
  "\<exists>rt1 rt2 rt3. step_into ex_env 0 (ex_runner\<lparr>r_fibers := [ex_fiber 1]\<rparr>) = Some (rt1, Ok ()) \<and>
    fiber_ref_resume rt1 (fiber_ref_new 0 0) (Some 3) = (rt2, Ok \<lparr>fr_runner = 0, fr_id = 0, fr_resumed = True\<rparr>) \<and>
    step_into ex_env 0 rt2 = Some (rt3, Panic)"
proof -
  have "r_pos ex_runner = 0" "length (toexec_fibers (r_poller ex_runner)) = 20"
    by (simp_all add: ex_runner_def runner_int_new_def MAX_RUNNERS_def)
  with hibernated_fiber_panics [of 0 "ex_runner\<lparr>r_fibers := [ex_fiber 1]\<rparr>" "ex_fiber 1" 1 7 ex_env "\<lambda>_. Return None" "Some 3"]
  show ?thesis by auto
qed

text \<open>
  C22: a fiber whose lookup timed out is lost once it waits for the main stack.  The last tick of the lookup starts its
  body with an empty socket, but leaves it marked as connecting.  When the body then calls \<^verbatim>\<open>join_main\<close>, it is suspended
  and the program gets its reference; the program's answer is stored and the fiber is queued to run; but taking it from
  the run queue does nothing, whatever the other fibers have done by then, and it has no timer that would resume it.
\<close>

theorem lookup_timeout_strands:
  assumes "pos < length (r_fibers rt)" and "r_fibers rt ! pos = fib" and "handle_id fib = pos" and "f_func fib = Some g"
    and "f_param fib = Some p" and "f_t fib = None" and "f_parent fib = None" and "f_result fib = None"
    and "f_wtoken fib = Some tk" and "f_connect_param fib = Some cp" and "f_timed_out fib = 1"
    and "r_pos rt < length (toexec_fibers (r_poller rt))" and "\<And>n. \<exists>st. e_stack env n = Ok st"
    and "e_code env g p = Call Rq_join_main k"
  shows "\<exists>rt1 rt2. exec_timeout env pos rt = Some (rt1, Ok ()) \<and>
    r_tomain_fibers rt1 = r_tomain_fibers rt @ [fiber_ref_new (r_pos rt) pos] \<and>
    f_t (r_fibers rt1 ! pos) = Some (FiberCtx At_join_main k) \<and>
    fiber_ref_resume rt1 (fiber_ref_new (r_pos rt) pos) resp = (rt2, Ok \<lparr>fr_runner = r_pos rt, fr_id = pos, fr_resumed = True\<rparr>) \<and>
    f_result (r_fibers rt2 ! pos) = resp \<and>
    toexec_fibers (r_poller rt2) ! r_pos rt = toexec_fibers (r_poller rt) ! r_pos rt @ [word_of_nat pos] \<and>
    (\<forall>rt'. pos < length (r_fibers rt') \<and> r_fibers rt' ! pos = r_fibers rt2 ! pos \<longrightarrow>
       exec_fiber env pos rt' = Some (rt', Ok ()) \<and> exec_timeout env pos rt' = Some (rt', Ok ()))"
proof -
  let ?fib = "fib\<lparr>f_timed_out := 0, f_sock := S_Empty, f_wtoken := None\<rparr>"
  let ?rt = "rt\<lparr>r_fibers := (r_fibers rt)[pos := ?fib]\<rparr>"
  obtain q st where stk: "stack_pop (e_stack env) (r_poller rt) = ((r_poller rt)\<lparr>free_stacks := q\<rparr>, Ok st)"
    by (rule stack_pop_ok [OF assms(13)])
  let ?fib1 = "(running st ?fib)\<lparr>f_t := Some (FiberCtx At_join_main k)\<rparr>"
  let ?rt1 = "rt\<lparr>r_fibers := (r_fibers rt)[pos := ?fib1], r_poller := (r_poller rt)\<lparr>free_stacks := q\<rparr>,
      r_tomain_fibers := r_tomain_fibers rt @ [fiber_ref_new (r_pos rt) pos]\<rparr>"
  have "exec_timeout env pos rt = step_into env pos ?rt"
    using assms(1,2,9-11) by (simp add: exec_timeout_def in_range)
  also have "\<dots> = Some (?rt1, Ok ())"
    using step_into_join_main [of pos ?rt ?fib g p env "(r_poller rt)\<lparr>free_stacks := q\<rparr>" st k] assms(1,3-8,14) stk
    by (simp add: handle_id_def)
  finally have 1: "exec_timeout env pos rt = Some (?rt1, Ok ())" .
  obtain rt2 where 2: "resume_fiber ?rt1 pos resp = (rt2, Ok ())" "r_fibers rt2 = (r_fibers rt)[pos := ?fib1\<lparr>f_result := resp\<rparr>]"
    "toexec_fibers (r_poller rt2) ! r_pos rt = toexec_fibers (r_poller rt) ! r_pos rt @ [word_of_nat pos]"
    using assms(1,12) by (simp add: resume_fiber_def in_range)
  have 3: "fiber_ref_resume ?rt1 (fiber_ref_new (r_pos rt) pos) resp = (rt2, Ok \<lparr>fr_runner = r_pos rt, fr_id = pos, fr_resumed = True\<rparr>)"
    by (simp add: fiber_ref_resume_def fiber_ref_new_def 2(1) [unfolded fiber_ref_new_def])
  have fib2: "r_fibers rt2 ! pos = ?fib1\<lparr>f_result := resp\<rparr>" using 2(2) assms(1) by simp
  have 4: "exec_fiber env pos rt' = Some (rt', Ok ()) \<and> exec_timeout env pos rt' = Some (rt', Ok ())"
    if "pos < length (r_fibers rt') \<and> r_fibers rt' ! pos = r_fibers rt2 ! pos" for rt'
    using that assms(10) unfolding fib2
    by (simp add: exec_fiber_def exec_timeout_def in_range on_world_def sock_read_def invalid_input_def)
  show ?thesis using 1 2(3) 3 4 fib2 assms(1) by (intro exI [of _ ?rt1] exI [of _ rt2]) simp
qed

definition ex_lookup :: "(test_os, entry vec_slab, nat, nat, nat, nat) runner_int" where
  "ex_lookup =
     ex_runner\<lparr>r_fibers := [(ex_fiber 0)\<lparr>f_sock := S_Udp 9, f_wtoken := Some 0, f_timed_out := 1,
       f_connect_param := Some \<lparr>cp_port = 80, cp_st = ST_Tcp, cp_host = ab_c\<rparr>\<rparr>]\<rparr>"

theorem lookup_timeout_strands_witness:
  "\<exists>rt1 rt2. exec_timeout (ex_env\<lparr>e_code := \<lambda>f p. Call Rq_join_main (\<lambda>_. Return None)\<rparr>) 0 ex_lookup = Some (rt1, Ok ()) \<and>
    fiber_ref_resume rt1 (fiber_ref_new 0 0) (Some 3) = (rt2, Ok \<lparr>fr_runner = 0, fr_id = 0, fr_resumed = True\<rparr>) \<and>
    toexec_fibers (r_poller rt2) ! 0 = [0] \<and> f_result (r_fibers rt2 ! 0) = Some 3"
proof -
  let ?env = "ex_env\<lparr>e_code := \<lambda>f p. Call Rq_join_main (\<lambda>_. Return None)\<rparr>"
  have r: "r_pos ex_lookup = 0" "r_poller ex_lookup = ex_poller" by (simp_all add: ex_lookup_def ex_runner_def runner_int_new_def)
  then have q: "r_pos ex_lookup < length (toexec_fibers (r_poller ex_lookup))" "toexec_fibers (r_poller ex_lookup) ! 0 = []"
    by (simp_all add: MAX_RUNNERS_def)
  show ?thesis
    using lookup_timeout_strands [of 0 ex_lookup "r_fibers ex_lookup ! 0" 0 7 0 "\<lparr>cp_port = 80, cp_st = ST_Tcp, cp_host = ab_c\<rparr>"
        ?env "\<lambda>_. Return None" "Some 3"] q r
    by (auto simp: ex_lookup_def handle_id_def runner_id_handle)
qed

text \<open>
  C23: dropping a \<^verbatim>\<open>TimerRef\<close> after its timer has fired and its slot has been used again cancels the wait of the fiber that
  uses the slot now and puts the slot on the free list although that fiber is alive; the next fiber that is registered
  then replaces it.
\<close>

theorem stale_timer_ref_frees_live_fiber:
  assumes "slab (e_slab env)" and "poller_reach (e_slab env) (r_poller rt)" and "r_free_fibers rt = []"
    and "tr_id ref < length (r_fibers rt)" and "f_wtoken (r_fibers rt ! tr_id ref) = Some tk"
  shows "\<exists>rt1 rt2. timer_ref_drop env rt ref = (rt1, Ok ()) \<and>
    timers (e_slab env) (pl_wheel (r_poller rt1)) = (timers (e_slab env) (pl_wheel (r_poller rt)))(tk := None) \<and>
    f_t (r_fibers rt1 ! tr_id ref) = f_t (r_fibers rt ! tr_id ref) \<and>
    f_state (r_fibers rt1 ! tr_id ref) = f_state (r_fibers rt ! tr_id ref) \<and>
    register env rt1 func S_Empty param None False = (rt2, Ok (Ok (tr_id ref))) \<and>
    f_t (r_fibers rt2 ! tr_id ref) = None \<and> f_func (r_fibers rt2 ! tr_id ref) = func"
proof -
  note ws = wheel_slab.intro [OF assms(1)]
  let ?pos = "tr_id ref"
  from wheel_slab.timer_cancel_spec [OF ws wheel_slab.poller_reach_ok [OF ws assms(2)], of tk] obtain w where
    c: "timer_cancel (e_slab env) (r_poller rt) tk = ((r_poller rt)\<lparr>pl_wheel := w\<rparr>, Ok ())"
      "timers (e_slab env) w = (timers (e_slab env) (pl_wheel (r_poller rt)))(tk := None)" by blast
  obtain rt1 where rt1: "timer_ref_drop env rt ref = (rt1, Ok ())" "pl_wheel (r_poller rt1) = w" "r_free_fibers rt1 = [?pos]"
    "r_fibers rt1 = (r_fibers rt)[?pos := (r_fibers rt ! ?pos)\<lparr>f_wtoken := None, f_result := None, f_param := None\<rparr>]"
    using assms(3-5) c(1) by (simp add: timer_ref_drop_def cancel_timer_def in_range cancel_token_def on_poller_def push_back_def)
  have "register env rt1 func S_Empty param None False =
      (rt1\<lparr>r_free_fibers := [], r_fibers := put_fiber (r_fibers rt1) ?pos
         (new_fiber (r_pos rt1) func S_Empty param None (fiber_id rt1 ?pos) (next_generation rt1))\<rparr>, Ok (Ok ?pos))"
    using place_fiber_plain [of S_Empty rt1 env func param None] rt1(3,4) assms(4) by (simp add: register_def free_slot_def)
  then show ?thesis
    using rt1 c(2) assms(4) by (simp add: put_fiber_def new_fiber_def)
qed

theorem stale_timer_ref_frees_live_fiber_witness:
  "\<exists>rt1 rt2. timer_ref_drop ex_env ex_timed_out \<lparr>tr_runner = 0, tr_id = 0\<rparr> = (rt1, Ok ()) \<and>
    f_t (r_fibers rt1 ! 0) \<noteq> None \<and> register ex_env rt1 (Some 1) S_Empty (Some 7) None False = (rt2, Ok (Ok 0)) \<and>
    f_t (r_fibers rt2 ! 0) = None"
proof -
  have r: "r_free_fibers ex_timed_out = []" "r_poller ex_timed_out = ex_poller" "length (r_fibers ex_timed_out) = 1"
    "f_wtoken (r_fibers ex_timed_out ! 0) = Some 0" "f_t (r_fibers ex_timed_out ! 0) \<noteq> None"
    by (simp_all add: ex_timed_out_def ex_runner_def runner_int_new_def)
  show ?thesis
    using stale_timer_ref_frees_live_fiber [of ex_env ex_timed_out "\<lparr>tr_runner = 0, tr_id = 0\<rparr>" 0 "Some 1" "Some 7",
        unfolded ex_env_simps, OF vec_slab.slab_axioms] r ex_poller_reach(1) by auto
qed

text \<open>
  A write on a TLS socket that would block does not wait: a TLS stream cannot be registered for readiness, so the
  write returns the error \<open>no socket\<close> instead of stepping out.
\<close>

theorem tls_write_would_block_fails:
  assumes "pos < length (r_fibers rt)" and "f_sock (r_fibers rt ! pos) = S_Tls s" and "f_ready (r_fibers rt ! pos) \<noteq> ReadyWritable"
    and "os_tls_write (e_os env) s buf (r_world rt) = (w, Err e)" and "io_kind e = WouldBlock"
  shows "write_turn env rt pos buf =
    (rt\<lparr>r_world := w\<rparr>, Ok (Finish (Rs_write (Err (IoError InvalidInput ''no socket'')))))"
  using assms
  by (simp add: write_turn_def in_range on_world_def sock_write_def would_block_def register_interest_def fiber_register_def
      sock_evented_def invalid_input_def)

theorem tls_write_would_block_fails_witness:
  "write_turn (ex_env\<lparr>e_os := test_os_ops\<lparr>os_tls_write := \<lambda>s b w. (w, Err (IoError WouldBlock ''''))\<rparr>\<rparr>)
      (ex_runner\<lparr>r_fibers := [(ex_fiber 2)\<lparr>f_sock := S_Tls 6\<rparr>]\<rparr>) 0 [1, 2] =
    (ex_runner\<lparr>r_fibers := [(ex_fiber 2)\<lparr>f_sock := S_Tls 6\<rparr>], r_world := test_os_start\<rparr>,
     Ok (Finish (Rs_write (Err (IoError InvalidInput ''no socket'')))))"
  by (subst tls_write_would_block_fails [where s = 6 and w = test_os_start and e = "IoError WouldBlock ''''"])
    (simp_all add: ex_runner_def runner_int_new_def)

end
