(* ===== verification/Fiber_Exchange.thy ===== *)
theory Fiber_Exchange
  imports Fiber_Properties
begin

text \<open>Fibers and others: the main stack (\<^verbatim>\<open>join_main\<close>), the parent of a child, and the name server.\<close>

section \<open>The main stack\<close>

lemma resume_fiber_in:
  assumes "pos < length (r_fibers rt)" "r_pos rt < length (toexec_fibers (r_poller rt))"
  shows "resume_fiber rt pos resp =
    (rt\<lparr>r_fibers := (r_fibers rt)[pos := (r_fibers rt ! pos)\<lparr>f_result := resp\<rparr>],
        r_poller := (r_poller rt)\<lparr>toexec_fibers := (toexec_fibers (r_poller rt))
          [r_pos rt := toexec_fibers (r_poller rt) ! r_pos rt @ [word_of_nat pos]]\<rparr>\<rparr>, Ok ())"
  using assms by (simp add: resume_fiber_def in_range)

text \<open>
  C15: a call of the main stack and its answer.  \<^verbatim>\<open>join_main\<close> queues a reference to the fiber for the program and
  suspends the fiber; when the program resumes the reference with a response, the fiber is queued to run, and when
  the runner takes it from its queue, the body goes on with exactly that response.
\<close>

theorem join_main_round_trip:
  assumes "pos < length (r_fibers rt)" and "r_fibers rt ! pos = fib" and "handle_id fib = pos" and "f_func fib = Some g"
    and "f_connect_param fib = None" and "r_pos rt < length (toexec_fibers (r_poller rt))"
  shows "fiber_run env pos (Prog (Call Rq_join_main k)) rt =
      Some (rt\<lparr>r_tomain_fibers := r_tomain_fibers rt @ [fiber_ref_new (r_pos rt) pos]\<rparr>, Ok (Suspended At_join_main k)) \<and>
    (\<exists>rt1 ref. fiber_ref_resume (rt\<lparr>r_fibers := (r_fibers rt)[pos := fib\<lparr>f_t := Some (FiberCtx At_join_main k)\<rparr>]\<rparr>)
         (fiber_ref_new (r_pos rt) pos) resp = (rt1, Ok ref) \<and> fr_resumed ref \<and>
      toexec_fibers (r_poller rt1) ! r_pos rt = toexec_fibers (r_poller rt) ! r_pos rt @ [word_of_nat pos] \<and>
      exec_fiber env pos rt1 = step_into env pos rt1 \<and>
      enter_fiber env rt1 pos =
        settle pos pos (fiber_run env pos (Prog (k (Rs_opt resp)))
          (rt1\<lparr>r_fibers := (r_fibers rt)[pos := fib\<lparr>f_t := Some MainCtx, f_result := None\<rparr>]\<rparr>)))"
proof
  show "fiber_run env pos (Prog (Call Rq_join_main k)) rt =
      Some (rt\<lparr>r_tomain_fibers := r_tomain_fibers rt @ [fiber_ref_new (r_pos rt) pos]\<rparr>, Ok (Suspended At_join_main k))"
    by (intro fiber_run_halt) (simp add: code_step_def call_turn_def join_main_def push_back_def)
  let ?fib = "fib\<lparr>f_t := Some (FiberCtx At_join_main k), f_result := resp\<rparr>"
  let ?suspended = "rt\<lparr>r_fibers := (r_fibers rt)[pos := fib\<lparr>f_t := Some (FiberCtx At_join_main k)\<rparr>]\<rparr>"
  obtain rt1 where rt1: "resume_fiber ?suspended pos resp = (rt1, Ok ())" "r_fibers rt1 = (r_fibers rt)[pos := ?fib]"
    "toexec_fibers (r_poller rt1) ! r_pos rt = toexec_fibers (r_poller rt) ! r_pos rt @ [word_of_nat pos]"
    using assms(1,2,6) by (simp add: resume_fiber_in)
  let ?rt = "rt1\<lparr>r_fibers := (r_fibers rt1)[pos := ?fib\<lparr>f_t := Some MainCtx\<rparr>]\<rparr>"
  have "fiber_run env pos (Back At_join_main k) ?rt = fiber_run env pos (Prog (k (Rs_opt resp)))
      (rt1\<lparr>r_fibers := (r_fibers rt)[pos := fib\<lparr>f_t := Some MainCtx, f_result := None\<rparr>]\<rparr>)"
    using assms(1) by (intro fiber_run_step) (simp add: code_step_def back_turn_def in_range rt1(2))
  moreover have "enter_fiber env rt1 pos = settle pos pos (fiber_run env pos (Back At_join_main k) ?rt)"
    using assms(1-4) by (intro enter_suspended) (simp_all add: rt1(2) handle_id_def)
  moreover have "exec_fiber env pos rt1 = step_into env pos rt1"
    using assms(1,5) by (intro exec_fiber_plain) (simp_all add: rt1(2))
  ultimately show "\<exists>rt1 ref. fiber_ref_resume ?suspended (fiber_ref_new (r_pos rt) pos) resp = (rt1, Ok ref) \<and> fr_resumed ref \<and>
      toexec_fibers (r_poller rt1) ! r_pos rt = toexec_fibers (r_poller rt) ! r_pos rt @ [word_of_nat pos] \<and>
      exec_fiber env pos rt1 = step_into env pos rt1 \<and>
      enter_fiber env rt1 pos =
        settle pos pos (fiber_run env pos (Prog (k (Rs_opt resp)))
          (rt1\<lparr>r_fibers := (r_fibers rt)[pos := fib\<lparr>f_t := Some MainCtx, f_result := None\<rparr>]\<rparr>))"
    using rt1(1,3) by (intro exI [of _ rt1]) (simp add: fiber_ref_resume_def fiber_ref_new_def)
qed

definition ex_joined :: "(test_os, entry vec_slab, nat, nat, nat, nat) runner_int" where
  "ex_joined = ex_runner\<lparr>r_fibers := [ex_fiber 2]\<rparr>"

theorem join_main_round_trip_witness:
  "\<exists>rt1 ref. fiber_ref_resume (ex_joined\<lparr>r_fibers := [(ex_fiber 2)\<lparr>f_t := Some (FiberCtx At_join_main
        (\<lambda>r. case r of Rs_opt x \<Rightarrow> Return x | _ \<Rightarrow> Return None))\<rparr>]\<rparr>) (fiber_ref_new 0 0) (Some 3) = (rt1, Ok ref) \<and>
    enter_fiber ex_env rt1 0 = settle 0 0 (Some (rt1\<lparr>r_fibers := [(ex_fiber 2)\<lparr>f_t := Some MainCtx, f_result := None\<rparr>]\<rparr>,
      Ok (Returned (Some 3))))"
proof -
  have r: "r_fibers ex_joined = [ex_fiber 2]" "r_pos ex_joined = 0" "r_poller ex_joined = ex_poller"
    by (simp_all add: ex_joined_def ex_runner_def runner_int_new_def)
  show ?thesis
    using join_main_round_trip [of 0 ex_joined "ex_fiber 2" 2 ex_env "\<lambda>r. case r of Rs_opt x \<Rightarrow> Return x | _ \<Rightarrow> Return None" "Some 3"]
    by (auto simp: r MAX_RUNNERS_def)
qed

section \<open>Parents\<close>

text \<open>
  C14: the result of a child reaches its parent.  When a child's body returns a result while its parent waits in
  \<^verbatim>\<open>get_child\<close> (and no earlier child is ready), the parent's body goes on at once with that result; the child's stack
  is given back, the child is no longer among the children and its slot is free.
\<close>

theorem child_result_reaches_parent:
  assumes "runner_ok rt" and "r_pos rt < length (toexec_fibers (r_poller rt))"
    and "c < length (r_fibers rt)" and "r_fibers rt ! c = fib" and "f_func fib = Some g" and "f_param fib = Some p"
    and "f_t fib = None" and "f_parent fib = Some par" and "e_code env g p = Return (Some r)"
    and "stack_pop (e_stack env) (r_poller rt) = (pl, Ok st)"
    and "par \<noteq> c" and "r_fibers rt ! par = pfib" and "f_func pfib = Some h" and "handle_id pfib = par"
    and "f_t pfib = Some (FiberCtx At_child_iter k)" and "f_children pfib = cs @ c # cs'" and "par \<notin> set (cs @ cs')"
    and "\<forall>d \<in> set cs. d \<noteq> c \<and> \<not> child_ready (r_fibers rt) d"
  shows "\<exists>rt1 rt2. step_into env c rt = step_into env par rt1 \<and>
    enter_fiber env rt1 par = settle par par (fiber_run env par (Prog (k (Rs_opt (Some r)))) rt2) \<and>
    r_poller rt2 = stack_push pl st \<and> r_free_fibers rt2 = r_free_fibers rt @ [c] \<and>
    mset (f_children (r_fibers rt2 ! par)) = mset (cs @ cs') \<and> f_state (r_fibers rt2 ! c) = Closed \<and> f_result (r_fibers rt2 ! c) = None"
proof -
  have par: "par < length (r_fibers rt)"
    using good_fiber [of 0 "r_pos rt" rt c] assms(1,3,4,8) by (simp add: good_def fiber_ok_def)
  have "\<forall>d \<in> set (f_children pfib). d < length (r_fibers rt)"
    using good_fiber [of 0 "r_pos rt" rt par] assms(1,12) par by (simp add: good_def fiber_ok_def)
  then have dom: "\<forall>d \<in> set (f_children pfib). d < length (r_fibers rt) \<and> d \<noteq> par" using assms(11,16,17) by auto
  let ?child = "fib\<lparr>f_param := None, f_result := Some r, f_state := Closed, f_stack := None, f_t := None, f_sock := S_Empty\<rparr>"
  let ?rt1 = "rt\<lparr>r_poller := stack_push pl st, r_fibers := (r_fibers rt)[c := ?child]\<rparr>"
  have 1: "step_into env c rt = step_into env par ?rt1"
    using assms(3,8,9) enter_fresh [OF assms(3-7,10)]
    by (subst step_into.simps)
      (simp add: settle_def leave_ctx_def leave_fiber_def in_range lift_def stepped_out_def unstack_def running_def)
  let ?rt = "?rt1\<lparr>r_fibers := (r_fibers ?rt1)[par := pfib\<lparr>f_t := Some MainCtx\<rparr>]\<rparr>"
  have at: "r_fibers ?rt ! par = pfib\<lparr>f_t := Some MainCtx\<rparr>" "r_fibers ?rt ! c = ?child"
    using par assms(3,11) by simp_all
  have "find (child_ready (r_fibers ?rt)) (cs @ c # cs') = Some c"
  proof -
    have "\<not> child_ready (r_fibers ?rt) d" if "d \<in> set cs" for d
      using that assms(16,18) dom par by (auto simp: child_ready_def nth_list_update)
    then have "find (child_ready (r_fibers ?rt)) cs = None" by (simp add: find_None_iff)
    moreover have "find P (xs @ ys) = (case find P xs of Some x \<Rightarrow> Some x | None \<Rightarrow> find P ys)" for P :: "nat \<Rightarrow> bool" and xs ys
      by (induction xs) auto
    moreover have "child_ready (r_fibers ?rt) c" unfolding child_ready_def at by simp
    ultimately show ?thesis by simp
  qed
  then have fnd: "find (child_ready (r_fibers ?rt)) (f_children (r_fibers ?rt ! par)) = Some c" using at(1) assms(16) by simp
  have pre: "par < length (r_fibers ?rt)" "\<forall>d \<in> set (f_children (r_fibers ?rt ! par)). d < length (r_fibers ?rt) \<and> d \<noteq> par"
    "r_pos ?rt < length (toexec_fibers (r_poller ?rt))"
    using par dom at(1) assms(2,10) by (auto simp: stack_push_def stack_pop_def split: option.splits prod.splits)
  from child_turn_ready [OF pre fnd] at obtain rt2 where
    t: "child_turn ?rt par = (rt2, Ok (Finish (Rs_opt (Some r))))" and
    rt2: "r_fibers rt2 ! c = ?child\<lparr>f_result := None\<rparr>" "r_free_fibers rt2 = r_free_fibers rt @ [c]" "r_poller rt2 = stack_push pl st"
      "mset (f_children (r_fibers rt2 ! par)) = mset (f_children pfib) - {#c#}"
    by (auto simp: assms(12))
  have "fiber_run env par (Back At_child_iter k) ?rt = fiber_run env par (At At_child_iter k) ?rt"
    by (intro fiber_run_step) (simp add: code_step_def back_turn_def)
  also have "\<dots> = fiber_run env par (Prog (k (Rs_opt (Some r)))) rt2"
    by (intro fiber_run_step) (simp add: code_step_def at_turn_def t [simplified])
  finally have "enter_fiber env ?rt1 par = settle par par (fiber_run env par (Prog (k (Rs_opt (Some r)))) rt2)"
    using enter_suspended [of par ?rt1 pfib h At_child_iter k env] par assms(11-15) by simp
  then show ?thesis using 1 rt2 assms(16) by (intro exI [of _ ?rt1] exI [of _ rt2]) simp
qed

definition ex_parent :: "(test_os, entry vec_slab, nat, nat, nat, nat) runner_int" where
  "ex_parent =
     ex_runner\<lparr>r_fibers :=
       [(ex_fiber 2)\<lparr>f_children := [1], f_t := Some (FiberCtx At_child_iter (\<lambda>r. case r of Rs_opt x \<Rightarrow> Return x | _ \<Rightarrow> Return None))\<rparr>,
        (ex_fiber 3)\<lparr>f_me := runner_id 0 1, f_parent := Some 0\<rparr>]\<rparr>"

theorem child_result_reaches_parent_witness:
  "\<exists>rt1 rt2. step_into (ex_env\<lparr>e_code := \<lambda>f p. Return (Some 11)\<rparr>) 1 ex_parent =
      step_into (ex_env\<lparr>e_code := \<lambda>f p. Return (Some 11)\<rparr>) 0 rt1 \<and>
    enter_fiber (ex_env\<lparr>e_code := \<lambda>f p. Return (Some 11)\<rparr>) rt1 0 = settle 0 0 (Some (rt2, Ok (Returned (Some 11)))) \<and>
    r_free_fibers rt2 = [1] \<and> f_children (r_fibers rt2 ! 0) = []"
proof -
  let ?k = "\<lambda>r. case r of Rs_opt x \<Rightarrow> Return x | _ \<Rightarrow> Return None"
  have r: "r_pos ex_parent = 0" "r_free_fibers ex_parent = []" "r_tomain_fibers ex_parent = []" "r_poller ex_parent = ex_poller"
    by (simp_all add: ex_parent_def ex_runner_def runner_int_new_def)
  have "runner_ok ex_parent" unfolding runner_ok_def r by (simp add: ex_parent_def fiber_ok_def less_Suc_eq)
  moreover have "stack_pop (\<lambda>_. Ok 0) ex_poller = (ex_poller\<lparr>free_stacks := []\<rparr>, Ok (0 :: nat))" by (simp add: stack_pop_def)
  ultimately show ?thesis
    using child_result_reaches_parent [of ex_parent 1 "r_fibers ex_parent ! 1" 3 7 0 "ex_env\<lparr>e_code := \<lambda>f p. Return (Some 11)\<rparr>" 11
        "ex_poller\<lparr>free_stacks := []\<rparr>" 0 "r_fibers ex_parent ! 0" 2 ?k "[]" "[]"] r
    by (auto simp: ex_parent_def MAX_RUNNERS_def handle_id_def runner_id_handle)
qed

section \<open>The name server\<close>

text \<open>
  C16: a lookup that succeeds.  When the reply of the name server to a fiber that connects holds an address, the tick of
  the lookup is cancelled, the connection to that address and the port asked for is started, and the fiber waits for
  its new socket to become writable, without a timeout and no longer marked as connecting; its body has not started.
\<close>

theorem resolved_address_connects:
  assumes "slab (e_slab env)" and "poller_reach (e_slab env) (r_poller rt)"
    and "pos < length (r_fibers rt)" and "r_fibers rt ! pos = fib" and "f_connect_param fib = Some cp" and "cp_st cp = ST_Tcp"
    and "f_sock fib = S_Udp udp" and "f_wtoken fib = Some tk"
    and "os_udp_recv (e_os env) udp 512 (r_world rt) = (w1, Ok reply)" and "dns_parse (e_bo env) reply = Ok (Some adr)"
    and "os_tcp_connect (e_os env) (SocketAddr adr (cp_port cp)) w1 = (w2, Ok tcp)"
    and "os_register (e_os env) tcp (f_me fib) ReadyWritable w2 = (w3, Ok ())"
  shows "\<exists>rt'. exec_fiber env pos rt = Some (rt', Ok ()) \<and> r_world rt' = w3 \<and>
    r_fibers rt' = (r_fibers rt)[pos := fib\<lparr>f_wtoken := None, f_timed_out := 0, f_connect_param := None, f_sock := S_Tcp tcp, f_ready := ReadyWritable\<rparr>] \<and>
    timers (e_slab env) (pl_wheel (r_poller rt')) = (timers (e_slab env) (pl_wheel (r_poller rt)))(tk := None)"
proof -
  note ws = wheel_slab.intro [OF assms(1)]
  from wheel_slab.timer_cancel_spec [OF ws wheel_slab.poller_reach_ok [OF ws assms(2)], of tk] obtain w where
    c: "timer_cancel (e_slab env) (r_poller rt) tk = ((r_poller rt)\<lparr>pl_wheel := w\<rparr>, Ok ())"
      "timers (e_slab env) w = (timers (e_slab env) (pl_wheel (r_poller rt)))(tk := None)" by blast
  show ?thesis
    using assms(3-12) c
    by (simp add: exec_fiber_def in_range on_world_def sock_read_def cancel_token_def on_poller_def have_addr_def
        register_interest_def fiber_register_def sock_evented_def lift_def)
qed

definition ex_resolving :: "(test_os, entry vec_slab, nat, nat, nat, nat) runner_int" where
  "ex_resolving =
     ex_runner\<lparr>r_fibers := [(ex_fiber 0)\<lparr>f_sock := S_Udp 9, f_wtoken := Some 0, f_timed_out := 4,
         f_connect_param := Some \<lparr>cp_port = 80, cp_st = ST_Tcp, cp_host = ab_c\<rparr>\<rparr>],
       r_world := test_os_start\<lparr>script := [Ok (answer_bytes 5 ab_c 60 0x0A000001)]\<rparr>\<rparr>"

theorem resolved_address_connects_witness:
  "\<exists>rt'. exec_fiber ex_env 0 ex_resolving = Some (rt', Ok ()) \<and> f_sock (r_fibers rt' ! 0) = S_Tcp 8 \<and>
    f_connect_param (r_fibers rt' ! 0) = None \<and> registered (r_world rt') = [(8, runner_id 0 0, ReadyWritable)]"
proof -
  let ?reply = "answer_bytes 5 ab_c 60 0x0A000001" and ?cp = "\<lparr>cp_port = 80, cp_st = ST_Tcp, cp_host = ab_c\<rparr>"
  have len: "take 512 ?reply = ?reply" by code_simp
  have recv: "os_udp_recv test_os_ops 9 512 (r_world ex_resolving) = (test_os_start, Ok ?reply)"
    by (simp add: ex_resolving_def test_os_ops_def script_read_def len test_os_start_def)
  have "dns_parse network ?reply = Ok (Some (V4 0x0A000001))" by (rule network.dns_parse_answer_bytes [OF wf_host_ab_c(1)])
  moreover have "os_tcp_connect test_os_ops (SocketAddr (V4 0x0A000001) 80) test_os_start = (test_os_start, Ok 8)"
    "os_register test_os_ops 8 (runner_id 0 0) ReadyWritable test_os_start =
      (test_os_start\<lparr>registered := [(8, runner_id 0 0, ReadyWritable)]\<rparr>, Ok ())"
    by (simp_all add: test_os_ops_def log_register_def test_os_start_def)
  moreover have r: "r_poller ex_resolving = ex_poller" "r_fibers ex_resolving = [(ex_fiber 0)\<lparr>f_sock := S_Udp 9, f_wtoken := Some 0,
      f_timed_out := 4, f_connect_param := Some ?cp\<rparr>]"
    by (simp_all add: ex_resolving_def ex_runner_def runner_int_new_def)
  ultimately show ?thesis
    using resolved_address_connects [of ex_env ex_resolving 0 "r_fibers ex_resolving ! 0" ?cp 9 0 test_os_start ?reply "V4 0x0A000001" test_os_start 8
        "test_os_start\<lparr>registered := [(8, runner_id 0 0, ReadyWritable)]\<rparr>", unfolded ex_env_simps, OF vec_slab.slab_axioms]
      recv ex_poller_reach(1) by (auto simp: ex_env_def)
qed

end
