(* ===== verification/Http_Proxy.thy ===== *)
theory Http_Proxy
  imports Fiber_Exchange
begin

text \<open>
  \<^verbatim>\<open>lib.rs\<close>: the program that the repository uses as its integration test, a web proxy.  A listener
  (\<^verbatim>\<open>sock_acceptor\<close>) starts a fiber per connection (\<^verbatim>\<open>rand_http_proxy\<close>), which starts a child that fetches a page
  (\<^verbatim>\<open>get_http\<close>) and writes what the child streams to it into its own socket; the program on the main stack makes
  twenty requests with the same \<^verbatim>\<open>get_http\<close> and counts the answers.

  The three fiber functions are bodies: each is a set of control points and a step function that says what the body
  does at a point, and \<open>body\<close> unfolds it into a tree of calls.  An \<^verbatim>\<open>unwrap\<close>, \<^verbatim>\<open>expect\<close> or \<^verbatim>\<open>assert\<close> that fails ends the
  body with \<^const>\<open>Abort\<close>.  A chunk is not a copy but a slice of the buffer on the fiber's own stack; the buffer is part of
  the control points of \<^verbatim>\<open>get_http\<close>.  The random numbers, the TLS connector (\<^const>\<open>None\<close> if it cannot be built) and the sockets that
  the main stack opens are arguments.  \<^verbatim>\<open>println!\<close> is left out.
\<close>

section \<open>Bodies by control points\<close>

datatype ('p, 'r, 'f, 's) act =
    is_Ret: Ret (ret_val: "'r option")
  | is_Ask: Ask (ask_req: "('p, 'r, 'f) req") (ask_then: "'r resp \<Rightarrow> 's")
  | is_Die: Die

primcorec body :: "('s \<Rightarrow> ('p, 'r, 'f, 's) act) \<Rightarrow> 's \<Rightarrow> ('p, 'r, 'f) prog" where
  "body step s =
     (case step s of
        Ret r \<Rightarrow> Return r
      | Ask rq k \<Rightarrow> Call rq (\<lambda>x. body step (k x))
      | Die \<Rightarrow> Abort)"

section \<open>Parameters, results and functions\<close>

record proxy_param =
  chosen :: "bytes option"
  is_https :: bool
  proxy_client :: bool
  http_hosts :: "bytes list"
  https_hosts :: "bytes list"

text \<open>
  \<^verbatim>\<open>&v[0..sz]\<close>: a slice that borrows the buffer \<^verbatim>\<open>v\<close>.  The record keeps what the buffer held when the slice was made, and
  its length.  \<open>slice_bytes\<close> is what the slice shows as long as the fiber that owns the buffer has not read again;
  \<open>slice_now\<close> is what it shows when the buffer holds \<open>buf\<close>.
\<close>

record buf_slice =
  bs_buf :: bytes
  bs_len :: nat

definition slice_now :: "bytes \<Rightarrow> buf_slice \<Rightarrow> bytes" where
  "slice_now buf sl = take (bs_len sl) buf"

definition slice_bytes :: "buf_slice \<Rightarrow> bytes" where
  "slice_bytes sl = slice_now (bs_buf sl) sl"

datatype proxy_resp = Done | Bytes buf_slice

datatype proxy_fn = Get_http | Rand_http_proxy | Sock_acceptor

type_synonym 's proxy_act = "(proxy_param, proxy_resp, proxy_fn, 's) act"

section \<open>Fetching a page\<close>

definition crlf :: string where "crlf = [CHR 0x0D, CHR 0x0A]"

definition http_request :: "bytes \<Rightarrow> bytes" where
  "http_request host =
     ascii (''GET / HTTP/1.1'' @ crlf @ ''Host: '') @ host @
     ascii (crlf @ ''Connection: keep-alive'' @ crlf @ ''User-Agent: test'' @ crlf @ crlf)"

datatype get_http_point =
    GH_start proxy_param
  | GH_tls_timeout bytes
  | GH_write bytes
  | GH_read bytes
  | GH_chunk bytes nat
  | GH_done
  | GH_panic

fun get_http_step :: "nat option \<Rightarrow> get_http_point \<Rightarrow> get_http_point proxy_act" where
  "get_http_step con (GH_start p) =
     (case chosen p of
        None \<Rightarrow> Die
      | Some host \<Rightarrow>
          if is_https p then
            (case con of
               None \<Rightarrow> Die
             | Some c \<Rightarrow> Ask (Rq_tcp_tls_connect c host)
                 (\<lambda>x. case x of Rs_io (Ok _) \<Rightarrow> GH_tls_timeout host | _ \<Rightarrow> GH_panic))
          else Ask (Rq_socket_timeout (Some (from_millis 1000))) (\<lambda>_. GH_write host))"
| "get_http_step con (GH_tls_timeout host) = Ask (Rq_socket_timeout (Some (from_millis 2000))) (\<lambda>_. GH_write host)"
| "get_http_step con (GH_write host) =
     Ask (Rq_write (http_request host)) (\<lambda>x. case x of Rs_write (Ok _) \<Rightarrow> GH_read (replicate 2000 0) | _ \<Rightarrow> GH_panic)"
| "get_http_step con (GH_read v) =
     Ask (Rq_read 2000) (\<lambda>x. case x of
         Rs_read (Ok d) \<Rightarrow> GH_chunk (fill d v) (length d)
       | Rs_read (Err e) \<Rightarrow> if io_kind e = TimedOut then GH_done else GH_panic
       | _ \<Rightarrow> GH_panic)"
| "get_http_step con (GH_chunk v sz) =
     (if sz \<le> length v then Ask (Rq_resp_chunk (Bytes \<lparr>bs_buf = v, bs_len = sz\<rparr>)) (\<lambda>_. GH_read v) else Die)"
| "get_http_step con GH_done = Ret (Some Done)"
| "get_http_step con GH_panic = Die"

definition get_http :: "nat option \<Rightarrow> proxy_param \<Rightarrow> (proxy_param, proxy_resp, proxy_fn) prog" where
  "get_http con p = body (get_http_step con) (GH_start p)"

section \<open>Serving a connection\<close>

datatype rand_http_proxy_point =
    RP_start proxy_param
  | RP_connect proxy_param
  | RP_children
  | RP_write bytes
  | RP_end
  | RP_panic

text \<open>The random numbers: one for the host, one for the choice between http and https.\<close>

fun rand_http_proxy_step ::
  "usize \<Rightarrow> u8 \<Rightarrow> rand_http_proxy_point \<Rightarrow> rand_http_proxy_point proxy_act" where
  "rand_http_proxy_step r1 r2 (RP_start p) = Ask (Rq_socket_timeout (Some (from_millis 500))) (\<lambda>_. RP_connect p)"
| "rand_http_proxy_step r1 r2 (RP_connect p) =
     (if length (http_hosts p) = 0 then Die
      else
        (let i = unat r1 mod length (http_hosts p);
             prt = (if r2 mod 2 = 0 then 80 else 443);
             hosts = (if prt = 443 then https_hosts p else http_hosts p) in
         if length hosts \<le> i then Die
         else
           (let host = hosts ! i;
                p1 = \<lparr>chosen = Some host, is_https = (prt = 443), proxy_client = True, http_hosts = [], https_hosts = []\<rparr> in
            Ask (Rq_join_resolve_connect host ST_Tcp prt (from_millis 3000) Get_http p1)
              (\<lambda>x. case x of Rs_io (Ok _) \<Rightarrow> RP_children | _ \<Rightarrow> RP_panic))))"
| "rand_http_proxy_step r1 r2 RP_children =
     Ask Rq_get_child (\<lambda>x. case x of
         Rs_opt (Some (Bytes sl)) \<Rightarrow> RP_write (slice_bytes sl)
       | Rs_opt (Some Done) \<Rightarrow> RP_children
       | Rs_opt None \<Rightarrow> RP_end
       | _ \<Rightarrow> RP_panic)"
| "rand_http_proxy_step r1 r2 (RP_write bs) = Ask (Rq_write bs) (\<lambda>_. RP_children)"
| "rand_http_proxy_step r1 r2 RP_end = Ret None"
| "rand_http_proxy_step r1 r2 RP_panic = Die"

definition rand_http_proxy :: "usize \<Rightarrow> u8 \<Rightarrow> proxy_param \<Rightarrow> (proxy_param, proxy_resp, proxy_fn) prog" where
  "rand_http_proxy r1 r2 p = body (rand_http_proxy_step r1 r2) (RP_start p)"

section \<open>Accepting connections\<close>

datatype sock_acceptor_point = SA_accept | SA_new sock | SA_end | SA_panic

fun sock_acceptor_step :: "proxy_param \<Rightarrow> sock_acceptor_point \<Rightarrow> sock_acceptor_point proxy_act" where
  "sock_acceptor_step p SA_accept =
     Ask Rq_accept_tcp (\<lambda>x. case x of Rs_accept (Ok (s, _)) \<Rightarrow> SA_new s | Rs_accept (Err _) \<Rightarrow> SA_end | _ \<Rightarrow> SA_panic)"
| "sock_acceptor_step p (SA_new s) =
     Ask (Rq_new_tcp s Rand_http_proxy p) (\<lambda>x. case x of Rs_io (Ok _) \<Rightarrow> SA_accept | _ \<Rightarrow> SA_panic)"
| "sock_acceptor_step p SA_end = Ret None"
| "sock_acceptor_step p SA_panic = Die"

definition sock_acceptor :: "proxy_param \<Rightarrow> (proxy_param, proxy_resp, proxy_fn) prog" where
  "sock_acceptor p = body (sock_acceptor_step p) SA_accept"

text \<open>The table of the functions.\<close>

definition proxy_code ::
  "nat option \<Rightarrow> usize \<Rightarrow> u8 \<Rightarrow> proxy_fn \<Rightarrow> proxy_param \<Rightarrow> (proxy_param, proxy_resp, proxy_fn) prog" where
  "proxy_code con r1 r2 f p =
     (case f of Get_http \<Rightarrow> get_http con p | Rand_http_proxy \<Rightarrow> rand_http_proxy r1 r2 p | Sock_acceptor \<Rightarrow> sock_acceptor p)"

section \<open>The program on the main stack\<close>

text \<open>
  \<^verbatim>\<open>while let Some(r) = runner.get_response()\<close>: every \<^const>\<open>Done\<close> counts one request down (the counter is an \<^verbatim>\<open>i32\<close>
  that starts at 20; each of the twenty requests sends at most one \<^const>\<open>Done\<close>).  \<^const>\<open>None\<close> would mean that the
  loop does not end.
\<close>

partial_function (option) drain_responses ::
  "nat \<Rightarrow> int \<Rightarrow> ('w, 's, 'k, proxy_param, proxy_resp, proxy_fn) thread \<Rightarrow>
    (('w, 's, 'k, proxy_param, proxy_resp, proxy_fn) thread \<times> (unit, int) res) option"
where [code]:
  "drain_responses pos remain th =
     (case get_response th pos of
        (th, Ok (Some r)) \<Rightarrow> drain_responses pos (if r = Done then remain - 1 else remain) th
      | (th, Ok None) \<Rightarrow> Some (th, Ok remain)
      | (th, _) \<Rightarrow> Some (th, Panic))"

text \<open>\<^verbatim>\<open>while let Some(_) = runner.get_fiber()\<close>: every reference is dropped at once.\<close>

partial_function (option) drain_fibers ::
  "nat \<Rightarrow> ('w, 's, 'k, proxy_param, proxy_resp, proxy_fn) thread \<Rightarrow>
    (('w, 's, 'k, proxy_param, proxy_resp, proxy_fn) thread \<times> (unit, unit) res) option"
where [code]:
  "drain_fibers pos th =
     (case get_fiber th pos of
        (th, Ok (Some ref)) \<Rightarrow>
          (case ref_drop th ref of
             (th, Ok _) \<Rightarrow> drain_fibers pos th
           | (th, _) \<Rightarrow> Some (th, Panic))
      | (th, Ok None) \<Rightarrow> Some (th, Ok ())
      | (th, _) \<Rightarrow> Some (th, Panic))"

text \<open>One turn of the loop over \<^verbatim>\<open>poll\<close> and \<^verbatim>\<open>run\<close>, with what the system reports to \<^verbatim>\<open>poll\<close> and the time of the poll.\<close>

definition proxy_turn ::
  "('w, 's, 'k, proxy_param, proxy_resp, proxy_fn) env \<Rightarrow> nat \<Rightarrow> (io_error, usize list) res \<times> instant \<Rightarrow> int \<Rightarrow>
    ('w, 's, 'k, proxy_param, proxy_resp, proxy_fn) thread \<Rightarrow>
    (('w, 's, 'k, proxy_param, proxy_resp, proxy_fn) thread \<times> (unit, int) res) option" where
  "proxy_turn env pos ev remain th =
     (case poll (e_slab env) (fst ev) (snd ev) th of
        None \<Rightarrow> None
      | Some (th, Ok False) \<Rightarrow> Some (th, Ok remain)
      | Some (th, Ok True) \<Rightarrow>
          (case run_runner env th pos of
             None \<Rightarrow> None
           | Some (th, Ok False) \<Rightarrow> Some (th, Ok remain)
           | Some (th, Ok True) \<Rightarrow>
               (case drain_responses pos remain th of
                  None \<Rightarrow> None
                | Some (th, Ok remain) \<Rightarrow> map_option (\<lambda>m. bindS m (\<lambda>th _. (th, Ok remain))) (drain_fibers pos th)
                | Some (th, _) \<Rightarrow> Some (th, Panic))
           | Some (th, _) \<Rightarrow> Some (th, Panic))
      | Some (th, _) \<Rightarrow> Some (th, Panic))"

text \<open>\<^verbatim>\<open>while reqs_remain > 0\<close>, for a sequence of polls.\<close>

fun proxy_loop ::
  "('w, 's, 'k, proxy_param, proxy_resp, proxy_fn) env \<Rightarrow> nat \<Rightarrow> ((io_error, usize list) res \<times> instant) list \<Rightarrow> int \<Rightarrow>
    ('w, 's, 'k, proxy_param, proxy_resp, proxy_fn) thread \<Rightarrow>
    (('w, 's, 'k, proxy_param, proxy_resp, proxy_fn) thread \<times> (unit, int) res) option" where
  "proxy_loop env pos [] remain th = Some (th, Ok remain)"
| "proxy_loop env pos (ev # evs) remain th =
     (if remain > 0 then
        (case proxy_turn env pos ev remain th of
           None \<Rightarrow> None
         | Some (th, Ok remain) \<Rightarrow> proxy_loop env pos evs remain th
         | Some (th, _) \<Rightarrow> Some (th, Panic))
      else Some (th, Ok remain))"

definition listener_param :: proxy_param where
  "listener_param = \<lparr>chosen = None, is_https = False, proxy_client = False,
     http_hosts = map ascii [''www.liquiddota.com'', ''www.google.com'', ''www.sqlite.org'', ''edition.cnn.com''],
     https_hosts = map ascii [''www.reddit.com'', ''www.google.com'', ''arstechnica.com'', ''news.ycombinator.com'']\<rparr>"

definition client_param :: proxy_param where
  "client_param = \<lparr>chosen = Some (ascii ''127.0.0.1:10000''), is_https = False, proxy_client = False,
     http_hosts = [], https_hosts = []\<rparr>"

text \<open>
  The start of \<^verbatim>\<open>http_proxy\<close>: one listener and a client for every socket of \<open>socks\<close>; an \<^verbatim>\<open>unwrap\<close> of an error panics.
  \<open>poll_new\<close> is what creating the system's poll returns.
\<close>

fun start_clients ::
  "('w, 's, 'k, proxy_param, proxy_resp, proxy_fn) env \<Rightarrow> nat \<Rightarrow> sock list \<Rightarrow>
    ('w, 's, 'k, proxy_param, proxy_resp, proxy_fn) thread \<Rightarrow>
    ('w, 's, 'k, proxy_param, proxy_resp, proxy_fn) thread \<times> (unit, unit) res" where
  "start_clients env pos [] th = (th, Ok ())"
| "start_clients env pos (s # socks) th =
     bindS (main_new_tcp env th pos s Get_http client_param) (\<lambda>th r.
     case r of Ok _ \<Rightarrow> start_clients env pos socks th | _ \<Rightarrow> (th, Panic))"

definition http_proxy_start ::
  "('w, 's, 'k, proxy_param, proxy_resp, proxy_fn) env \<Rightarrow> (io_error, unit) res \<Rightarrow> ustr option \<Rightarrow> instant \<Rightarrow> sock \<Rightarrow> sock list \<Rightarrow>
    ('w, 's, 'k, proxy_param, proxy_resp, proxy_fn) thread \<Rightarrow>
    ('w, 's, 'k, proxy_param, proxy_resp, proxy_fn) thread \<times> (unit, nat) res" where
  "http_proxy_start env poll_new contents now listener socks th =
     bindS (start_poller (e_slab env) (Some (4096 * 10)) poll_new contents now th) (\<lambda>th r.
     case r of
       Ok _ \<Rightarrow>
         (case start_runner th of
            (th, Ok pos) \<Rightarrow>
              bindS (main_new_listener env th (nat pos) listener Sock_acceptor listener_param) (\<lambda>th r.
              case r of
                Ok _ \<Rightarrow> bindS (start_clients env (nat pos) socks th) (\<lambda>th _. (th, Ok (nat pos)))
              | _ \<Rightarrow> (th, Panic))
          | (th, _) \<Rightarrow> (th, Panic))
     | _ \<Rightarrow> (th, Panic))"

definition http_proxy ::
  "('w, 's, 'k, proxy_param, proxy_resp, proxy_fn) env \<Rightarrow> (io_error, unit) res \<Rightarrow> ustr option \<Rightarrow> instant \<Rightarrow> sock \<Rightarrow> sock list \<Rightarrow>
    ((io_error, usize list) res \<times> instant) list \<Rightarrow> ('w, 's, 'k, proxy_param, proxy_resp, proxy_fn) thread \<Rightarrow>
    (('w, 's, 'k, proxy_param, proxy_resp, proxy_fn) thread \<times> (unit, int) res) option" where
  "http_proxy env poll_new contents now listener socks evs th =
     (case http_proxy_start env poll_new contents now listener socks th of
        (th, Ok pos) \<Rightarrow> proxy_loop env pos evs (int (length socks)) th
      | (th, _) \<Rightarrow> Some (th, Panic))"

end
