(* ===== verification/Http_Client.thy ===== *)
theory Http_Client
  imports Http_Proxy
begin

text \<open>
  What the web client of the test program does on the library: from its first call, over the chunks that its socket
  delivers, to its wait, its time-out or its failure; and what the main stack makes of its responses.
\<close>

section \<open>Bodies as trees\<close>

abbreviation gh :: "nat option \<Rightarrow> get_http_point \<Rightarrow> (proxy_param, proxy_resp, proxy_fn) prog" where
  "gh con \<equiv> body (get_http_step con)"

definition after_read :: "nat option \<Rightarrow> bytes \<Rightarrow> proxy_resp resp \<Rightarrow> (proxy_param, proxy_resp, proxy_fn) prog" where
  "after_read con v x = gh con (case x of
         Rs_read (Ok d) \<Rightarrow> GH_chunk (fill d v) (length d)
       | Rs_read (Err e) \<Rightarrow> if io_kind e = TimedOut then GH_done else GH_panic
       | _ \<Rightarrow> GH_panic)"

lemma get_http_tree:
  "chosen p = Some host \<Longrightarrow> \<not> is_https p \<Longrightarrow>
     get_http con p = Call (Rq_socket_timeout (Some (from_millis 1000))) (\<lambda>_. gh con (GH_write host))"
  "gh con (GH_write host) =
     Call (Rq_write (http_request host)) (\<lambda>x. gh con (case x of Rs_write (Ok _) \<Rightarrow> GH_read (replicate 2000 0) | _ \<Rightarrow> GH_panic))"
  "gh con (GH_read v) = Call (Rq_read 2000) (after_read con v)"
  "n \<le> length v \<Longrightarrow>
     gh con (GH_chunk v n) = Call (Rq_resp_chunk (Bytes \<lparr>bs_buf = v, bs_len = n\<rparr>)) (\<lambda>_. gh con (GH_read v))"
  "gh con GH_done = Return (Some Done)"
  "gh con GH_panic = Abort"
  unfolding get_http_def by (subst body.code, simp add: after_read_def [abs_def])+

section \<open>The slices of a buffer\<close>

text \<open>The slices that reading the chunks \<open>ds\<close> into the buffer \<open>v\<close> makes; \<open>fold fill ds v\<close> is the buffer after that.\<close>

fun slices_of :: "bytes \<Rightarrow> bytes list \<Rightarrow> buf_slice list" where
  "slices_of v [] = []"
| "slices_of v (d # ds) = \<lparr>bs_buf = fill d v, bs_len = length d\<rparr> # slices_of (fill d v) ds"

lemma fill_length [simp]: "length (fill d v) = length v"
  by (simp add: fill_def)

lemma slices_of_bytes: "\<forall>d \<in> set ds. length d \<le> length v \<Longrightarrow> map slice_bytes (slices_of v ds) = ds"
  by (induction ds arbitrary: v) (simp_all add: slice_bytes_def slice_now_def, simp add: fill_def)

lemma slices_of_now: "map (slice_now buf) (slices_of v ds) = map (\<lambda>d. take (length d) buf) ds"
  by (induction ds arbitrary: v) (simp_all add: slice_now_def)

section \<open>A client on a socket that delivers\<close>

text \<open>
  Reads on a TCP socket that return the chunks \<open>ds\<close> in turn, none of them empty or longer than the buffer of \<open>n\<close> bytes,
  and then would block.
\<close>

inductive feeds :: "'w os_ops \<Rightarrow> sock \<Rightarrow> nat \<Rightarrow> 'w \<Rightarrow> bytes list \<Rightarrow> 'w \<Rightarrow> bool" for os s n where
  feeds_block: "os_tcp_read os s n w = (w', Err e) \<Longrightarrow> io_kind e = WouldBlock \<Longrightarrow> feeds os s n w [] w'"
| feeds_data: "os_tcp_read os s n w = (w1, Ok d) \<Longrightarrow> d \<noteq> [] \<Longrightarrow> length d \<le> n \<Longrightarrow> feeds os s n w1 ds w' \<Longrightarrow> feeds os s n w (d # ds) w'"

inductive_cases feeds_NilE: "feeds os s n w [] w'"
inductive_cases feeds_ConsE: "feeds os s n w (d # ds) w'"

lemma feeds_fit: "feeds os s n w ds w' \<Longrightarrow> \<forall>d \<in> set ds. length d \<le> n"
  by (induction rule: feeds.induct) auto

text \<open>The fiber of a client: what stays the same from its first read on.\<close>

definition client_fiber :: "sock \<Rightarrow> nat \<Rightarrow> (proxy_param, proxy_resp, proxy_fn, 'k) fiber_int \<Rightarrow> bool" where
  "client_fiber s pos fib \<longleftrightarrow>
     f_func fib = Some Get_http \<and> f_parent fib = None \<and> handle_id fib = pos \<and> f_sock fib = S_Tcp s \<and>
     f_connect_param fib = None \<and> f_state fib = Stacked \<and> f_result fib = None \<and>
     f_timeout fib = Some (from_millis 1000) \<and> f_stack fib \<noteq> None"

text \<open>It waits in its read, and its buffer holds \<open>v\<close>.\<close>

definition client_waiting ::
  "nat option \<Rightarrow> sock \<Rightarrow> nat \<Rightarrow> token option \<Rightarrow> bytes \<Rightarrow> (proxy_param, proxy_resp, proxy_fn, 'k) fiber_int \<Rightarrow> bool" where
  "client_waiting con s pos tk v fib \<longleftrightarrow>
     client_fiber s pos fib \<and> f_ready fib = ReadyReadable \<and> f_wtoken fib = tk \<and>
     f_t fib = Some (FiberCtx (At_read 2000) (after_read con v))"

lemma read_turn_data:
  assumes "i < length (r_fibers rt)" "f_sock (r_fibers rt ! i) = S_Tcp s"
    "os_tcp_read (e_os env) s n (r_world rt) = (w, Ok d)" "d \<noteq> []"
  shows "at_turn env rt i (At_read n) = Some (rt\<lparr>r_world := w\<rparr>, Ok (Finish (Rs_read (Ok d))))"
  using assms by (simp add: at_turn_def read_turn_def in_range on_world_def sock_read_def)

text \<open>Running the body from its read up to the next chunk.\<close>

lemma run_to_chunk:
  assumes "pos < length (r_fibers rt)" "r_fibers rt ! pos = fib" "f_sock fib = S_Tcp s"
    "os_tcp_read (e_os env) s 2000 (r_world rt) = (w, Ok d)" "d \<noteq> []" "length d \<le> length v"
  shows "fiber_run env pos (Prog (gh con (GH_read v))) rt =
    Some (rt\<lparr>r_world := w, r_fibers := (r_fibers rt)[pos := fib\<lparr>f_result := Some (Bytes \<lparr>bs_buf = fill d v, bs_len = length d\<rparr>)\<rparr>]\<rparr>,
      Ok (Suspended At_resp_chunk (\<lambda>_. gh con (GH_read (fill d v)))))"
proof -
  have "fiber_run env pos (Prog (gh con (GH_read v))) rt =
      fiber_run env pos (Prog (after_read con v (Rs_read (Ok d)))) (rt\<lparr>r_world := w\<rparr>)"
    unfolding get_http_tree(3)
    by (rule fiber_run_attempt [where pt = "At_read 2000"])
      (use assms in \<open>simp_all add: call_turn_def read_turn_data\<close>)
  also have "\<dots> = Some (rt\<lparr>r_world := w, r_fibers := (r_fibers rt)[pos := fib\<lparr>f_result := Some (Bytes \<lparr>bs_buf = fill d v, bs_len = length d\<rparr>)\<rparr>]\<rparr>,
      Ok (Suspended At_resp_chunk (\<lambda>_. gh con (GH_read (fill d v)))))"
    unfolding after_read_def
    by (rule fiber_run_halt) (use assms in \<open>simp add: get_http_tree(4) code_step_def call_turn_def resp_chunk_def in_range\<close>)
  finally show ?thesis .
qed

text \<open>
  Running the body into a read that would block: the fiber registers for reading (for the first time), arms its timeout
  and waits.
\<close>

definition blocked :: "token option \<Rightarrow> ('p, 'r, 'f, 'k) fiber_int \<Rightarrow> ('p, 'r, 'f, 'k) fiber_int" where
  "blocked tk fib =
     (case tk of
        None \<Rightarrow> fib\<lparr>f_ready := ReadyReadable\<rparr>
      | Some t \<Rightarrow> fib\<lparr>f_ready := ReadyReadable, f_timed_out := 0, f_wtoken := Some t\<rparr>)"

lemma blocked_simps [simp]:
  "f_t (blocked tk fib) = f_t fib" "f_state (blocked tk fib) = f_state fib" "f_result (blocked tk fib) = f_result fib"
  "f_parent (blocked tk fib) = f_parent fib" "f_ready (blocked tk fib) = ReadyReadable"
  "f_wtoken fib = None \<Longrightarrow> f_wtoken (blocked tk fib) = tk"
  by (auto simp: blocked_def split: option.split)

lemma read_turn_blocks:
  assumes "i < length (r_fibers rt)" "r_fibers rt ! i = fib" "f_sock fib = S_Tcp s" "f_timeout fib = Some dur" "f_ready fib = ReadyEmpty"
    and "os_tcp_read (e_os env) s n (r_world rt) = (w, Err e)" "io_kind e = WouldBlock"
    and "os_register (e_os env) s (f_me fib) ReadyReadable w = (w1, Ok ())" "os_now (e_os env) w1 = (now, w2)"
    and "timer_reg (e_slab env) now (r_poller rt) (f_me fib) (Some dur) = (p, Ok tk)"
  shows "at_turn env rt i (At_read n) =
    Some (rt\<lparr>r_fibers := (r_fibers rt)[i := blocked tk fib], r_world := w2, r_poller := p\<rparr>, Ok (StepOut (At_read n)))"
proof -
  have "fiber_register (e_os env) fib ReadyReadable w = (fib\<lparr>f_ready := ReadyReadable\<rparr>, w1, Ok ())"
    using assms(3,5,8) by (simp add: fiber_register_def sock_evented_def)
  then show ?thesis
    using assms
    by (cases rt) (simp add: blocked_def at_turn_def read_turn_def in_range on_world_def sock_read_def would_block_def arm_timeout_def
        reg_timer_def on_poller_def register_interest_def split: option.split)
qed

text \<open>One entry into the fiber: it reads one chunk and hands it over, or it blocks.\<close>

lemma client_chunk:
  assumes ent: "enter_fiber env rt pos = settle pos pos (fiber_run env pos (Prog (gh con (GH_read v))) rt1)"
    and fib: "pos < length (r_fibers rt1)" "r_fibers rt1 ! pos = fib" "client_fiber s pos fib" "f_t fib = Some MainCtx"
    and q: "r_pos rt1 < length (toexec_fibers (r_poller rt1))"
    and rd: "os_tcp_read (e_os env) s 2000 (r_world rt1) = (w, Ok d)" "d \<noteq> []" "length d \<le> length v"
  shows "step_into env pos rt =
    Some (rt1\<lparr>r_world := w, r_results := r_results rt1 @ [Bytes \<lparr>bs_buf = fill d v, bs_len = length d\<rparr>],
       r_fibers := (r_fibers rt1)[pos := fib\<lparr>f_t := Some (FiberCtx At_resp_chunk (\<lambda>_. gh con (GH_read (fill d v)))), f_result := None\<rparr>],
       r_poller := (r_poller rt1)\<lparr>toexec_fibers := (toexec_fibers (r_poller rt1))
          [r_pos rt1 := toexec_fibers (r_poller rt1) ! r_pos rt1 @ [word_of_nat pos]]\<rparr>\<rparr>, Ok ())"
proof -
  note c = fib(3) [unfolded client_fiber_def]
  have "enter_fiber env rt pos = Some (rt1\<lparr>r_world := w, r_fibers := (r_fibers rt1)[pos :=
      fib\<lparr>f_result := Some (Bytes \<lparr>bs_buf = fill d v, bs_len = length d\<rparr>), f_t := Some (FiberCtx At_resp_chunk (\<lambda>_. gh con (GH_read (fill d v))))\<rparr>]\<rparr>, Ok ())"
    using fib c run_to_chunk [OF fib(1,2) _ rd, of con] unfolding ent
    by (simp add: settle_def leave_ctx_def leave_fiber_def in_range lift_def)
  then show ?thesis
    using fib(1) q c by (subst step_into.simps) (cases rt1, simp add: stepped_out_def in_range)
qed

lemma client_blocks:
  assumes ent: "enter_fiber env rt pos = settle pos pos (fiber_run env pos (Prog (gh con (GH_read v))) rt1)"
    and fib: "pos < length (r_fibers rt1)" "r_fibers rt1 ! pos = fib" "client_fiber s pos fib" "f_t fib = Some MainCtx"
      "f_ready fib = ReadyEmpty" "f_wtoken fib = None"
    and rd: "os_tcp_read (e_os env) s 2000 (r_world rt1) = (w, Err e)" "io_kind e = WouldBlock"
    and arm: "os_register (e_os env) s (f_me fib) ReadyReadable w = (w1, Ok ())" "os_now (e_os env) w1 = (now, w2)"
      "timer_reg (e_slab env) now (r_poller rt1) (f_me fib) (Some (from_millis 1000)) = (p, Ok tk)"
  shows "\<exists>fib'. step_into env pos rt =
      Some (rt1\<lparr>r_world := w2, r_poller := p, r_fibers := (r_fibers rt1)[pos := fib']\<rparr>, Ok ()) \<and> client_waiting con s pos tk v fib'"
proof -
  note c = fib(3) [unfolded client_fiber_def]
  let ?rt = "rt1\<lparr>r_world := w2, r_poller := p, r_fibers := (r_fibers rt1)[pos := blocked tk fib]\<rparr>"
  have "at_turn env rt1 pos (At_read 2000) = Some (?rt, Ok (StepOut (At_read 2000)))"
    using read_turn_blocks [OF fib(1,2) _ _ fib(5) rd arm] c by (cases rt1) simp
  then have run: "fiber_run env pos (Prog (gh con (GH_read v))) rt1 = Some (?rt, Ok (Suspended (At_read 2000) (after_read con v)))"
    unfolding get_http_tree(3) by (intro fiber_run_blocks [where pt = "At_read 2000"]) (simp_all add: call_turn_def)
  let ?fib = "(blocked tk fib)\<lparr>f_t := Some (FiberCtx (At_read 2000) (after_read con v))\<rparr>"
  have "enter_fiber env rt pos = Some (rt1\<lparr>r_world := w2, r_poller := p, r_fibers := (r_fibers rt1)[pos := ?fib]\<rparr>, Ok ())"
    using fib(1,4) unfolding ent run by (simp add: settle_def leave_ctx_def leave_fiber_def in_range lift_def)
  then have "step_into env pos rt = Some (rt1\<lparr>r_world := w2, r_poller := p, r_fibers := (r_fibers rt1)[pos := ?fib]\<rparr>, Ok ())"
    using fib(1) c by (subst step_into.simps) (simp add: stepped_out_def in_range)
  moreover have "client_waiting con s pos tk v ?fib"
    using c fib(6) by (auto simp: client_waiting_def client_fiber_def handle_id_def blocked_def split: option.split)
  ultimately show ?thesis by blast
qed

text \<open>From the first read on: the fiber is entered again for every chunk, until its read would block.\<close>

definition client_served :: "nat option \<Rightarrow> sock \<Rightarrow> nat \<Rightarrow> token option \<Rightarrow> bytes \<Rightarrow> bytes list \<Rightarrow>
    ('w, 's, 'k, proxy_param, proxy_resp, proxy_fn) runner_int \<Rightarrow> ('w, 's, 'k, proxy_param, proxy_resp, proxy_fn) runner_int \<Rightarrow> bool" where
  "client_served con s pos tk v ds rt rt' \<longleftrightarrow>
     idle rt' \<and> r_results rt' = r_results rt @ map Bytes (slices_of v ds) \<and> r_free_fibers rt' = r_free_fibers rt \<and>
     r_tomain_fibers rt' = r_tomain_fibers rt \<and> r_pos rt' = r_pos rt \<and>
     (\<exists>fib. client_waiting con s pos tk (fold fill ds v) fib \<and> r_fibers rt' = (r_fibers rt)[pos := fib])"

lemma client_burst:
  assumes "feeds (e_os env) s 2000 w ds w0" "r_world rt1 = w"
    and "enter_fiber env rt pos = settle pos pos (fiber_run env pos (Prog (gh con (GH_read v))) rt1)"
    and "pos < length (r_fibers rt1)" "pos < 2 ^ 64" "r_fibers rt1 ! pos = fib" "client_fiber s pos fib" "f_t fib = Some MainCtx"
    and "f_ready fib = ReadyEmpty" "f_wtoken fib = None" "f_me fib = me" "idle rt1"
    and arm: "os_register (e_os env) s me ReadyReadable w0 = (w1, Ok ())" "os_now (e_os env) w1 = (now, w2)"
    and "timer_reg (e_slab env) now (r_poller rt1) me (Some (from_millis 1000)) = ((r_poller rt1)\<lparr>pl_wheel := wh\<rparr>, Ok tk)"
    and "length v = 2000"
  shows "\<exists>rt2 rt3. step_into env pos rt = Some (rt2, Ok ()) \<and> run_toexec env rt2 = Some (rt3, Ok ()) \<and>
    client_served con s pos tk v ds rt1 rt3 \<and> r_world rt3 = w2 \<and> r_poller rt3 = (r_poller rt1)\<lparr>pl_wheel := wh\<rparr>"
  using assms
proof (induction arbitrary: rt rt1 fib v rule: feeds.induct)
  case (feeds_block w w' e)
  note pr = feeds_block.prems
  have rd: "os_tcp_read (e_os env) s 2000 (r_world rt1) = (w', Err e)" using feeds_block.hyps(1) pr(1) by simp
  from client_blocks [OF pr(2,3,5-9) rd feeds_block.hyps(2)] pr(10,12-14)
  obtain fib' where st: "step_into env pos rt =
      Some (rt1\<lparr>r_world := w2, r_poller := (r_poller rt1)\<lparr>pl_wheel := wh\<rparr>, r_fibers := (r_fibers rt1)[pos := fib']\<rparr>, Ok ())"
    "client_waiting con s pos tk v fib'" by blast
  let ?rt = "rt1\<lparr>r_world := w2, r_poller := (r_poller rt1)\<lparr>pl_wheel := wh\<rparr>, r_fibers := (r_fibers rt1)[pos := fib']\<rparr>"
  have "idle ?rt" using pr(11) by (simp add: idle_def)
  then have "run_toexec env ?rt = Some (?rt, Ok ())" "client_served con s pos tk v [] rt1 ?rt"
    using st(2) by (auto simp: client_served_def run_toexec_idle)
  then show ?case using st(1) by auto
next
  case (feeds_data w w3 d ds w')
  note pr = feeds_data.prems
  let ?P = "r_poller rt1" and ?r = "r_pos rt1"
  have q: "?r < length (toexec_fibers ?P)" "toexec_fibers ?P ! ?r = []" "(toexec_fibers ?P)[?r := []] = toexec_fibers ?P"
    using pr(11) upd_same [of ?r "toexec_fibers ?P" "[]"] by (simp_all add: idle_def)
  note c = pr(6) [unfolded client_fiber_def]
  have rd: "os_tcp_read (e_os env) s 2000 (r_world rt1) = (w3, Ok d)" using feeds_data.hyps(1) pr(1) by simp
  let ?rest = "fib\<lparr>f_t := Some (FiberCtx At_resp_chunk (\<lambda>_. gh con (GH_read (fill d v)))), f_result := None\<rparr>"
  let ?rt = "rt1\<lparr>r_world := w3, r_results := r_results rt1 @ [Bytes \<lparr>bs_buf = fill d v, bs_len = length d\<rparr>], r_fibers := (r_fibers rt1)[pos := ?rest]\<rparr>"
  let ?rt2 = "?rt\<lparr>r_poller := ?P\<lparr>toexec_fibers := (toexec_fibers ?P)[?r := [word_of_nat pos]]\<rparr>\<rparr>"
  have st: "step_into env pos rt = Some (?rt2, Ok ())"
    using client_chunk [OF pr(2,3,5,6,7) q(1) rd feeds_data.hyps(2)] feeds_data.hyps(3) pr(15) by (simp add: q(2))
  have popped: "?rt2\<lparr>r_poller := (r_poller ?rt2)\<lparr>toexec_fibers := (toexec_fibers (r_poller ?rt2))[r_pos ?rt2 := []]\<rparr>\<rparr> = ?rt"
    using q by simp
  let ?fib = "?rest\<lparr>f_t := Some MainCtx\<rparr>"
  let ?rt1 = "?rt\<lparr>r_fibers := (r_fibers ?rt)[pos := ?fib]\<rparr>"
  have "fiber_run env pos (Back At_resp_chunk (\<lambda>_. gh con (GH_read (fill d v)))) ?rt1 = fiber_run env pos (Prog (gh con (GH_read (fill d v)))) ?rt1"
    by (rule fiber_run_step) (simp add: code_step_def back_turn_def)
  then have ent: "enter_fiber env ?rt pos = settle pos pos (fiber_run env pos (Prog (gh con (GH_read (fill d v)))) ?rt1)"
    using enter_suspended [of pos ?rt ?rest Get_http At_resp_chunk "\<lambda>_. gh con (GH_read (fill d v))" env] pr(3) c
    by (simp add: handle_id_def)
  have "client_fiber s pos ?fib" using c by (simp add: client_fiber_def handle_id_def)
  moreover have "idle ?rt1" using pr(11) by (simp add: idle_def)
  ultimately obtain rt3 rt4 where 3: "step_into env pos ?rt = Some (rt3, Ok ())" "run_toexec env rt3 = Some (rt4, Ok ())"
    "client_served con s pos tk (fill d v) ds ?rt1 rt4" "r_world rt4 = w2" "r_poller rt4 = (r_poller ?rt1)\<lparr>pl_wheel := wh\<rparr>"
    using feeds_data.IH [of ?rt1 ?rt "fill d v" ?fib] ent pr(3,4,8,9,10,12-15) by auto
  have "run_toexec env ?rt2 = run_toexec env rt3"
    using run_toexec_one [of ?rt2 pos env rt3] 3(1) popped q pr(3,4) c by simp
  moreover have "client_served con s pos tk v (d # ds) rt1 rt4" using 3(3) by (auto simp: client_served_def)
  ultimately show ?case using st 3(2,4,5) by auto
qed

section \<open>A client from its start\<close>

lemma http_request_nonempty: "http_request host \<noteq> []"
  by (simp add: http_request_def ascii_def)

lemma run_request:
  assumes "pos < length (r_fibers rt)" "r_fibers rt ! pos = fib" "f_sock fib = S_Tcp s"
    and "chosen p = Some host" "\<not> is_https p"
    and "os_tcp_write (e_os env) s (http_request host) (r_world rt) = (w, Ok n)"
  shows "fiber_run env pos (Prog (get_http con p)) rt =
    fiber_run env pos (Prog (gh con (GH_read (replicate 2000 0))))
      (rt\<lparr>r_fibers := (r_fibers rt)[pos := fib\<lparr>f_timeout := Some (from_millis 1000)\<rparr>], r_world := w\<rparr>)"
proof -
  let ?rt = "rt\<lparr>r_fibers := (r_fibers rt)[pos := fib\<lparr>f_timeout := Some (from_millis 1000)\<rparr>]\<rparr>"
  have "fiber_run env pos (Prog (get_http con p)) rt = fiber_run env pos (Prog (gh con (GH_write host))) ?rt"
    unfolding get_http_tree(1) [OF assms(4,5)]
    by (rule fiber_run_answered) (use assms(1,2) in \<open>simp add: call_turn_def socket_timeout_def in_range\<close>)
  also have "\<dots> = fiber_run env pos (Prog (gh con (GH_read (replicate 2000 0)))) (?rt\<lparr>r_world := w\<rparr>)"
  proof -
    have "fiber_run env pos (Prog (gh con (GH_write host))) ?rt =
        fiber_run env pos (Prog (gh con (case Rs_write (Ok n) :: proxy_resp resp of Rs_write (Ok _) \<Rightarrow> GH_read (replicate 2000 0) | _ \<Rightarrow> GH_panic)))
          (?rt\<lparr>r_world := w\<rparr>)"
      unfolding get_http_tree(2)
      by (rule fiber_run_attempt [where pt = "At_write (http_request host)"])
        (use assms http_request_nonempty [of host] in
          \<open>simp_all add: call_turn_def at_turn_def write_turn_def in_range on_world_def sock_write_def\<close>)
    then show ?thesis by simp
  qed
  finally show ?thesis by simp
qed

text \<open>Registering a client on an idle runner, and one run.\<close>

lemma client_life:
  assumes ok: "runner_ok rt" and idle: "idle rt"
    and len: "length (r_fibers rt) < 2 ^ 32" and stacks: "\<And>n. \<exists>st. e_stack env n = Ok st"
    and code: "e_code env Get_http = get_http con" and p: "chosen p = Some host" "\<not> is_https p"
    and wr: "os_tcp_write (e_os env) s (http_request host) (r_world rt) = (w, Ok n)"
    and fd: "feeds (e_os env) s 2000 w ds w0"
    and arm: "os_register (e_os env) s (fiber_id rt (free_slot rt)) ReadyReadable w0 = (w1, Ok ())"
      "os_now (e_os env) w1 = (now, w2)"
      "timer_reg (e_slab env) now (r_poller rt) (fiber_id rt (free_slot rt)) (Some (from_millis 1000))
        = ((r_poller rt)\<lparr>pl_wheel := wh\<rparr>, Ok tk)"
  shows "\<exists>rt1 rt2. register env rt (Some Get_http) (S_Tcp s) (Some p) None True = (rt1, Ok (Ok (free_slot rt))) \<and>
    runner_run env rt1 = Some (rt2, Ok (signaled rt2)) \<and> idle rt2 \<and> r_results rt2 = r_results rt @ map Bytes (slices_of (replicate 2000 0) ds) \<and> r_world rt2 = w2 \<and>
    r_free_fibers rt2 = tl (r_free_fibers rt) \<and> free_slot rt < length (r_fibers rt2) \<and>
    client_waiting con s (free_slot rt) tk (fold fill ds (replicate 2000 0)) (r_fibers rt2 ! free_slot rt) \<and> pl_wheel (r_poller rt2) = wh \<and>
    (\<forall>i < length (r_fibers rt). i \<noteq> free_slot rt \<longrightarrow> r_fibers rt2 ! i = r_fibers rt ! i)"
proof -
  let ?pos = "free_slot rt" and ?P = "r_poller rt" and ?placed = "placed rt Get_http (S_Tcp s) p"
  let ?fib = "placed_fiber rt Get_http (S_Tcp s) p"
  have free: "\<forall>q \<in> set (r_free_fibers rt). q < length (r_fibers rt)" using ok by (simp add: runner_ok_def)
  note pl = placed_in [OF idle free len]
  obtain fq st where stk: "stack_pop (e_stack env) ?P = (?P\<lparr>free_stacks := fq\<rparr>, Ok st)"
    by (rule stack_pop_ok [OF stacks])
  let ?run = "(running st ?fib)\<lparr>f_timeout := Some (from_millis 1000)\<rparr>"
  let ?entered = "?placed\<lparr>r_poller := ?P\<lparr>free_stacks := fq\<rparr>, r_fibers := (r_fibers ?placed)[?pos := running st ?fib]\<rparr>"
  let ?first = "?entered\<lparr>r_fibers := (r_fibers ?entered)[?pos := ?run], r_world := w\<rparr>"
  have ent: "enter_fiber env ?placed ?pos = settle ?pos ?pos (fiber_run env ?pos (Prog (gh con (GH_read (replicate 2000 0)))) ?first)"
    using enter_fresh [of ?pos ?placed ?fib Get_http p env "?P\<lparr>free_stacks := fq\<rparr>" st] pl(1,3,4) stk code
      run_request [of ?pos ?entered "running st ?fib" s p host env w n con] p wr by simp
  have cf: "client_fiber s ?pos ?run" "f_t ?run = Some MainCtx" "f_ready ?run = ReadyEmpty" "f_wtoken ?run = None"
    using pl(4) by (simp_all add: client_fiber_def handle_id_def placed_fiber_def new_fiber_def running_def)
  have idle': "idle ?first" using idle by (simp add: idle_def)
  have arm': "timer_reg (e_slab env) now (r_poller ?first) (fiber_id rt ?pos) (Some (from_millis 1000))
      = ((r_poller ?first)\<lparr>pl_wheel := wh\<rparr>, Ok tk)"
    using timer_reg_frame [OF _ arm(3), of "r_poller ?first"] by simp
  obtain rt2 rt3 where 3: "step_into env ?pos ?placed = Some (rt2, Ok ())" "run_toexec env rt2 = Some (rt3, Ok ())"
    "client_served con s ?pos tk (replicate 2000 0) ds ?first rt3" "r_world rt3 = w2" "r_poller rt3 = (r_poller ?first)\<lparr>pl_wheel := wh\<rparr>"
    using client_burst [OF fd _ ent _ _ _ cf(1,2,3,4) _ idle' arm(1,2) arm' length_replicate] pl(1,2) by auto
  obtain rt1 where "register env rt (Some Get_http) (S_Tcp s) (Some p) None True = (rt1, Ok (Ok ?pos))"
    "runner_run env rt1 = Some (rt3, Ok (signaled rt3))"
    using registered_run [OF idle free len _ 3(1,2)] 3(3) by (auto simp: client_served_def)
  moreover have "r_fibers rt3 ! i = r_fibers rt ! i" if "i < length (r_fibers rt)" "i \<noteq> ?pos" for i
    using that 3(3) placed_in(5) [OF idle free len that] by (auto simp: client_served_def)
  ultimately show ?thesis using 3(3-5) pl(1)
    by (intro exI [of _ rt1] exI [of _ rt3]) (auto simp: client_served_def)
qed


text \<open>The end of a client: its read times out.\<close>

lemma client_timeout:
  assumes pos: "pos < length (r_fibers rt)" and cw: "client_waiting con s pos (Some tk) v (r_fibers rt ! pos)"
  shows "\<exists>rt' fib. exec_timeout env pos rt = Some (rt', Ok ()) \<and> r_results rt' = r_results rt @ [Done] \<and>
    r_free_fibers rt' = r_free_fibers rt @ [pos] \<and> r_fibers rt' = (r_fibers rt)[pos := fib] \<and> f_state fib = Closed \<and>
    f_sock fib = S_Empty \<and> f_stack fib = None \<and>
    r_poller rt' = stack_push (r_poller rt) (the (f_stack (r_fibers rt ! pos)))"
proof -
  let ?fib = "r_fibers rt ! pos"
  note c = cw [unfolded client_waiting_def client_fiber_def]
  obtain st where st: "f_stack ?fib = Some st" using c by auto
  have resp: "timeout_resp (At_read 2000) = Some (Rs_read (Err read_timeout) :: proxy_resp resp)" by simp
  have k: "after_read con v (Rs_read (Err read_timeout)) = Return (Some Done)"
    by (simp add: after_read_def read_timeout_def get_http_tree)
  note ex = exec_timeout_resumes [OF pos refl _ _ _ _ _ resp, of tk Get_http "after_read con v" env, unfolded k fiber_run_Return]
  let ?rt1 = "rt\<lparr>r_fibers := (r_fibers rt)[pos := ?fib\<lparr>f_wtoken := None, f_timed_out := 1\<rparr>]\<rparr>"
  let ?done = "(timed_out_fiber ?fib)\<lparr>f_result := Some Done, f_state := Closed, f_t := Some DeadCtx\<rparr>"
  have "enter_fiber env ?rt1 pos = Some (rt\<lparr>r_fibers := (r_fibers rt)[pos := ?done]\<rparr>, Ok ())"
    using ex(2) c pos by (simp add: settle_def leave_ctx_def leave_fiber_def in_range lift_def timed_out_fiber_def)
  then have "step_into env pos ?rt1 =
      Some (rt\<lparr>r_poller := stack_push (r_poller rt) st,
        r_fibers := (r_fibers rt)[pos := ?done\<lparr>f_stack := None, f_t := None, f_sock := S_Empty, f_result := None\<rparr>],
        r_results := r_results rt @ [Done], r_free_fibers := r_free_fibers rt @ [pos]\<rparr>, Ok ())"
    using c st pos
    by (subst step_into.simps)
      (cases rt, simp add: stepped_out_def unstack_def in_range lift_def push_back_def timed_out_fiber_def)
  then show ?thesis using ex(1) c st by auto
qed

text \<open>A server that closes the connection.\<close>

lemma client_closed:
  assumes "pos < length (r_fibers rt)" "f_sock (r_fibers rt ! pos) = S_Tcp s"
    "os_tcp_read (e_os env) s 2000 (r_world rt) = (w, Ok [])"
  shows "fiber_run env pos (Prog (gh con (GH_read v))) rt = Some (rt\<lparr>r_world := w\<rparr>, Panic)"
proof -
  have "fiber_run env pos (Prog (gh con (GH_read v))) rt = fiber_run env pos (Prog (after_read con v (Rs_read (Err socket_closed)))) (rt\<lparr>r_world := w\<rparr>)"
    unfolding get_http_tree(3)
    by (rule fiber_run_attempt [where pt = "At_read 2000"])
      (use assms in \<open>simp_all add: call_turn_def at_turn_def read_turn_def in_range on_world_def sock_read_def\<close>)
  also have "after_read con v (Rs_read (Err socket_closed)) = Abort"
    by (simp add: after_read_def socket_closed_def get_http_tree)
  finally show ?thesis by (subst (asm) (2) fiber_run.simps) (simp add: code_step_def)
qed

section \<open>The program on the main stack\<close>

lemma get_response_lend:
  assumes "lend th pos = Ok rt"
  obtains th' where "get_response th pos = (th', Ok (fst (pop_front (r_results rt))))"
    "lend th' pos = Ok (rt\<lparr>r_results := snd (pop_front (r_results rt))\<rparr>)"
proof -
  have "pos < length (th_runners th)" using assms by (auto simp: lend_def get_runner_def split: option.splits if_splits)
  then show ?thesis
    using that assms by (auto simp: get_response_def with_runner_def iter_responses_def split_beta give_back_def lend_def get_runner_def)
qed

lemma drain_counts:
  assumes "lend th pos = Ok rt"
  shows "\<exists>th'. drain_responses pos remain th = Some (th', Ok (remain - int (count_list (r_results rt) Done))) \<and>
    lend th' pos = Ok (rt\<lparr>r_results := []\<rparr>)"
  using assms
proof (induction "r_results rt" arbitrary: th rt remain)
  case Nil
  obtain th' where "get_response th pos = (th', Ok None)" "lend th' pos = Ok (rt\<lparr>r_results := []\<rparr>)"
    using get_response_lend [OF Nil.prems] Nil.hyps [symmetric] by (auto simp: pop_front_def)
  then show ?case using Nil.hyps [symmetric] by (subst drain_responses.simps) simp
next
  case (Cons r rs)
  obtain th' where g: "get_response th pos = (th', Ok (Some r))" "lend th' pos = Ok (rt\<lparr>r_results := rs\<rparr>)"
    using get_response_lend [OF Cons.prems] Cons.hyps(2) [symmetric] by (auto simp: pop_front_def)
  from Cons.hyps(1) [OF _ g(2)] show ?case
    using Cons.hyps(2) [symmetric] g(1) by (subst drain_responses.simps) (simp add: diff_diff_eq [symmetric])
qed

section \<open>An example\<close>

text \<open>The proxy on the test system, with one runner; the client asks host \<^verbatim>\<open>"h"\<close> and the socket delivers two chunks.\<close>

definition proxy_env :: "(test_os, entry vec_slab, nat, proxy_param, proxy_resp, proxy_fn) env" where
  "proxy_env = \<lparr>e_slab = vec_slab_ops, e_os = test_os_ops, e_bo = network, e_stack = (\<lambda>_. Ok 0), e_code = proxy_code None 0 0\<rparr>"

definition proxy_world :: test_os where
  "proxy_world = test_os_start\<lparr>script := [Ok [1, 2], Ok [3]]\<rparr>"

definition proxy_runner :: "(test_os, entry vec_slab, nat, proxy_param, proxy_resp, proxy_fn) runner_int" where
  "proxy_runner = runner_int_new 0 ex_poller proxy_world"

definition proxy_thread :: "(test_os, entry vec_slab, nat, proxy_param, proxy_resp, proxy_fn) thread" where
  "proxy_thread = \<lparr>th_poller = Some ex_poller, th_runners = Some proxy_runner # None # replicate 18 None, th_world = proxy_world\<rparr>"

definition h_param :: proxy_param where
  "h_param = client_param\<lparr>chosen := Some (ascii ''h'')\<rparr>"

lemma proxy_env_simps [simp]:
  "e_slab proxy_env = vec_slab_ops" "e_os proxy_env = test_os_ops" "e_stack proxy_env = (\<lambda>_. Ok 0)"
  "e_code proxy_env Get_http = get_http None"
  by (auto simp: proxy_env_def proxy_code_def)

lemma proxy_runner_simps [simp]:
  "r_poller proxy_runner = ex_poller" "r_world proxy_runner = proxy_world" "r_fibers proxy_runner = []" "r_results proxy_runner = []"
  "r_free_fibers proxy_runner = []" "r_pos proxy_runner = 0"
  by (simp_all add: proxy_runner_def runner_int_new_def)

lemma proxy_thread_reach: "thread_reach proxy_env proxy_thread"
proof -
  have "start_poller (e_slab proxy_env) None (Ok ()) (Some []) (Instant 0) (thread_start proxy_world) =
      ((thread_start proxy_world :: (test_os, entry vec_slab, nat, proxy_param, proxy_resp, proxy_fn) thread)
        \<lparr>th_poller := Some ex_poller\<rparr>, Ok (Ok ()))"
    by (simp add: start_poller_def thread_start_def ex_poller_new)
  moreover have "start_runner ((thread_start proxy_world)\<lparr>th_poller := Some ex_poller\<rparr>) = (proxy_thread, Ok 0)"
    by (simp add: thread_start_def start_runner_def find_empty_def set_runner_def proxy_thread_def proxy_runner_def
        MAX_RUNNERS_def runners_table)
  ultimately show ?thesis
    using thread_reach.th_runner [OF thread_reach.th_poller [OF thread_reach.th_start]] by (metis fst_conv)
qed

lemma proxy_lend: "lend proxy_thread 0 = Ok proxy_runner"
  by (simp add: lend_def get_runner_def proxy_thread_def proxy_runner_def runner_int_new_def)

lemma proxy_idle: "idle proxy_runner"
  by (simp add: idle_def MAX_RUNNERS_def)

section \<open>Properties\<close>


lemma proxy_feeds:
  "feeds test_os_ops 4 2000 (proxy_world\<lparr>written := [(4, http_request (ascii ''h''))]\<rparr>) [[1, 2], [3]]
    (test_os_start\<lparr>written := [(4, http_request (ascii ''h''))]\<rparr>)"
proof -
  let ?w = "test_os_start\<lparr>written := [(4, http_request (ascii ''h''))]\<rparr>"
  have "feeds test_os_ops 4 2000 ?w [] ?w"
    by (rule feeds_block [where e = "IoError WouldBlock ''''"]) (simp_all add: test_os_ops_def script_read_def test_os_start_def)
  then have "feeds test_os_ops 4 2000 (?w\<lparr>script := [Ok [3]]\<rparr>) [[3]] ?w"
    by (rule feeds_data [rotated 3]) (simp_all add: test_os_ops_def script_read_def test_os_start_def)
  then have "feeds test_os_ops 4 2000 (?w\<lparr>script := [Ok [1, 2], Ok [3]]\<rparr>) [[1, 2], [3]] ?w"
    by (rule feeds_data [rotated 3]) (simp_all add: test_os_ops_def script_read_def test_os_start_def)
  then show ?thesis by (simp add: proxy_world_def test_os_start_def)
qed


text \<open>
  C19: the end of a web client.  When the runner takes a waiting client from its timeout queue, the client ends: \<^const>\<open>Done\<close>
  is queued for the main stack as its result, its socket is closed, its stack goes back to the poller and its slot is free.
\<close>

theorem client_ends_on_timeout:
  assumes "pos < length (r_fibers rt)" and "client_waiting con s pos (Some tk) v (r_fibers rt ! pos)"
  shows "\<exists>rt' fib. exec_timeout env pos rt = Some (rt', Ok ()) \<and> r_results rt' = r_results rt @ [Done] \<and>
    r_free_fibers rt' = r_free_fibers rt @ [pos] \<and> r_fibers rt' = (r_fibers rt)[pos := fib] \<and> f_state fib = Closed \<and>
    f_sock fib = S_Empty \<and> f_stack fib = None \<and>
    r_poller rt' = stack_push (r_poller rt) (the (f_stack (r_fibers rt ! pos)))"
  by (rule client_timeout [OF assms])

definition waiting_client :: "(proxy_param, proxy_resp, proxy_fn, nat) fiber_int" where
  "waiting_client = (new_fiber 0 (Some Get_http) (S_Tcp 4) None None (runner_id 0 0) 0)
     \<lparr>f_state := Stacked, f_timeout := Some (from_millis 1000), f_stack := Some 0, f_ready := ReadyReadable,
      f_wtoken := Some 3, f_t := Some (FiberCtx (At_read 2000) (after_read None (replicate 2000 0)))\<rparr>"

theorem client_ends_on_timeout_witness:
  "\<exists>rt'. exec_timeout proxy_env 0 (proxy_runner\<lparr>r_fibers := [waiting_client]\<rparr>) = Some (rt', Ok ()) \<and> r_results rt' = [Done] \<and>
    r_free_fibers rt' = [0]"
proof -
  have "client_waiting None 4 0 (Some 3) (replicate 2000 0) waiting_client"
    by (simp add: client_waiting_def client_fiber_def waiting_client_def new_fiber_def handle_id_def runner_id_handle)
  then show ?thesis
    using client_ends_on_timeout [of 0 "proxy_runner\<lparr>r_fibers := [waiting_client]\<rparr>" None 4 3 "replicate 2000 0" proxy_env] by auto
qed

text \<open>
  A web client does not survive a server that closes the connection.  The read that finds the socket closed fails with
  \<^verbatim>\<open>NotConnected\<close>, the assertion of \<^verbatim>\<open>get_http\<close> that the only error is a time-out does not hold, and the body panics.
\<close>

theorem client_panics_on_close:
  assumes "pos < length (r_fibers rt)" and "f_sock (r_fibers rt ! pos) = S_Tcp s"
    and "os_tcp_read (e_os env) s 2000 (r_world rt) = (w, Ok [])"
  shows "fiber_run env pos (Prog (body (get_http_step con) (GH_read v))) rt = Some (rt\<lparr>r_world := w\<rparr>, Panic)"
  by (rule client_closed [OF assms])

theorem client_panics_on_close_witness:
  "\<exists>rt'. fiber_run proxy_env 0 (Prog (body (get_http_step None) (GH_read [])))
      (proxy_runner\<lparr>r_fibers := [waiting_client], r_world := test_os_start\<lparr>script := [Ok []]\<rparr>\<rparr>) = Some (rt', Panic)"
  using client_panics_on_close [of 0 "proxy_runner\<lparr>r_fibers := [waiting_client], r_world := test_os_start\<lparr>script := [Ok []]\<rparr>\<rparr>" 4
      proxy_env "test_os_start" None "[]"]
  by (simp add: waiting_client_def new_fiber_def test_os_ops_def script_read_def test_os_start_def)

text \<open>
  The loop in which the main stack fetches the responses ends: it empties the queue of responses and subtracts from the
  requests that remain exactly the number of \<^const>\<open>Done\<close>s in it.
\<close>

theorem drain_responses_counts:
  assumes "lend th pos = Ok rt"
  shows "\<exists>th'. drain_responses pos remain th = Some (th', Ok (remain - int (count_list (r_results rt) Done))) \<and>
    lend th' pos = Ok (rt\<lparr>r_results := []\<rparr>)"
  by (rule drain_counts [OF assms])

theorem drain_responses_counts_witness:
  "\<exists>th'. drain_responses 0 20 (proxy_thread\<lparr>th_runners := [Some (proxy_runner\<lparr>r_results := [Bytes \<lparr>bs_buf = [1], bs_len = 1\<rparr>, Done, Done]\<rparr>)]\<rparr>)
    = Some (th', Ok 18)"
proof -
  have "lend (proxy_thread\<lparr>th_runners := [Some (proxy_runner\<lparr>r_results := [Bytes \<lparr>bs_buf = [1], bs_len = 1\<rparr>, Done, Done]\<rparr>)]\<rparr>) 0 =
      Ok (proxy_runner\<lparr>r_results := [Bytes \<lparr>bs_buf = [1], bs_len = 1\<rparr>, Done, Done]\<rparr>)"
    by (simp add: lend_def get_runner_def proxy_thread_def proxy_runner_def runner_int_new_def)
  from drain_responses_counts [OF this, of 20] show ?thesis by auto
qed

end
