(* ===== verification/Http_Server.thy ===== *)
theory Http_Server
  imports Http_Client
begin

text \<open>
  What the server of the test program does on the library: the listener gives every waiting connection a fiber, and
  the fiber of a connection writes the chunks of its child to its socket.
\<close>

section \<open>The listener\<close>

abbreviation sa :: "proxy_param \<Rightarrow> sock_acceptor_point \<Rightarrow> (proxy_param, proxy_resp, proxy_fn) prog" where
  "sa p \<equiv> body (sock_acceptor_step p)"

definition after_accept :: "proxy_param \<Rightarrow> proxy_resp resp \<Rightarrow> (proxy_param, proxy_resp, proxy_fn) prog" where
  "after_accept p x =
     sa p (case x of Rs_accept (Ok (s, _)) \<Rightarrow> SA_new s | Rs_accept (Err _) \<Rightarrow> SA_end | _ \<Rightarrow> SA_panic)"

lemma sock_acceptor_tree:
  "sa p SA_accept = Call Rq_accept_tcp (after_accept p)"
  "sa p (SA_new s) = Call (Rq_new_tcp s Rand_http_proxy p) (\<lambda>x. sa p (case x of Rs_io (Ok _) \<Rightarrow> SA_accept | _ \<Rightarrow> SA_panic))"
  "sa p SA_end = Return None"
  by (subst body.code, simp add: after_accept_def [abs_def])+

text \<open>Connections that wait at a listener: it accepts \<open>cs\<close> in turn and then would block.\<close>

inductive offers :: "'w os_ops \<Rightarrow> sock \<Rightarrow> 'w \<Rightarrow> sock list \<Rightarrow> 'w \<Rightarrow> bool" for os s where
  offers_none: "os_tcp_accept os s w = (w', Err e) \<Longrightarrow> io_kind e = WouldBlock \<Longrightarrow> offers os s w [] w'"
| offers_one: "os_tcp_accept os s w = (w1, Ok (c, a)) \<Longrightarrow> offers os s w1 cs w' \<Longrightarrow> offers os s w (c # cs) w'"

text \<open>The fiber of a connection, as the listener starts it.\<close>

definition serving :: "proxy_param \<Rightarrow> sock \<Rightarrow> (proxy_param, proxy_resp, proxy_fn, 'k) fiber_int \<Rightarrow> bool" where
  "serving p c fib \<longleftrightarrow> f_sock fib = S_Tcp c \<and> f_func fib = Some Rand_http_proxy \<and> f_param fib = Some p \<and> f_parent fib = None"

lemma run_accept:
  assumes "pos < length (r_fibers rt)" "f_sock (r_fibers rt ! pos) = S_Listener s"
    and "os_tcp_accept (e_os env) s (r_world rt) = (w, Ok (c, a))"
    and "\<forall>q \<in> set (r_free_fibers rt). q < length (r_fibers rt)" "r_pos rt < length (toexec_fibers (r_poller rt))"
  shows "fiber_run env pos (Prog (sa p SA_accept)) rt = fiber_run env pos (Prog (sa p SA_accept))
    ((placed rt Rand_http_proxy (S_Tcp c) p)\<lparr>r_world := w,
       r_poller := (r_poller rt)\<lparr>toexec_fibers := (toexec_fibers (r_poller rt))
         [r_pos rt := toexec_fibers (r_poller rt) ! r_pos rt @ [word_of_nat (free_slot rt)]]\<rparr>\<rparr>)"
proof -
  let ?rt = "rt\<lparr>r_world := w\<rparr>"
  let ?rt' = "(placed rt Rand_http_proxy (S_Tcp c) p)\<lparr>r_world := w,
       r_poller := (r_poller rt)\<lparr>toexec_fibers := (toexec_fibers (r_poller rt))
         [r_pos rt := toexec_fibers (r_poller rt) ! r_pos rt @ [word_of_nat (free_slot rt)]]\<rparr>\<rparr>"
  have "fiber_run env pos (Prog (sa p SA_accept)) rt = fiber_run env pos (Prog (after_accept p (Rs_accept (Ok (c, a))))) ?rt"
    unfolding sock_acceptor_tree(1)
    by (rule fiber_run_attempt [where pt = At_accept])
      (use assms(1-3) in \<open>simp_all add: call_turn_def at_turn_def accept_turn_def in_range on_world_def sock_accept_def\<close>)
  also have "\<dots> = fiber_run env pos (Prog (sa p (SA_new c))) ?rt" by (simp add: after_accept_def)
  also have "\<dots> = fiber_run env pos (Prog (sa p (case Rs_io (Ok ()) :: proxy_resp resp of Rs_io (Ok _) \<Rightarrow> SA_accept | _ \<Rightarrow> SA_panic))) ?rt'"
    unfolding sock_acceptor_tree(2)
  proof (rule fiber_run_answered)
    have fs: "free_slot ?rt = free_slot rt" "next_generation ?rt = next_generation rt" "fiber_id ?rt = fiber_id rt"
      by (simp_all add: free_slot_def next_generation_def fun_eq_iff fiber_id_def split: list.split)
    obtain rt'' where reg: "register env ?rt (Some Rand_http_proxy) (S_Tcp c) (Some p) None True = (rt'', Ok (Ok (free_slot rt)))"
      and "rt'' = ?rt\<lparr>r_free_fibers := tl (r_free_fibers rt),
        r_fibers := put_fiber (r_fibers rt) (free_slot rt) (placed_fiber rt Rand_http_proxy (S_Tcp c) p), r_poller := r_poller ?rt'\<rparr>"
      using place_fiber_plain [of "S_Tcp c" ?rt env "Some Rand_http_proxy" "Some p" None] assms(4,5)
      by (simp add: register_def in_range placed_fiber_def fs)
    then have "rt'' = ?rt'" by (intro runner_int.equality) (simp_all add: placed_def)
    with reg show "call_turn env ?rt pos (Rq_new_tcp c Rand_http_proxy p) = (?rt', Ok (Finish (Rs_io (Ok ()))))"
      by (simp add: call_turn_def started_def)
  qed
  finally show ?thesis by simp
qed


lemma in_tl: "x \<in> set (tl xs) \<Longrightarrow> x \<in> set xs"
  by (cases xs) auto

text \<open>
  Connections \<open>cs\<close> have got fibers in \<open>slots\<close>: distinct ones that were free or new, queued in order, with every other fiber
  as it was.
\<close>

definition admitted :: "proxy_param \<Rightarrow> sock list \<Rightarrow> nat list \<Rightarrow> ('w, 's, 'k, proxy_param, proxy_resp, proxy_fn) runner_int \<Rightarrow>
    ('w, 's, 'k, proxy_param, proxy_resp, proxy_fn) runner_int \<Rightarrow> bool" where
  "admitted p cs slots rt rt' \<longleftrightarrow> length slots = length cs \<and> distinct slots \<and>
    (\<forall>q \<in> set slots. q \<in> set (r_free_fibers rt) \<or> length (r_fibers rt) \<le> q) \<and>
    toexec_fibers (r_poller rt') = (toexec_fibers (r_poller rt))
      [r_pos rt := toexec_fibers (r_poller rt) ! r_pos rt @ map word_of_nat slots] \<and>
    (\<forall>j < length cs. slots ! j < length (r_fibers rt') \<and> serving p (cs ! j) (r_fibers rt' ! (slots ! j))) \<and>
    length (r_fibers rt) \<le> length (r_fibers rt') \<and>
    (\<forall>q < length (r_fibers rt). q \<notin> set slots \<longrightarrow> r_fibers rt' ! q = r_fibers rt ! q)"

lemma admitted_Nil: "admitted p [] [] rt (rt\<lparr>r_world := w\<rparr>)"
  by (simp add: admitted_def)

lemma admitted_Cons:
  assumes one: "admitted p [c] [q] rt rt1" and more: "admitted p cs slots rt1 rt'"
    and "r_pos rt1 = r_pos rt" "r_pos rt < length (toexec_fibers (r_poller rt))"
    and free: "set (r_free_fibers rt1) \<subseteq> set (r_free_fibers rt)" "q \<notin> set (r_free_fibers rt1)"
  shows "admitted p (c # cs) (q # slots) rt rt'"
proof -
  have q: "q < length (r_fibers rt1)" "serving p c (r_fibers rt1 ! q)" "length (r_fibers rt) \<le> length (r_fibers rt1)"
    "\<forall>x < length (r_fibers rt). x \<noteq> q \<longrightarrow> r_fibers rt1 ! x = r_fibers rt ! x"
    using one by (auto simp: admitted_def)
  have nq: "q \<notin> set slots" using more q(1) free(2) by (auto simp: admitted_def)
  have "serving p c (r_fibers rt' ! q)" "q < length (r_fibers rt')" using more q(1,2) nq by (auto simp: admitted_def)
  then have "\<forall>j < length (c # cs). (q # slots) ! j < length (r_fibers rt') \<and> serving p ((c # cs) ! j) (r_fibers rt' ! ((q # slots) ! j))"
    using more by (auto simp: admitted_def nth_Cons split: nat.split)
  moreover have "\<forall>x \<in> set (q # slots). x \<in> set (r_free_fibers rt) \<or> length (r_fibers rt) \<le> x"
    using one more free(1) q(3) unfolding admitted_def by fastforce
  moreover have "\<forall>x < length (r_fibers rt). x \<notin> set (q # slots) \<longrightarrow> r_fibers rt' ! x = r_fibers rt ! x"
    using more q(3,4) by (auto simp: admitted_def)
  moreover have "toexec_fibers (r_poller rt') = (toexec_fibers (r_poller rt))
      [r_pos rt := toexec_fibers (r_poller rt) ! r_pos rt @ map word_of_nat (q # slots)]"
    using one more assms(3,4) by (simp add: admitted_def)
  ultimately show ?thesis using one more nq q(3) by (auto simp: admitted_def)
qed

lemma acceptor_admits:
  assumes "offers (e_os env) s w cs w'" "r_world rt = w" "pos < length (r_fibers rt)" "f_sock (r_fibers rt ! pos) = S_Listener s"
    and "\<forall>q \<in> set (r_free_fibers rt). q < length (r_fibers rt)" "distinct (r_free_fibers rt)" "pos \<notin> set (r_free_fibers rt)"
    and "r_pos rt < length (toexec_fibers (r_poller rt))"
  shows "\<exists>rt' slots. fiber_run env pos (Prog (sa p SA_accept)) rt = Some (rt', Ok (Suspended At_accept (after_accept p))) \<and>
    admitted p cs slots rt rt'"
  using assms
proof (induction arbitrary: rt rule: offers.induct)
  case (offers_none w w' e)
  have "fiber_run env pos (Prog (sa p SA_accept)) rt = Some (rt\<lparr>r_world := w'\<rparr>, Ok (Suspended At_accept (after_accept p)))"
    unfolding sock_acceptor_tree(1)
    by (rule fiber_run_blocks [where pt = At_accept])
      (use offers_none in \<open>simp_all add: call_turn_def at_turn_def accept_turn_def in_range on_world_def sock_accept_def\<close>)
  then show ?case using admitted_Nil [of p rt w'] by blast
next
  case (offers_one w w1 c a cs w')
  note pr = offers_one.prems
  let ?q = "free_slot rt"
  let ?rt = "(placed rt Rand_http_proxy (S_Tcp c) p)\<lparr>r_world := w1,
       r_poller := (r_poller rt)\<lparr>toexec_fibers := (toexec_fibers (r_poller rt))
         [r_pos rt := toexec_fibers (r_poller rt) ! r_pos rt @ [word_of_nat ?q]]\<rparr>\<rparr>"
  have run: "fiber_run env pos (Prog (sa p SA_accept)) rt = fiber_run env pos (Prog (sa p SA_accept)) ?rt"
    by (rule run_accept [OF pr(2,3)]) (use offers_one.hyps(1) pr in auto)
  have q: "?q \<in> set (r_free_fibers rt) \<or> ?q = length (r_fibers rt)" "?q \<notin> set (tl (r_free_fibers rt))"
    using pr(4,5) by (cases "r_free_fibers rt"; auto simp: free_slot_def)+
  have len: "length (r_fibers ?rt) = max (length (r_fibers rt)) (?q + 1)"
    "r_fibers ?rt ! ?q = placed_fiber rt Rand_http_proxy (S_Tcp c) p"
    "\<And>i. i < length (r_fibers rt) \<Longrightarrow> i \<noteq> ?q \<Longrightarrow> r_fibers ?rt ! i = r_fibers rt ! i"
    using q(1) pr(4) by (auto simp: placed_def put_fiber_def nth_append)
  have ne: "pos \<noteq> ?q" using q(1) pr(2,6) by auto
  have one: "admitted p [c] [?q] rt ?rt" using q(1) len by (auto simp: admitted_def serving_def)
  have "\<exists>rt' slots. fiber_run env pos (Prog (sa p SA_accept)) ?rt = Some (rt', Ok (Suspended At_accept (after_accept p))) \<and>
      admitted p cs slots ?rt rt'"
    by (rule offers_one.IH) (use pr len ne in \<open>auto dest!: in_tl simp: distinct_tl less_max_iff_disj\<close>)
  then obtain rt' slots where more: "fiber_run env pos (Prog (sa p SA_accept)) ?rt = Some (rt', Ok (Suspended At_accept (after_accept p)))"
    "admitted p cs slots ?rt rt'" by blast
  have "admitted p (c # cs) (?q # slots) rt rt'"
    by (rule admitted_Cons [OF one more(2)]) (use pr q(2) in \<open>auto dest: in_tl\<close>)
  then show ?case using run more(1) by auto
qed

section \<open>Forwarding\<close>

abbreviation rp :: "usize \<Rightarrow> u8 \<Rightarrow> rand_http_proxy_point \<Rightarrow> (proxy_param, proxy_resp, proxy_fn) prog" where
  "rp r1 r2 \<equiv> body (rand_http_proxy_step r1 r2)"

definition after_child :: "usize \<Rightarrow> u8 \<Rightarrow> proxy_resp resp \<Rightarrow> (proxy_param, proxy_resp, proxy_fn) prog" where
  "after_child r1 r2 x = rp r1 r2 (case x of
         Rs_opt (Some (Bytes sl)) \<Rightarrow> RP_write (slice_bytes sl)
       | Rs_opt (Some Done) \<Rightarrow> RP_children
       | Rs_opt None \<Rightarrow> RP_end
       | _ \<Rightarrow> RP_panic)"

lemma rand_http_proxy_tree:
  "rp r1 r2 RP_children = Call Rq_get_child (after_child r1 r2)"
  "rp r1 r2 (RP_write bs) = Call (Rq_write bs) (\<lambda>_. rp r1 r2 RP_children)"
  "rp r1 r2 RP_end = Return None"
  by (subst body.code, simp add: after_child_def [abs_def])+

text \<open>A child that has a response and goes on: its response is taken and it is queued to run.\<close>

lemma child_turn_chunk:
  assumes par: "parent < length (r_fibers rt)"
    and cs: "\<forall>c \<in> set (f_children (r_fibers rt ! parent)). c < length (r_fibers rt) \<and> c \<noteq> parent"
    and q: "r_pos rt < length (toexec_fibers (r_poller rt))"
    and c: "find (child_ready (r_fibers rt)) (f_children (r_fibers rt ! parent)) = Some c"
    and res: "f_result (r_fibers rt ! c) = Some x" "f_state (r_fibers rt ! c) \<noteq> Closed"
  shows "child_turn rt parent =
    (rt\<lparr>r_fibers := (r_fibers rt)[c := (r_fibers rt ! c)\<lparr>f_result := None\<rparr>],
        r_poller := (r_poller rt)\<lparr>toexec_fibers := (toexec_fibers (r_poller rt))
          [r_pos rt := toexec_fibers (r_poller rt) ! r_pos rt @ [word_of_nat c]]\<rparr>\<rparr>, Ok (Finish (Rs_opt (Some x))))"
proof -
  let ?cs = "f_children (r_fibers rt ! parent)"
  have cs': "\<forall>c \<in> set ?cs. c < length (r_fibers rt)" using cs by blast
  obtain n where n: "n < length ?cs" "?cs ! n = c" "find_child (r_fibers rt) 0 ?cs = Ok (Some (n, c))"
    using find_child_some [OF cs' c, of 0] by auto
  have cin: "c < length (r_fibers rt)" "c \<noteq> parent" "?cs \<noteq> []" using cs n(1,2) nth_mem by (blast, blast, auto)
  then show ?thesis using par n(3) q res by (simp add: child_turn_def in_range lift_def)
qed

lemma proxy_forwards:
  assumes par: "parent < length (r_fibers rt)" "f_sock (r_fibers rt ! parent) = S_Tcp s"
    and cs: "\<forall>c \<in> set (f_children (r_fibers rt ! parent)). c < length (r_fibers rt) \<and> c \<noteq> parent"
    and q: "r_pos rt < length (toexec_fibers (r_poller rt))"
    and c: "find (child_ready (r_fibers rt)) (f_children (r_fibers rt ! parent)) = Some c"
    and res: "f_result (r_fibers rt ! c) = Some (Bytes sl)" "f_state (r_fibers rt ! c) \<noteq> Closed"
    and wr: "os_tcp_write (e_os env) s (slice_bytes sl) (r_world rt) = (w, Ok n)" "slice_bytes sl \<noteq> []"
  shows "fiber_run env parent (Prog (rp r1 r2 RP_children)) rt = fiber_run env parent (Prog (rp r1 r2 RP_children))
    (rt\<lparr>r_fibers := (r_fibers rt)[c := (r_fibers rt ! c)\<lparr>f_result := None\<rparr>],
        r_poller := (r_poller rt)\<lparr>toexec_fibers := (toexec_fibers (r_poller rt))
          [r_pos rt := toexec_fibers (r_poller rt) ! r_pos rt @ [word_of_nat c]]\<rparr>, r_world := w\<rparr>)"
proof -
  let ?rt = "rt\<lparr>r_fibers := (r_fibers rt)[c := (r_fibers rt ! c)\<lparr>f_result := None\<rparr>],
        r_poller := (r_poller rt)\<lparr>toexec_fibers := (toexec_fibers (r_poller rt))
          [r_pos rt := toexec_fibers (r_poller rt) ! r_pos rt @ [word_of_nat c]]\<rparr>\<rparr>"
  have cp: "c \<noteq> parent" using c cs by (auto simp: find_Some_iff)
  have "fiber_run env parent (Prog (rp r1 r2 RP_children)) rt = fiber_run env parent (Prog (after_child r1 r2 (Rs_opt (Some (Bytes sl))))) ?rt"
    unfolding rand_http_proxy_tree(1)
    by (rule fiber_run_attempt [where pt = At_child_iter])
      (simp_all add: call_turn_def at_turn_def child_turn_chunk [OF par(1) cs q c res])
  also have "\<dots> = fiber_run env parent (Prog (rp r1 r2 (RP_write (slice_bytes sl)))) ?rt" by (simp add: after_child_def)
  also have "\<dots> = fiber_run env parent (Prog (rp r1 r2 RP_children)) (?rt\<lparr>r_world := w\<rparr>)"
    unfolding rand_http_proxy_tree(2)
    by (rule fiber_run_attempt [where pt = "At_write (slice_bytes sl)" and x = "Rs_write (Ok n)"])
      (use par cp wr in \<open>simp_all add: call_turn_def at_turn_def write_turn_def in_range on_world_def sock_write_def\<close>)
  finally show ?thesis by simp
qed

section \<open>Properties\<close>

text \<open>
  C12: the listener of the proxy serves every connection that waits.  Resumed with the connections \<open>cs\<close> pending, the
  \<^verbatim>\<open>sock_acceptor\<close> fiber accepts them all before it waits again, and each gets a fiber of its own that runs
  \<^verbatim>\<open>rand_http_proxy\<close> on its socket with the listener's parameter: the fibers stand in distinct slots that were free or
  new and are queued to run in the order of the connections; no other fiber has changed.
\<close>

theorem acceptor_serves_connections:
  assumes "runner_ok rt" and "pos < length (r_fibers rt)" and "f_sock (r_fibers rt ! pos) = S_Listener s"
    and "distinct (r_free_fibers rt)" and "pos \<notin> set (r_free_fibers rt)" and "r_pos rt < length (toexec_fibers (r_poller rt))"
    and "offers (e_os env) s (r_world rt) cs w'"
  shows "\<exists>rt' k slots. fiber_run env pos (Prog (sock_acceptor p)) rt = Some (rt', Ok (Suspended At_accept k)) \<and>
    length slots = length cs \<and> distinct slots \<and>
    (\<forall>q \<in> set slots. q \<in> set (r_free_fibers rt) \<or> length (r_fibers rt) \<le> q) \<and>
    toexec_fibers (r_poller rt') ! r_pos rt = toexec_fibers (r_poller rt) ! r_pos rt @ map word_of_nat slots \<and>
    (\<forall>j < length cs. slots ! j < length (r_fibers rt') \<and> serving p (cs ! j) (r_fibers rt' ! (slots ! j))) \<and>
    (\<forall>q < length (r_fibers rt). q \<notin> set slots \<longrightarrow> r_fibers rt' ! q = r_fibers rt ! q)"
proof -
  have "\<forall>q \<in> set (r_free_fibers rt). q < length (r_fibers rt)" using assms(1) by (simp add: runner_ok_def)
  from acceptor_admits [OF assms(7) refl assms(2,3) this assms(4-6), of p] obtain rt' slots where
    run: "fiber_run env pos (Prog (sa p SA_accept)) rt = Some (rt', Ok (Suspended At_accept (after_accept p)))" and
    adm: "admitted p cs slots rt rt'"
    by blast
  have "toexec_fibers (r_poller rt') ! r_pos rt = toexec_fibers (r_poller rt) ! r_pos rt @ map word_of_nat slots"
    using adm assms(6) by (simp add: admitted_def)
  then show ?thesis using run adm unfolding sock_acceptor_def admitted_def by blast
qed

definition two_waiting :: "test_os os_ops" where
  "two_waiting = test_os_ops\<lparr>os_tcp_accept := (\<lambda>s w. case seed w of
     n \<Rightarrow> if n < 7 then (w\<lparr>seed := n + 1\<rparr>, Ok (unat n, SocketAddr (V4 0) 1)) else (w, Err (IoError WouldBlock '''')))\<rparr>"

definition listening :: "(test_os, entry vec_slab, nat, proxy_param, proxy_resp, proxy_fn) runner_int" where
  "listening = proxy_runner\<lparr>r_fibers := [new_fiber 0 (Some Sock_acceptor) (S_Listener 3) None None (runner_id 0 0) 0]\<rparr>"

lemma two_waiting_offers: "offers two_waiting 3 proxy_world [5, 6] (proxy_world\<lparr>seed := 7\<rparr>)"
proof -
  have "offers two_waiting 3 (proxy_world\<lparr>seed := 7\<rparr>) [] (proxy_world\<lparr>seed := 7\<rparr>)"
    by (rule offers_none [where e = "IoError WouldBlock ''''"]) (simp_all add: two_waiting_def)
  then have "offers two_waiting 3 (proxy_world\<lparr>seed := 6\<rparr>) [6] (proxy_world\<lparr>seed := 7\<rparr>)"
    by (rule offers_one [rotated]) (simp add: two_waiting_def)
  then show ?thesis
    by (rule offers_one [rotated]) (simp add: two_waiting_def proxy_world_def test_os_start_def)
qed

theorem acceptor_serves_connections_witness:
  "\<exists>rt' k slots. fiber_run (proxy_env\<lparr>e_os := two_waiting\<rparr>) 0 (Prog (sock_acceptor listener_param)) listening
      = Some (rt', Ok (Suspended At_accept k)) \<and> length slots = 2 \<and> distinct slots \<and>
    serving listener_param 5 (r_fibers rt' ! (slots ! 0)) \<and> serving listener_param 6 (r_fibers rt' ! (slots ! 1))"
proof -
  have l: "runner_ok listening" "r_fibers listening = [new_fiber 0 (Some Sock_acceptor) (S_Listener 3) None None (runner_id 0 0) 0]"
    "r_free_fibers listening = []" "r_pos listening = 0" "r_poller listening = ex_poller" "r_world listening = proxy_world"
    by (simp_all add: listening_def runner_ok_def fiber_ok_def new_fiber_def proxy_runner_def runner_int_new_def)
  have "offers (e_os (proxy_env\<lparr>e_os := two_waiting\<rparr>)) 3 (r_world listening) [5, 6] (proxy_world\<lparr>seed := 7\<rparr>)"
    using two_waiting_offers by (simp add: l)
  from acceptor_serves_connections [OF l(1) _ _ _ _ _ this, of 0 listener_param]
  obtain rt' k slots where "fiber_run (proxy_env\<lparr>e_os := two_waiting\<rparr>) 0 (Prog (sock_acceptor listener_param)) listening
      = Some (rt', Ok (Suspended At_accept k))" "length slots = Suc (Suc 0)" "distinct slots"
    and s: "\<forall>j < length [5, 6 :: nat]. slots ! j < length (r_fibers rt') \<and> serving listener_param ([5, 6] ! j) (r_fibers rt' ! (slots ! j))"
    by (auto simp: l new_fiber_def MAX_RUNNERS_def)
  moreover have "serving listener_param 5 (r_fibers rt' ! (slots ! 0))" "serving listener_param 6 (r_fibers rt' ! (slots ! 1))"
    using s [rule_format, of 0] s [rule_format, of 1] by simp_all
  ultimately show ?thesis by (metis numeral_2_eq_2)
qed

text \<open>
  C18: the proxy forwards.  When the child of a connection's fiber has a chunk, \<^verbatim>\<open>rand_http_proxy\<close> takes it, writes exactly these
  bytes to the socket of its own connection and asks for the next response; the child that handed the chunk over is queued to
  run on.  (The child is suspended until then, so that the slice still shows its chunk; a write that would block is not covered:
  it would read the slice again after the child has run on.)
\<close>

theorem proxy_forwards_chunk:
  assumes "parent < length (r_fibers rt)" and "f_sock (r_fibers rt ! parent) = S_Tcp s"
    and "\<forall>c \<in> set (f_children (r_fibers rt ! parent)). c < length (r_fibers rt) \<and> c \<noteq> parent"
    and "r_pos rt < length (toexec_fibers (r_poller rt))"
    and "find (child_ready (r_fibers rt)) (f_children (r_fibers rt ! parent)) = Some c"
    and "f_result (r_fibers rt ! c) = Some (Bytes sl)" and "f_state (r_fibers rt ! c) \<noteq> Closed"
    and "os_tcp_write (e_os env) s (slice_bytes sl) (r_world rt) = (w, Ok n)" and "slice_bytes sl \<noteq> []"
  shows "fiber_run env parent (Prog (body (rand_http_proxy_step r1 r2) RP_children)) rt =
    fiber_run env parent (Prog (body (rand_http_proxy_step r1 r2) RP_children))
      (rt\<lparr>r_fibers := (r_fibers rt)[c := (r_fibers rt ! c)\<lparr>f_result := None\<rparr>],
          r_poller := (r_poller rt)\<lparr>toexec_fibers := (toexec_fibers (r_poller rt))
            [r_pos rt := toexec_fibers (r_poller rt) ! r_pos rt @ [word_of_nat c]]\<rparr>, r_world := w\<rparr>)"
  by (rule proxy_forwards [OF assms])

definition proxying :: "(test_os, entry vec_slab, nat, proxy_param, proxy_resp, proxy_fn) runner_int" where
  "proxying = proxy_runner\<lparr>r_fibers :=
     [(new_fiber 0 (Some Rand_http_proxy) (S_Tcp 5) None None (runner_id 0 0) 0)\<lparr>f_children := [1]\<rparr>,
      waiting_client\<lparr>f_parent := Some 0, f_result := Some (Bytes \<lparr>bs_buf = [1, 2, 0], bs_len = 2\<rparr>)\<rparr>]\<rparr>"

theorem proxy_forwards_chunk_witness:
  "\<exists>rt'. fiber_run proxy_env 0 (Prog (body (rand_http_proxy_step 0 0) RP_children)) proxying =
      fiber_run proxy_env 0 (Prog (body (rand_http_proxy_step 0 0) RP_children)) rt' \<and>
    written (r_world rt') = [(5, [1, 2])] \<and> f_result (r_fibers rt' ! 1) = None"
proof -
  have l: "r_fibers proxying = [(new_fiber 0 (Some Rand_http_proxy) (S_Tcp 5) None None (runner_id 0 0) 0)\<lparr>f_children := [1]\<rparr>,
      waiting_client\<lparr>f_parent := Some 0, f_result := Some (Bytes \<lparr>bs_buf = [1, 2, 0], bs_len = 2\<rparr>)\<rparr>]" "r_pos proxying = 0" "r_poller proxying = ex_poller"
    "r_world proxying = proxy_world"
    by (simp_all add: proxying_def)
  have "os_tcp_write (e_os proxy_env) 5 (slice_bytes \<lparr>bs_buf = [1, 2, 0], bs_len = 2\<rparr>) (r_world proxying) = (proxy_world\<lparr>written := [(5, [1, 2])]\<rparr>, Ok 2)"
    by (simp add: l test_os_ops_def log_write_def proxy_world_def test_os_start_def slice_bytes_def slice_now_def)
  from proxy_forwards_chunk [OF _ _ _ _ _ _ _ this, of 0 1 0 0]
  have "fiber_run proxy_env 0 (Prog (rp 0 0 RP_children)) proxying = fiber_run proxy_env 0 (Prog (rp 0 0 RP_children))
      (proxying\<lparr>r_fibers := (r_fibers proxying)[1 := (r_fibers proxying ! 1)\<lparr>f_result := None\<rparr>],
          r_poller := (r_poller proxying)\<lparr>toexec_fibers := (toexec_fibers (r_poller proxying))
            [r_pos proxying := toexec_fibers (r_poller proxying) ! r_pos proxying @ [word_of_nat 1]]\<rparr>,
          r_world := proxy_world\<lparr>written := [(5, [1, 2])]\<rparr>\<rparr>)"
    by (simp add: l new_fiber_def waiting_client_def child_ready_def MAX_RUNNERS_def slice_bytes_def slice_now_def)
  then show ?thesis by (rule exI [where P = "\<lambda>rt'. _ = fiber_run _ _ _ rt' \<and> _ rt'", OF conjI]) (simp add: l)
qed

end
