(* ===== verification/Http_Start.thy ===== *)
theory Http_Start
  imports Http_Server
begin

text \<open>
  How the test program starts: its poller, its runner, the listener and the clients, on a fresh thread.
\<close>

section \<open>Registering on the main stack\<close>

lemma lend_give_back:
  "pos < length (th_runners th) \<Longrightarrow> lend (fst (give_back th pos (rt, x))) pos = Ok rt"
  "length (th_runners (fst (give_back th pos (rt, x)))) = length (th_runners th)"
  by (simp_all add: give_back_def lend_def get_runner_def)

text \<open>A fiber of the main stack on a runner without free slots: it is appended and queued.\<close>

definition enlisted ::
  "('w, 's, 'k, 'p, 'r, 'f) runner_int \<Rightarrow> ('p, 'r, 'f, 'k) fiber_int list \<Rightarrow> ('w, 's, 'k, 'p, 'r, 'f) runner_int" where
  "enlisted rt fibs = rt\<lparr>r_fibers := r_fibers rt @ fibs,
     r_poller := (r_poller rt)\<lparr>toexec_fibers := (toexec_fibers (r_poller rt))[r_pos rt :=
       toexec_fibers (r_poller rt) ! r_pos rt @ map word_of_nat [length (r_fibers rt) ..< length (r_fibers rt) + length fibs]]\<rparr>\<rparr>"

lemma enlisted_simps [simp]:
  "r_fibers (enlisted rt fibs) = r_fibers rt @ fibs" "r_free_fibers (enlisted rt fibs) = r_free_fibers rt"
  "r_pos (enlisted rt fibs) = r_pos rt" "r_world (enlisted rt fibs) = r_world rt"
  "toexec_fibers (r_poller (enlisted rt fibs)) = (toexec_fibers (r_poller rt))[r_pos rt :=
     toexec_fibers (r_poller rt) ! r_pos rt @ map word_of_nat [length (r_fibers rt) ..< length (r_fibers rt) + length fibs]]"
  by (simp_all add: enlisted_def)

lemma enlisted_nil: "r_pos rt < length (toexec_fibers (r_poller rt)) \<Longrightarrow> enlisted rt [] = rt"
  by (simp add: enlisted_def)

lemma enlisted_append:
  assumes "r_pos rt < length (toexec_fibers (r_poller rt))"
  shows "enlisted (enlisted rt fs) gs = enlisted rt (fs @ gs)"
proof -
  let ?n = "length (r_fibers rt)"
  have "[?n ..< ?n + length fs] @ [?n + length fs ..< ?n + length fs + length gs] = [?n ..< ?n + length (fs @ gs)]"
    using upt_add_eq_append [of ?n "?n + length fs" "length gs"] by (simp add: add.assoc)
  then show ?thesis using assms by (simp add: enlisted_def add.assoc flip: map_append)
qed

definition client_on :: "('w, 's, 'k, proxy_param, proxy_resp, proxy_fn) runner_int \<Rightarrow> nat \<Rightarrow> sock \<Rightarrow>
    (proxy_param, proxy_resp, proxy_fn, 'k) fiber_int" where
  "client_on rt n s = new_fiber (r_pos rt) (Some Get_http) (S_Tcp s) (Some client_param) None (fiber_id rt n) 0"

fun clients_on :: "('w, 's, 'k, proxy_param, proxy_resp, proxy_fn) runner_int \<Rightarrow> nat \<Rightarrow> sock list \<Rightarrow>
    (proxy_param, proxy_resp, proxy_fn, 'k) fiber_int list" where
  "clients_on rt n [] = []"
| "clients_on rt n (s # ss) = client_on rt n s # clients_on rt (Suc n) ss"

lemma clients_on_length [simp]: "length (clients_on rt n ss) = length ss"
  by (induction ss arbitrary: n) simp_all

lemma clients_on_nth: "i < length ss \<Longrightarrow> clients_on rt n ss ! i = client_on rt (n + i) (ss ! i)"
  by (induction ss arbitrary: n i) (auto simp: nth_Cons split: nat.split)

lemma clients_on_cong: "r_pos rt = r_pos rt' \<Longrightarrow> clients_on rt n ss = clients_on rt' n ss"
  by (induction ss arbitrary: n) (simp_all add: client_on_def fiber_id_def)

lemma register_client:
  assumes "r_free_fibers rt = []" "r_pos rt < length (toexec_fibers (r_poller rt))"
  shows "register env rt (Some Get_http) (S_Tcp s) (Some client_param) None True =
    (enlisted rt [client_on rt (length (r_fibers rt)) s], Ok (Ok (length (r_fibers rt))))"
  using assms by (simp add: register_def place_fiber_def pop_front_def watch_listener_def new_fiber_def push_toexec_def
      on_poller_def in_range enlisted_def client_on_def)

lemma start_clients_enlists:
  assumes "lend th pos = Ok rt" "pos < length (th_runners th)" "r_free_fibers rt = []" "r_pos rt < length (toexec_fibers (r_poller rt))"
  shows "\<exists>th'. start_clients env pos socks th = (th', Ok ()) \<and>
    lend th' pos = Ok (enlisted rt (clients_on rt (length (r_fibers rt)) socks))"
  using assms
proof (induction socks arbitrary: th rt)
  case Nil
  then show ?case by (simp add: enlisted_nil)
next
  case (Cons s socks)
  let ?n = "length (r_fibers rt)"
  let ?rt = "enlisted rt [client_on rt ?n s]"
  let ?th = "fst (give_back th pos (?rt, Ok (Ok ()) :: (unit, (io_error, unit) res) res))"
  have "main_new_tcp env th pos s Get_http client_param = (?th, Ok (Ok ()))"
    using Cons.prems by (simp add: main_new_tcp_def with_runner_def register_client no_position_def give_back_def)
  moreover have "\<exists>th'. start_clients env pos socks ?th = (th', Ok ()) \<and>
      lend th' pos = Ok (enlisted ?rt (clients_on ?rt (length (r_fibers ?rt)) socks))"
    using Cons.prems by (intro Cons.IH) (simp_all add: lend_give_back)
  moreover have "clients_on ?rt (length (r_fibers ?rt)) socks = clients_on rt (Suc ?n) socks"
    using clients_on_cong [of ?rt rt] by simp
  ultimately show ?case using Cons.prems(4) by (simp add: enlisted_append)
qed

lemma register_listener:
  assumes "r_free_fibers rt = []" "r_pos rt < length (toexec_fibers (r_poller rt))"
    and "os_register (e_os env) s (fiber_id rt (length (r_fibers rt))) ReadyReadable (r_world rt) = (w, Ok ())"
  shows "register env rt (Some f) (S_Listener s) (Some p) None True =
    (enlisted (rt\<lparr>r_world := w\<rparr>)
       [(new_fiber (r_pos rt) (Some f) (S_Listener s) (Some p) None (fiber_id rt (length (r_fibers rt))) 0)\<lparr>f_ready := ReadyReadable\<rparr>],
     Ok (Ok (length (r_fibers rt))))"
  using assms by (simp add: register_def place_fiber_def pop_front_def watch_listener_def new_fiber_def push_toexec_def
      on_poller_def in_range enlisted_def fiber_register_def sock_evented_def)

lemma get_google_ok: "get_google = Ok [V4 0x08080808, V4 0x08080404]"
  using parse_ip_dotted [of "[8, 8, 8, 8]"] parse_ip_dotted [of "[8, 8, 4, 4]"]
  by (simp add: get_google_def dotted_def dec3_def octets_u32_def)

lemma poller_int_new_started:
  obtains p :: "('s, 'k) poller_int" where "poller_int_new sl ssize (Ok ()) contents now = Ok p"
    "toexec_fibers p = replicate MAX_RUNNERS []"
proof -
  obtain w where "wheel_new sl (tick_duration timer_builder_new (from_millis TICK_MS)) now = Ok w"
    by (simp add: wheel_new_def timer_config_defs)
  moreover obtain d where "dns_new contents = Ok d" by (cases contents) (auto simp: dns_new_def get_dns_servers_def get_google_ok)
  ultimately have "poller_int_new sl ssize (Ok ()) contents now = Ok \<lparr>free_stacks = [], pl_wheel = w, stack_size = ssize, pl_dns = d,
      toexec_fibers = replicate MAX_RUNNERS [], timedout_fibers = replicate MAX_RUNNERS [], lookup_results = replicate MAX_RUNNERS []\<rparr>"
    by (simp add: poller_int_new_def)
  then show thesis by (rule that) simp
qed

section \<open>Property\<close>

text \<open>
  C17: the start of the test program.  On a fresh thread, when the system creates the poll and accepts the listener, the program gets the first
  runner; its fiber 0 is the listener, watched for connections, fiber \<open>i + 1\<close> is the client on the socket of request \<open>i\<close>, each
  with its function and parameter, and all of them are queued to run in this order, while the queues of the other runners are
  empty.
\<close>

theorem http_proxy_starts:
  fixes env :: "('w, 's, 'k, proxy_param, proxy_resp, proxy_fn) env"
  assumes "os_register (e_os env) listener (runner_id 0 0) ReadyReadable w = (w', Ok ())"
  shows "\<exists>th rt. http_proxy_start env (Ok ()) contents now listener socks (thread_start w) = (th, Ok 0) \<and> lend th 0 = Ok rt \<and>
    r_world rt = w' \<and> r_pos rt = 0 \<and> length (r_fibers rt) = length socks + 1 \<and>
    r_fibers rt ! 0 = (new_fiber 0 (Some Sock_acceptor) (S_Listener listener) (Some listener_param) None (runner_id 0 0) 0)
      \<lparr>f_ready := ReadyReadable\<rparr> \<and>
    (\<forall>i < length socks. r_fibers rt ! (i + 1) =
       new_fiber 0 (Some Get_http) (S_Tcp (socks ! i)) (Some client_param) None (runner_id 0 (i + 1)) 0) \<and>
    toexec_fibers (r_poller rt) = map word_of_nat [0 ..< length socks + 1] # replicate (MAX_RUNNERS - 1) []"
proof -
  obtain p :: "('s, 'k) poller_int" where p: "poller_int_new (e_slab env) (Some (4096 * 10)) (Ok ()) contents now = Ok p"
    "toexec_fibers p = replicate MAX_RUNNERS []" by (rule poller_int_new_started)
  let ?rt0 = "runner_int_new 0 p w :: ('w, 's, 'k, proxy_param, proxy_resp, proxy_fn) runner_int"
  define th0 where "th0 = (thread_start w)\<lparr>th_poller := Some p, th_runners := (replicate MAX_RUNNERS None)[0 := Some ?rt0]\<rparr>"
  let ?lf = "(new_fiber 0 (Some Sock_acceptor) (S_Listener listener) (Some listener_param) None (runner_id 0 0) 0)\<lparr>f_ready := ReadyReadable\<rparr>"
  let ?rt1 = "enlisted (?rt0\<lparr>r_world := w'\<rparr>) [?lf]"
  define th1 where "th1 = fst (give_back th0 0 (?rt1, Ok (Ok ()) :: (unit, (io_error, unit) res) res))"
  have rt0: "r_free_fibers ?rt0 = []" "r_pos ?rt0 = 0" "r_fibers ?rt0 = []" "r_world ?rt0 = w" "r_poller ?rt0 = p"
    by (simp_all add: runner_int_new_def)
  have sp: "start_poller (e_slab env) (Some (4096 * 10)) (Ok ()) contents now (thread_start w) =
      ((thread_start w :: ('w, 's, 'k, proxy_param, proxy_resp, proxy_fn) thread)\<lparr>th_poller := Some p\<rparr>, Ok (Ok ()))"
    using p(1) by (simp add: start_poller_def thread_start_def)
  have sr: "start_runner ((thread_start w)\<lparr>th_poller := Some p\<rparr>) = (th0, Ok 0)"
    by (simp add: th0_def start_runner_def find_empty_def thread_start_def set_runner_def MAX_RUNNERS_def runners_table)
  have l0: "lend th0 0 = Ok ?rt0" "0 < length (th_runners th0)"
    by (simp_all add: th0_def lend_def get_runner_def thread_start_def MAX_RUNNERS_def runner_int_new_def)
  have nl: "main_new_listener env th0 0 listener Sock_acceptor listener_param = (th1, Ok (Ok ()))"
    using assms register_listener [of ?rt0 env listener w' Sock_acceptor listener_param] p(2) rt0
    by (simp add: th1_def main_new_listener_def with_runner_def l0 no_position_def give_back_def fiber_id_def MAX_RUNNERS_def)
  have l1: "lend th1 0 = Ok ?rt1" "0 < length (th_runners th1)"
    using lend_give_back l0(2) unfolding th1_def by (blast, simp add: lend_give_back(2))
  obtain th where sc: "start_clients env 0 socks th1 = (th, Ok ())"
    and le: "lend th 0 = Ok (enlisted ?rt1 (clients_on ?rt1 (length (r_fibers ?rt1)) socks))"
    using start_clients_enlists [OF l1, of env socks] rt0 p(2) by (auto simp: MAX_RUNNERS_def)
  define rt where "rt = enlisted ?rt1 (clients_on ?rt1 (length (r_fibers ?rt1)) socks)"
  have "http_proxy_start env (Ok ()) contents now listener socks (thread_start w) = (th, Ok 0)"
    using sp by (simp add: http_proxy_start_def sr nl sc)
  moreover have "lend th 0 = Ok rt" using le by (simp only: rt_def)
  moreover have "r_world rt = w'" "r_pos rt = 0" "length (r_fibers rt) = length socks + 1" "r_fibers rt ! 0 = ?lf"
    by (simp_all add: rt_def rt0)
  moreover have "\<forall>i < length socks. r_fibers rt ! (i + 1) =
       new_fiber 0 (Some Get_http) (S_Tcp (socks ! i)) (Some client_param) None (runner_id 0 (i + 1)) 0"
    by (simp add: rt_def rt0 clients_on_nth client_on_def fiber_id_def)
  moreover have "toexec_fibers (r_poller rt) = map word_of_nat [0 ..< length socks + 1] # replicate (MAX_RUNNERS - 1) []"
  proof -
    have "toexec_fibers (r_poller rt) = (replicate MAX_RUNNERS [])[0 := map word_of_nat (0 # [1 ..< 1 + length socks])]"
      by (simp add: rt_def rt0 p(2) MAX_RUNNERS_def)
    moreover have "0 # [1 ..< 1 + length socks] = [0 ..< length socks + 1]" using upt_conv_Cons [of 0 "length socks + 1"] by simp
    moreover have "replicate MAX_RUNNERS [] = [] # replicate (MAX_RUNNERS - 1) ([] :: usize list)" by (simp add: MAX_RUNNERS_def numeral_eq_Suc)
    ultimately show ?thesis by (simp only: list_update_code)
  qed
  ultimately show ?thesis by blast
qed

theorem http_proxy_starts_witness:
  "\<exists>th rt. http_proxy_start proxy_env (Ok ()) (Some []) (Instant 0) 3 [5, 6] (thread_start proxy_world) = (th, Ok 0) \<and>
    lend th 0 = Ok rt \<and> map f_sock (r_fibers rt) = [S_Listener 3, S_Tcp 5, S_Tcp 6] \<and>
    hd (toexec_fibers (r_poller rt)) = [0, 1, 2]"
proof -
  have "os_register (e_os proxy_env) 3 (runner_id 0 0) ReadyReadable proxy_world =
      (fst (log_register 3 (runner_id 0 0) ReadyReadable proxy_world), Ok ())"
    by (simp add: test_os_ops_def log_register_def)
  from http_proxy_starts [OF this, of "Some []" "Instant 0" "[5, 6]"]
  obtain th and rt :: "(test_os, entry vec_slab, nat, proxy_param, proxy_resp, proxy_fn) runner_int" where
    1: "http_proxy_start proxy_env (Ok ()) (Some []) (Instant 0) 3 [5, 6] (thread_start proxy_world) = (th, Ok 0)" "lend th 0 = Ok rt" and
    l: "length (r_fibers rt) = length [5, 6 :: sock] + 1" and
    0: "r_fibers rt ! 0 = (new_fiber 0 (Some Sock_acceptor) (S_Listener 3) (Some listener_param) None (runner_id 0 0) 0)\<lparr>f_ready := ReadyReadable\<rparr>" and
    c: "\<forall>i < length [5, 6 :: sock]. r_fibers rt ! (i + 1) =
       new_fiber 0 (Some Get_http) (S_Tcp ([5, 6] ! i)) (Some client_param) None (runner_id 0 (i + 1)) 0" and
    3: "toexec_fibers (r_poller rt) = map word_of_nat [0 ..< length [5, 6 :: sock] + 1] # replicate (MAX_RUNNERS - 1) []"
    by (elim exE conjE) (rule that)
  have 2: "length (r_fibers rt) = 3" "f_sock (r_fibers rt ! 0) = S_Listener 3" "f_sock (r_fibers rt ! 1) = S_Tcp 5" "f_sock (r_fibers rt ! 2) = S_Tcp 6"
    using l 0 c [rule_format, of 0] c [rule_format, of 1] by (simp_all add: new_fiber_def numeral_2_eq_2 numeral_3_eq_3)
  have "map f_sock (r_fibers rt) = [S_Listener 3, S_Tcp 5, S_Tcp 6]"
    using 2 by (intro nth_equalityI) (auto simp: less_Suc_eq numeral_eq_Suc)
  moreover have "hd (toexec_fibers (r_poller rt)) = [0, 1, 2]" using 3 by (simp add: upt_rec)
  ultimately show ?thesis using 1 by (intro exI [of _ th] exI [of _ rt] conjI)
qed

end
