(* ===== verification/Dns_Conformance.thy ===== *)
theory Dns_Conformance
  imports Dns_Packet
begin

text \<open>
  The unit tests that the repository keeps beside its parser (the \<^verbatim>\<open>mod test\<close> of
  \<^verbatim>\<open>dns_parser/header.rs\<close>, \<^verbatim>\<open>dns_parser/name.rs\<close> and \<^verbatim>\<open>dns_parser/parser.rs\<close>), one definition per
  test function.  A test is a predicate on the byte order that the parser is given: \<^const>\<open>True\<close> when
  every assertion of the test holds, \<^const>\<open>False\<close> when an assertion fails, an \<^verbatim>\<open>unwrap\<close> meets an error
  or a \<^verbatim>\<open>panic!\<close> is reached.  Evaluating them in the kernel ties the model to observations that the
  authors of the code made of real packets.
\<close>

section \<open>What the tests use\<close>

text \<open>\<^verbatim>\<open>assert_eq!(n.to_string(), s)\<close> and \<^verbatim>\<open>Ipv4Addr::new\<close>.\<close>

definition prints :: "byteorder \<Rightarrow> name \<Rightarrow> bytes \<Rightarrow> bool" where
  "prints bo n s \<longleftrightarrow> name_to_string bo n = Some (Ok s)"

definition Ipv4Addr_new :: "u8 \<Rightarrow> u8 \<Rightarrow> u8 \<Rightarrow> u8 \<Rightarrow> u32" where
  "Ipv4Addr_new a b c d = be32 a b c d"

section \<open>Tests of names\<close>

definition name_test_parse_badpointer_same_offset :: "byteorder \<Rightarrow> bool" where
  "name_test_parse_badpointer_same_offset bo =
   (let same_offset = [192, 2, 192, 2] in
    case name_scan bo same_offset same_offset of Err BadPointer \<Rightarrow> True | _ \<Rightarrow> False)"

definition name_test_parse_badpointer_forward_offset :: "byteorder \<Rightarrow> bool" where
  "name_test_parse_badpointer_forward_offset bo =
   (let forwards_offset = [192, 2, 192, 4, 192, 2] in
    case name_scan bo forwards_offset forwards_offset of Err BadPointer \<Rightarrow> True | _ \<Rightarrow> False)"

definition name_test_nested_names :: "byteorder \<Rightarrow> bool" where
  "name_test_nested_names bo =
   (let buf = [2, 120, 120, 0, 2, 121, 121, 192, 0, 2, 122, 122, 192, 4];
        scan_from = (\<lambda>i. bindR (slice_from buf i) (\<lambda>d. name_scan bo d buf));
        holds = (\<lambda>i P. case scan_from i of Ok n \<Rightarrow> P n | _ \<Rightarrow> False) in
    holds 0 (\<lambda>n. prints bo n (ascii ''xx'')) \<and>
    holds 0 (\<lambda>n. labels n = [2, 120, 120, 0]) \<and>
    holds 4 (\<lambda>n. prints bo n (ascii ''yy.xx'')) \<and>
    holds 4 (\<lambda>n. labels n = [2, 121, 121, 192, 0]) \<and>
    holds 9 (\<lambda>n. prints bo n (ascii ''zz.yy.xx'')) \<and>
    holds 9 (\<lambda>n. labels n = [2, 122, 122, 192, 4]))"

section \<open>Tests of headers\<close>

definition header_test_parse_example_query :: "byteorder \<Rightarrow> bool" where
  "header_test_parse_example_query bo =
   (let query =
     [6, 37, 1, 0, 0, 1, 0, 0, 0, 0, 0, 0, 7, 101, 120, 97, 109, 112, 108, 101, 3, 99, 111, 109,
      0, 0, 1, 0, 1] in
   case header_parse bo query of
     Ok h \<Rightarrow> h =
     \<lparr>h_id = 1573, h_query = True, h_opcode = StandardQuery, h_authoritative = False,
        h_truncated = False, h_recursion_desired = True, h_recursion_available = False,
        h_authenticated_data = False, h_checking_disabled = False,
        h_response_code = NoError, h_questions = 1, h_answers = 0, h_nameservers = 0,
        h_additional = 0\<rparr>
   | _ \<Rightarrow> False)"

definition header_test_parse_example_response :: "byteorder \<Rightarrow> bool" where
  "header_test_parse_example_response bo =
   (let response =
     [6, 37, 129, 128, 0, 1, 0, 1, 0, 0, 0, 0, 7, 101, 120, 97, 109, 112, 108, 101, 3, 99, 111,
      109, 0, 0, 1, 0, 1, 192, 12, 0, 1, 0, 1, 0, 0, 4, 248, 0, 4, 93, 184, 216, 34] in
   case header_parse bo response of
     Ok h \<Rightarrow> h =
     \<lparr>h_id = 1573, h_query = False, h_opcode = StandardQuery, h_authoritative = False,
        h_truncated = False, h_recursion_desired = True, h_recursion_available = True,
        h_authenticated_data = False, h_checking_disabled = False,
        h_response_code = NoError, h_questions = 1, h_answers = 1, h_nameservers = 0,
        h_additional = 0\<rparr>
   | _ \<Rightarrow> False)"

definition header_test_parse_query_with_ad_set :: "byteorder \<Rightarrow> bool" where
  "header_test_parse_query_with_ad_set bo =
   (let query =
     [6, 37, 1, 32, 0, 1, 0, 0, 0, 0, 0, 0, 7, 101, 120, 97, 109, 112, 108, 101, 3, 99, 111, 109,
      0, 0, 1, 0, 1] in
   case header_parse bo query of
     Ok h \<Rightarrow> h =
     \<lparr>h_id = 1573, h_query = True, h_opcode = StandardQuery, h_authoritative = False,
        h_truncated = False, h_recursion_desired = True, h_recursion_available = False,
        h_authenticated_data = True, h_checking_disabled = False, h_response_code = NoError,
        h_questions = 1, h_answers = 0, h_nameservers = 0, h_additional = 0\<rparr>
   | _ \<Rightarrow> False)"

definition header_test_parse_query_with_cd_set :: "byteorder \<Rightarrow> bool" where
  "header_test_parse_query_with_cd_set bo =
   (let query =
     [6, 37, 1, 16, 0, 1, 0, 0, 0, 0, 0, 0, 7, 101, 120, 97, 109, 112, 108, 101, 3, 99, 111, 109,
      0, 0, 1, 0, 1] in
   case header_parse bo query of
     Ok h \<Rightarrow> h =
     \<lparr>h_id = 1573, h_query = True, h_opcode = StandardQuery, h_authoritative = False,
        h_truncated = False, h_recursion_desired = True, h_recursion_available = False,
        h_authenticated_data = False, h_checking_disabled = True, h_response_code = NoError,
        h_questions = 1, h_answers = 0, h_nameservers = 0, h_additional = 0\<rparr>
   | _ \<Rightarrow> False)"

section \<open>Tests of packets\<close>

definition packet_test_parse_example_query :: "byteorder \<Rightarrow> bool" where
  "packet_test_parse_example_query bo =
   (let query =
     [6, 37, 1, 0, 0, 1, 0, 0, 0, 0, 0, 0, 7, 101, 120, 97, 109, 112, 108, 101, 3, 99, 111, 109,
      0, 0, 1, 0, 1] in
   case packet_parse bo query of
     Ok packet \<Rightarrow>
     p_header packet =
     \<lparr>h_id = 1573, h_query = True, h_opcode = StandardQuery, h_authoritative = False,
        h_truncated = False, h_recursion_desired = True, h_recursion_available = False,
        h_authenticated_data = False, h_checking_disabled = False,
        h_response_code = NoError, h_questions = 1, h_answers = 0, h_nameservers = 0,
        h_additional = 0\<rparr> \<and>
     length (p_questions packet) = 1 \<and>
     qtype (p_questions packet ! 0) = Q_A \<and>
     qclass (p_questions packet ! 0) = QC_IN \<and>
     prints bo (qname (p_questions packet ! 0)) (ascii ''example.com'') \<and>
     length (p_answers packet) = 0
   | _ \<Rightarrow> False)"

definition packet_test_parse_example_response :: "byteorder \<Rightarrow> bool" where
  "packet_test_parse_example_response bo =
   (let response =
     [6, 37, 129, 128, 0, 1, 0, 1, 0, 0, 0, 0, 7, 101, 120, 97, 109, 112, 108, 101, 3, 99, 111,
      109, 0, 0, 1, 0, 1, 192, 12, 0, 1, 0, 1, 0, 0, 4, 248, 0, 4, 93, 184, 216, 34] in
   case packet_parse bo response of
     Ok packet \<Rightarrow>
     p_header packet =
     \<lparr>h_id = 1573, h_query = False, h_opcode = StandardQuery, h_authoritative = False,
        h_truncated = False, h_recursion_desired = True, h_recursion_available = True,
        h_authenticated_data = False, h_checking_disabled = False,
        h_response_code = NoError, h_questions = 1, h_answers = 1, h_nameservers = 0,
        h_additional = 0\<rparr> \<and>
     length (p_questions packet) = 1 \<and>
     qtype (p_questions packet ! 0) = Q_A \<and>
     qclass (p_questions packet ! 0) = QC_IN \<and>
     prints bo (qname (p_questions packet ! 0)) (ascii ''example.com'') \<and>
     length (p_answers packet) = 1 \<and>
     prints bo (rr_name (p_answers packet ! 0)) (ascii ''example.com'') \<and>
     multicast_unique (p_answers packet ! 0) = False \<and>
     rr_cls (p_answers packet ! 0) = C_IN \<and>
     rr_ttl (p_answers packet ! 0) = 1272 \<and>
     (case rr_rdata (p_answers packet ! 0) of
        RR_A addr \<Rightarrow> addr = Ipv4Addr_new 93 184 216 34
      | _ \<Rightarrow> False)
   | _ \<Rightarrow> False)"

definition packet_test_parse_txt_response_multiple_strings :: "byteorder \<Rightarrow> bool" where
  "packet_test_parse_txt_response_multiple_strings bo =
   (let response =
     [6, 37, 129, 128, 0, 1, 0, 1, 0, 0, 0, 0, 8, 102, 97, 99, 101, 98, 111, 111, 107, 3, 99,
      111, 109, 0, 0, 16, 0, 1, 192, 12, 0, 16, 0, 1, 0, 1, 81, 61, 0, 35, 21, 118, 61, 115, 112,
      102, 49, 32, 114, 101, 100, 105, 114, 101, 99, 116, 61, 95, 115, 112, 102, 46, 12, 102, 97,
      99, 101, 98, 111, 111, 107, 46, 99, 111, 109] in
   case packet_parse bo response of
     Ok packet \<Rightarrow>
     p_header packet =
     \<lparr>h_id = 1573, h_query = False, h_opcode = StandardQuery, h_authoritative = False,
        h_truncated = False, h_recursion_desired = True, h_recursion_available = True,
        h_authenticated_data = False, h_checking_disabled = False,
        h_response_code = NoError, h_questions = 1, h_answers = 1, h_nameservers = 0,
        h_additional = 0\<rparr> \<and>
     length (p_questions packet) = 1 \<and>
     qtype (p_questions packet ! 0) = Q_TXT \<and>
     qclass (p_questions packet ! 0) = QC_IN \<and>
     prints bo (qname (p_questions packet ! 0)) (ascii ''facebook.com'') \<and>
     length (p_answers packet) = 1 \<and>
     prints bo (rr_name (p_answers packet ! 0)) (ascii ''facebook.com'') \<and>
     multicast_unique (p_answers packet ! 0) = False \<and>
     rr_cls (p_answers packet ! 0) = C_IN \<and>
     rr_ttl (p_answers packet ! 0) = 86333 \<and>
     (case rr_rdata (p_answers packet ! 0) of
        RR_TXT txt \<Rightarrow> txt = ascii ''v=spf1 redirect=_spf.facebook.com''
      | _ \<Rightarrow> False)
   | _ \<Rightarrow> False)"

definition packet_test_parse_response_with_multicast_unique :: "byteorder \<Rightarrow> bool" where
  "packet_test_parse_response_with_multicast_unique bo =
   (let response =
     [6, 37, 129, 128, 0, 1, 0, 1, 0, 0, 0, 0, 7, 101, 120, 97, 109, 112, 108, 101, 3, 99, 111,
      109, 0, 0, 1, 0, 1, 192, 12, 0, 1, 128, 1, 0, 0, 4, 248, 0, 4, 93, 184, 216, 34] in
   case packet_parse bo response of
     Ok packet \<Rightarrow>
     length (p_answers packet) = 1 \<and>
     multicast_unique (p_answers packet ! 0) = True \<and>
     rr_cls (p_answers packet ! 0) = C_IN
   | _ \<Rightarrow> False)"

definition packet_test_parse_ns_response :: "byteorder \<Rightarrow> bool" where
  "packet_test_parse_ns_response bo =
   (let response =
     [74, 240, 129, 128, 0, 1, 0, 1, 0, 1, 0, 0, 3, 119, 119, 119, 5, 115, 107, 121, 112, 101, 3,
      99, 111, 109, 0, 0, 1, 0, 1, 192, 12, 0, 5, 0, 1, 0, 0, 14, 16, 0, 28, 7, 108, 105, 118,
      101, 99, 109, 115, 14, 116, 114, 97, 102, 102, 105, 99, 109, 97, 110, 97, 103, 101, 114, 3,
      110, 101, 116, 0, 192, 66, 0, 2, 0, 1, 0, 1, 213, 211, 0, 17, 1, 103, 12, 103, 116, 108,
      100, 45, 115, 101, 114, 118, 101, 114, 115, 192, 66] in
   case packet_parse bo response of
     Ok packet \<Rightarrow>
     p_header packet =
     \<lparr>h_id = 19184, h_query = False, h_opcode = StandardQuery, h_authoritative = False,
        h_truncated = False, h_recursion_desired = True, h_recursion_available = True,
        h_authenticated_data = False, h_checking_disabled = False,
        h_response_code = NoError, h_questions = 1, h_answers = 1, h_nameservers = 1,
        h_additional = 0\<rparr> \<and>
     length (p_questions packet) = 1 \<and>
     qtype (p_questions packet ! 0) = Q_A \<and>
     qclass (p_questions packet ! 0) = QC_IN \<and>
     prints bo (qname (p_questions packet ! 0)) (ascii ''www.skype.com'') \<and>
     length (p_answers packet) = 1 \<and>
     prints bo (rr_name (p_answers packet ! 0)) (ascii ''www.skype.com'') \<and>
     rr_cls (p_answers packet ! 0) = C_IN \<and>
     rr_ttl (p_answers packet ! 0) = 3600 \<and>
     (case rr_rdata (p_answers packet ! 0) of
        RR_CNAME cname \<Rightarrow> prints bo cname (ascii ''livecms.trafficmanager.net'')
      | _ \<Rightarrow> False) \<and>
     length (p_nameservers packet) = 1 \<and>
     prints bo (rr_name (p_nameservers packet ! 0)) (ascii ''net'') \<and>
     rr_cls (p_nameservers packet ! 0) = C_IN \<and>
     rr_ttl (p_nameservers packet ! 0) = 120275 \<and>
     (case rr_rdata (p_nameservers packet ! 0) of
        RR_NS ns \<Rightarrow> prints bo ns (ascii ''g.gtld-servers.net'')
      | _ \<Rightarrow> False)
   | _ \<Rightarrow> False)"

definition packet_test_parse_soa_response :: "byteorder \<Rightarrow> bool" where
  "packet_test_parse_soa_response bo =
   (let response =
     [159, 197, 133, 131, 0, 1, 0, 0, 0, 1, 0, 0, 14, 100, 108, 107, 102, 106, 107, 100, 106,
      100, 115, 108, 102, 107, 106, 7, 121, 111, 117, 116, 117, 98, 101, 3, 99, 111, 109, 0, 0,
      1, 0, 1, 192, 27, 0, 6, 0, 1, 0, 0, 42, 48, 0, 30, 192, 27, 5, 97, 100, 109, 105, 110, 192,
      27, 119, 237, 42, 115, 0, 0, 81, 128, 0, 0, 14, 16, 0, 0, 58, 128, 0, 0, 42, 48] in
   case packet_parse bo response of
     Ok packet \<Rightarrow>
     p_header packet =
     \<lparr>h_id = 40901, h_query = False, h_opcode = StandardQuery, h_authoritative = True,
        h_truncated = False, h_recursion_desired = True, h_recursion_available = True,
        h_authenticated_data = False, h_checking_disabled = False,
        h_response_code = NameError, h_questions = 1, h_answers = 0, h_nameservers = 1,
        h_additional = 0\<rparr> \<and>
     length (p_questions packet) = 1 \<and>
     qtype (p_questions packet ! 0) = Q_A \<and>
     qclass (p_questions packet ! 0) = QC_IN \<and>
     prints bo (qname (p_questions packet ! 0)) (ascii ''dlkfjkdjdslfkj.youtube.com'') \<and>
     length (p_answers packet) = 0 \<and>
     length (p_nameservers packet) = 1 \<and>
     prints bo (rr_name (p_nameservers packet ! 0)) (ascii ''youtube.com'') \<and>
     rr_cls (p_nameservers packet ! 0) = C_IN \<and>
     multicast_unique (p_nameservers packet ! 0) = False \<and>
     rr_ttl (p_nameservers packet ! 0) = 10800 \<and>
     (case rr_rdata (p_nameservers packet ! 0) of
        RR_SOA soa_rec \<Rightarrow> prints bo (primary_ns soa_rec) (ascii ''youtube.com'') \<and> prints bo (mailbox soa_rec) (ascii ''admin.youtube.com'') \<and> serial soa_rec = 2012031603 \<and> refresh soa_rec = 20864 \<and> retry soa_rec = 3600 \<and> expire soa_rec = 14976 \<and> minimum_ttl soa_rec = 10800
      | _ \<Rightarrow> False)
   | _ \<Rightarrow> False)"

definition packet_test_parse_ptr_response :: "byteorder \<Rightarrow> bool" where
  "packet_test_parse_ptr_response bo =
   (let response =
     [83, 214, 129, 128, 0, 1, 0, 1, 0, 0, 0, 0, 2, 54, 57, 2, 57, 51, 2, 55, 53, 2, 55, 50, 7,
      105, 110, 45, 97, 100, 100, 114, 4, 97, 114, 112, 97, 0, 0, 12, 0, 1, 192, 12, 0, 12, 0, 1,
      0, 1, 81, 128, 0, 30, 16, 112, 111, 111, 108, 45, 55, 50, 45, 55, 53, 45, 57, 51, 45, 54,
      57, 7, 118, 101, 114, 105, 122, 111, 110, 3, 110, 101, 116, 0] in
   case packet_parse bo response of
     Ok packet \<Rightarrow>
     p_header packet =
     \<lparr>h_id = 21462, h_query = False, h_opcode = StandardQuery, h_authoritative = False,
        h_truncated = False, h_recursion_desired = True, h_recursion_available = True,
        h_authenticated_data = False, h_checking_disabled = False,
        h_response_code = NoError, h_questions = 1, h_answers = 1, h_nameservers = 0,
        h_additional = 0\<rparr> \<and>
     length (p_questions packet) = 1 \<and>
     qtype (p_questions packet ! 0) = Q_PTR \<and>
     qclass (p_questions packet ! 0) = QC_IN \<and>
     prints bo (qname (p_questions packet ! 0)) (ascii ''69.93.75.72.in-addr.arpa'') \<and>
     length (p_answers packet) = 1 \<and>
     prints bo (rr_name (p_answers packet ! 0)) (ascii ''69.93.75.72.in-addr.arpa'') \<and>
     rr_cls (p_answers packet ! 0) = C_IN \<and>
     rr_ttl (p_answers packet ! 0) = 86400 \<and>
     (case rr_rdata (p_answers packet ! 0) of
        RR_PTR name \<Rightarrow> prints bo name (ascii ''pool-72-75-93-69.verizon.net'')
      | _ \<Rightarrow> False)
   | _ \<Rightarrow> False)"

definition packet_test_parse_additional_record_response :: "byteorder \<Rightarrow> bool" where
  "packet_test_parse_additional_record_response bo =
   (let response =
     [74, 240, 129, 128, 0, 1, 0, 1, 0, 1, 0, 1, 3, 119, 119, 119, 5, 115, 107, 121, 112, 101, 3,
      99, 111, 109, 0, 0, 1, 0, 1, 192, 12, 0, 5, 0, 1, 0, 0, 14, 16, 0, 28, 7, 108, 105, 118,
      101, 99, 109, 115, 14, 116, 114, 97, 102, 102, 105, 99, 109, 97, 110, 97, 103, 101, 114, 3,
      110, 101, 116, 0, 192, 66, 0, 2, 0, 1, 0, 1, 213, 211, 0, 17, 1, 103, 12, 103, 116, 108,
      100, 45, 115, 101, 114, 118, 101, 114, 115, 192, 66, 1, 97, 192, 85, 0, 1, 0, 1, 0, 0, 163,
      28, 0, 4, 192, 5, 6, 30] in
   case packet_parse bo response of
     Ok packet \<Rightarrow>
     p_header packet =
     \<lparr>h_id = 19184, h_query = False, h_opcode = StandardQuery, h_authoritative = False,
        h_truncated = False, h_recursion_desired = True, h_recursion_available = True,
        h_authenticated_data = False, h_checking_disabled = False,
        h_response_code = NoError, h_questions = 1, h_answers = 1, h_nameservers = 1,
        h_additional = 1\<rparr> \<and>
     length (p_questions packet) = 1 \<and>
     qtype (p_questions packet ! 0) = Q_A \<and>
     qclass (p_questions packet ! 0) = QC_IN \<and>
     prints bo (qname (p_questions packet ! 0)) (ascii ''www.skype.com'') \<and>
     length (p_answers packet) = 1 \<and>
     prints bo (rr_name (p_answers packet ! 0)) (ascii ''www.skype.com'') \<and>
     rr_cls (p_answers packet ! 0) = C_IN \<and>
     rr_ttl (p_answers packet ! 0) = 3600 \<and>
     (case rr_rdata (p_answers packet ! 0) of
        RR_CNAME cname \<Rightarrow> prints bo cname (ascii ''livecms.trafficmanager.net'')
      | _ \<Rightarrow> False) \<and>
     length (p_nameservers packet) = 1 \<and>
     prints bo (rr_name (p_nameservers packet ! 0)) (ascii ''net'') \<and>
     rr_cls (p_nameservers packet ! 0) = C_IN \<and>
     rr_ttl (p_nameservers packet ! 0) = 120275 \<and>
     (case rr_rdata (p_nameservers packet ! 0) of
        RR_NS ns \<Rightarrow> prints bo ns (ascii ''g.gtld-servers.net'')
      | _ \<Rightarrow> False) \<and>
     length (p_additional packet) = 1 \<and>
     prints bo (rr_name (p_additional packet ! 0)) (ascii ''a.gtld-servers.net'') \<and>
     rr_cls (p_additional packet ! 0) = C_IN \<and>
     rr_ttl (p_additional packet ! 0) = 41756 \<and>
     (case rr_rdata (p_additional packet ! 0) of
        RR_A addr \<Rightarrow> addr = Ipv4Addr_new 192 5 6 30
      | _ \<Rightarrow> False)
   | _ \<Rightarrow> False)"

definition packet_test_parse_multiple_answers :: "byteorder \<Rightarrow> bool" where
  "packet_test_parse_multiple_answers bo =
   (let response =
     [157, 233, 129, 128, 0, 1, 0, 6, 0, 0, 0, 0, 6, 103, 111, 111, 103, 108, 101, 3, 99, 111,
      109, 0, 0, 1, 0, 1, 192, 12, 0, 1, 0, 1, 0, 0, 0, 239, 0, 4, 64, 233, 164, 100, 192, 12, 0,
      1, 0, 1, 0, 0, 0, 239, 0, 4, 64, 233, 164, 139, 192, 12, 0, 1, 0, 1, 0, 0, 0, 239, 0, 4,
      64, 233, 164, 113, 192, 12, 0, 1, 0, 1, 0, 0, 0, 239, 0, 4, 64, 233, 164, 102, 192, 12, 0,
      1, 0, 1, 0, 0, 0, 239, 0, 4, 64, 233, 164, 101, 192, 12, 0, 1, 0, 1, 0, 0, 0, 239, 0, 4,
      64, 233, 164, 138] in
   case packet_parse bo response of
     Ok packet \<Rightarrow>
     p_header packet =
     \<lparr>h_id = 40425, h_query = False, h_opcode = StandardQuery, h_authoritative = False,
        h_truncated = False, h_recursion_desired = True, h_recursion_available = True,
        h_authenticated_data = False, h_checking_disabled = False,
        h_response_code = NoError, h_questions = 1, h_answers = 6, h_nameservers = 0,
        h_additional = 0\<rparr> \<and>
     length (p_questions packet) = 1 \<and>
     qtype (p_questions packet ! 0) = Q_A \<and>
     qclass (p_questions packet ! 0) = QC_IN \<and>
     prints bo (qname (p_questions packet ! 0)) (ascii ''google.com'') \<and>
     length (p_answers packet) = 6 \<and>
     (let ips =
       [Ipv4Addr_new 64 233 164 100,
        Ipv4Addr_new 64 233 164 139,
        Ipv4Addr_new 64 233 164 113,
        Ipv4Addr_new 64 233 164 102,
        Ipv4Addr_new 64 233 164 101,
        Ipv4Addr_new 64 233 164 138] in
     list_all (\<lambda>i.
       prints bo (rr_name (p_answers packet ! i)) (ascii ''google.com'') \<and>
       rr_cls (p_answers packet ! i) = C_IN \<and>
       rr_ttl (p_answers packet ! i) = 239 \<and>
       (case rr_rdata (p_answers packet ! i) of
        RR_A addr \<Rightarrow> addr = ips ! i
      | _ \<Rightarrow> False)) [0..<6])
   | _ \<Rightarrow> False)"

definition packet_test_parse_srv_query :: "byteorder \<Rightarrow> bool" where
  "packet_test_parse_srv_query bo =
   (let query =
     [91, 217, 1, 0, 0, 1, 0, 0, 0, 0, 0, 0, 12, 95, 120, 109, 112, 112, 45, 115, 101, 114, 118,
      101, 114, 4, 95, 116, 99, 112, 5, 103, 109, 97, 105, 108, 3, 99, 111, 109, 0, 0, 33, 0, 1] in
   case packet_parse bo query of
     Ok packet \<Rightarrow>
     p_header packet =
     \<lparr>h_id = 23513, h_query = True, h_opcode = StandardQuery, h_authoritative = False,
        h_truncated = False, h_recursion_desired = True, h_recursion_available = False,
        h_authenticated_data = False, h_checking_disabled = False,
        h_response_code = NoError, h_questions = 1, h_answers = 0, h_nameservers = 0,
        h_additional = 0\<rparr> \<and>
     length (p_questions packet) = 1 \<and>
     qtype (p_questions packet ! 0) = Q_SRV \<and>
     qclass (p_questions packet ! 0) = QC_IN \<and>
     prefer_unicast (p_questions packet ! 0) = False \<and>
     prints bo (qname (p_questions packet ! 0)) (ascii ''_xmpp-server._tcp.gmail.com'') \<and>
     length (p_answers packet) = 0
   | _ \<Rightarrow> False)"

definition packet_test_parse_multicast_prefer_unicast_query :: "byteorder \<Rightarrow> bool" where
  "packet_test_parse_multicast_prefer_unicast_query bo =
   (let query =
     [6, 37, 1, 0, 0, 1, 0, 0, 0, 0, 0, 0, 7, 101, 120, 97, 109, 112, 108, 101, 3, 99, 111, 109,
      0, 0, 1, 128, 1] in
   case packet_parse bo query of
     Ok packet \<Rightarrow>
     length (p_questions packet) = 1 \<and>
     qtype (p_questions packet ! 0) = Q_A \<and>
     qclass (p_questions packet ! 0) = QC_IN \<and>
     prefer_unicast (p_questions packet ! 0) = True
   | _ \<Rightarrow> False)"

definition packet_test_parse_srv_response :: "byteorder \<Rightarrow> bool" where
  "packet_test_parse_srv_response bo =
   (let response =
     [91, 217, 129, 128, 0, 1, 0, 5, 0, 0, 0, 0, 12, 95, 120, 109, 112, 112, 45, 115, 101, 114,
      118, 101, 114, 4, 95, 116, 99, 112, 5, 103, 109, 97, 105, 108, 3, 99, 111, 109, 0, 0, 33,
      0, 1, 192, 12, 0, 33, 0, 1, 0, 0, 3, 132, 0, 32, 0, 5, 0, 0, 20, 149, 11, 120, 109, 112,
      112, 45, 115, 101, 114, 118, 101, 114, 1, 108, 6, 103, 111, 111, 103, 108, 101, 3, 99, 111,
      109, 0, 192, 12, 0, 33, 0, 1, 0, 0, 3, 132, 0, 37, 0, 20, 0, 0, 20, 149, 4, 97, 108, 116,
      51, 11, 120, 109, 112, 112, 45, 115, 101, 114, 118, 101, 114, 1, 108, 6, 103, 111, 111,
      103, 108, 101, 3, 99, 111, 109, 0, 192, 12, 0, 33, 0, 1, 0, 0, 3, 132, 0, 37, 0, 20, 0, 0,
      20, 149, 4, 97, 108, 116, 49, 11, 120, 109, 112, 112, 45, 115, 101, 114, 118, 101, 114, 1,
      108, 6, 103, 111, 111, 103, 108, 101, 3, 99, 111, 109, 0, 192, 12, 0, 33, 0, 1, 0, 0, 3,
      132, 0, 37, 0, 20, 0, 0, 20, 149, 4, 97, 108, 116, 50, 11, 120, 109, 112, 112, 45, 115,
      101, 114, 118, 101, 114, 1, 108, 6, 103, 111, 111, 103, 108, 101, 3, 99, 111, 109, 0, 192,
      12, 0, 33, 0, 1, 0, 0, 3, 132, 0, 37, 0, 20, 0, 0, 20, 149, 4, 97, 108, 116, 52, 11, 120,
      109, 112, 112, 45, 115, 101, 114, 118, 101, 114, 1, 108, 6, 103, 111, 111, 103, 108, 101,
      3, 99, 111, 109, 0] in
   case packet_parse bo response of
     Ok packet \<Rightarrow>
     p_header packet =
     \<lparr>h_id = 23513, h_query = False, h_opcode = StandardQuery, h_authoritative = False,
        h_truncated = False, h_recursion_desired = True, h_recursion_available = True,
        h_authenticated_data = False, h_checking_disabled = False,
        h_response_code = NoError, h_questions = 1, h_answers = 5, h_nameservers = 0,
        h_additional = 0\<rparr> \<and>
     length (p_questions packet) = 1 \<and>
     qtype (p_questions packet ! 0) = Q_SRV \<and>
     qclass (p_questions packet ! 0) = QC_IN \<and>
     prints bo (qname (p_questions packet ! 0)) (ascii ''_xmpp-server._tcp.gmail.com'') \<and>
     length (p_answers packet) = 5 \<and>
     (let items =
       [(5, 0, 5269, ascii ''xmpp-server.l.google.com''),
        (20, 0, 5269, ascii ''alt3.xmpp-server.l.google.com''),
        (20, 0, 5269, ascii ''alt1.xmpp-server.l.google.com''),
        (20, 0, 5269, ascii ''alt2.xmpp-server.l.google.com''),
        (20, 0, 5269, ascii ''alt4.xmpp-server.l.google.com'')] in
     list_all (\<lambda>i.
       prints bo (rr_name (p_answers packet ! i)) (ascii ''_xmpp-server._tcp.gmail.com'') \<and>
       rr_cls (p_answers packet ! i) = C_IN \<and>
       rr_ttl (p_answers packet ! i) = 900 \<and>
       (case rr_rdata (p_answers packet ! i) of
        RR_SRV prio wt pt tgt \<Rightarrow> (case items ! i of (e0, e1, e2, e3) \<Rightarrow> prio = e0 \<and> wt = e1 \<and> pt = e2 \<and> prints bo tgt e3)
      | _ \<Rightarrow> False)) [0..<5])
   | _ \<Rightarrow> False)"

definition packet_test_parse_mx_response :: "byteorder \<Rightarrow> bool" where
  "packet_test_parse_mx_response bo =
   (let response =
     [227, 232, 129, 128, 0, 1, 0, 5, 0, 0, 0, 0, 5, 103, 109, 97, 105, 108, 3, 99, 111, 109, 0,
      0, 15, 0, 1, 192, 12, 0, 15, 0, 1, 0, 0, 4, 124, 0, 27, 0, 5, 13, 103, 109, 97, 105, 108,
      45, 115, 109, 116, 112, 45, 105, 110, 1, 108, 6, 103, 111, 111, 103, 108, 101, 192, 18,
      192, 12, 0, 15, 0, 1, 0, 0, 4, 124, 0, 9, 0, 10, 4, 97, 108, 116, 49, 192, 41, 192, 12, 0,
      15, 0, 1, 0, 0, 4, 124, 0, 9, 0, 40, 4, 97, 108, 116, 52, 192, 41, 192, 12, 0, 15, 0, 1, 0,
      0, 4, 124, 0, 9, 0, 20, 4, 97, 108, 116, 50, 192, 41, 192, 12, 0, 15, 0, 1, 0, 0, 4, 124,
      0, 9, 0, 30, 4, 97, 108, 116, 51, 192, 41] in
   case packet_parse bo response of
     Ok packet \<Rightarrow>
     p_header packet =
     \<lparr>h_id = 58344, h_query = False, h_opcode = StandardQuery, h_authoritative = False,
        h_truncated = False, h_recursion_desired = True, h_recursion_available = True,
        h_authenticated_data = False, h_checking_disabled = False,
        h_response_code = NoError, h_questions = 1, h_answers = 5, h_nameservers = 0,
        h_additional = 0\<rparr> \<and>
     length (p_questions packet) = 1 \<and>
     qtype (p_questions packet ! 0) = Q_MX \<and>
     qclass (p_questions packet ! 0) = QC_IN \<and>
     prints bo (qname (p_questions packet ! 0)) (ascii ''gmail.com'') \<and>
     length (p_answers packet) = 5 \<and>
     (let items =
       [(5, ascii ''gmail-smtp-in.l.google.com''),
        (10, ascii ''alt1.gmail-smtp-in.l.google.com''),
        (40, ascii ''alt4.gmail-smtp-in.l.google.com''),
        (20, ascii ''alt2.gmail-smtp-in.l.google.com''),
        (30, ascii ''alt3.gmail-smtp-in.l.google.com'')] in
     list_all (\<lambda>i.
       prints bo (rr_name (p_answers packet ! i)) (ascii ''gmail.com'') \<and>
       rr_cls (p_answers packet ! i) = C_IN \<and>
       rr_ttl (p_answers packet ! i) = 1148 \<and>
       (case rr_rdata (p_answers packet ! i) of
        RR_MX pref exch \<Rightarrow> (case items ! i of (e0, e1) \<Rightarrow> pref = e0 \<and> prints bo exch e1)
      | _ \<Rightarrow> False)) [0..<5])
   | _ \<Rightarrow> False)"

definition packet_test_parse_aaaa_response :: "byteorder \<Rightarrow> bool" where
  "packet_test_parse_aaaa_response bo =
   (let response =
     [169, 217, 129, 128, 0, 1, 0, 1, 0, 0, 0, 0, 6, 103, 111, 111, 103, 108, 101, 3, 99, 111,
      109, 0, 0, 28, 0, 1, 192, 12, 0, 28, 0, 1, 0, 0, 0, 139, 0, 16, 42, 0, 20, 80, 64, 9, 8,
      18, 0, 0, 0, 0, 0, 0, 32, 14] in
   case packet_parse bo response of
     Ok packet \<Rightarrow>
     p_header packet =
     \<lparr>h_id = 43481, h_query = False, h_opcode = StandardQuery, h_authoritative = False,
        h_truncated = False, h_recursion_desired = True, h_recursion_available = True,
        h_authenticated_data = False, h_checking_disabled = False,
        h_response_code = NoError, h_questions = 1, h_answers = 1, h_nameservers = 0,
        h_additional = 0\<rparr> \<and>
     length (p_questions packet) = 1 \<and>
     qtype (p_questions packet ! 0) = Q_AAAA \<and>
     qclass (p_questions packet ! 0) = QC_IN \<and>
     prints bo (qname (p_questions packet ! 0)) (ascii ''google.com'') \<and>
     length (p_answers packet) = 1 \<and>
     prints bo (rr_name (p_answers packet ! 0)) (ascii ''google.com'') \<and>
     rr_cls (p_answers packet ! 0) = C_IN \<and>
     rr_ttl (p_answers packet ! 0) = 139 \<and>
     (case rr_rdata (p_answers packet ! 0) of
        RR_AAAA addr \<Rightarrow> addr = Ipv6 0x2A00 0x1450 0x4009 0x812 0 0 0 0x200e
      | _ \<Rightarrow> False)
   | _ \<Rightarrow> False)"

definition packet_test_parse_cname_response :: "byteorder \<Rightarrow> bool" where
  "packet_test_parse_cname_response bo =
   (let response =
     [252, 157, 129, 128, 0, 1, 0, 6, 0, 2, 0, 2, 3, 99, 100, 110, 7, 115, 115, 116, 97, 116,
      105, 99, 3, 110, 101, 116, 0, 0, 1, 0, 1, 192, 12, 0, 5, 0, 1, 0, 0, 0, 102, 0, 2, 192, 16,
      192, 16, 0, 1, 0, 1, 0, 0, 0, 102, 0, 4, 104, 16, 103, 204, 192, 16, 0, 1, 0, 1, 0, 0, 0,
      102, 0, 4, 104, 16, 107, 204, 192, 16, 0, 1, 0, 1, 0, 0, 0, 102, 0, 4, 104, 16, 104, 204,
      192, 16, 0, 1, 0, 1, 0, 0, 0, 102, 0, 4, 104, 16, 106, 204, 192, 16, 0, 1, 0, 1, 0, 0, 0,
      102, 0, 4, 104, 16, 105, 204, 192, 16, 0, 2, 0, 1, 0, 0, 153, 76, 0, 11, 8, 99, 102, 45,
      100, 110, 115, 48, 50, 192, 16, 192, 16, 0, 2, 0, 1, 0, 0, 153, 76, 0, 11, 8, 99, 102, 45,
      100, 110, 115, 48, 49, 192, 16, 192, 162, 0, 1, 0, 1, 0, 0, 153, 76, 0, 4, 173, 245, 58,
      53, 192, 139, 0, 1, 0, 1, 0, 0, 153, 76, 0, 4, 173, 245, 59, 4] in
   case packet_parse bo response of
     Ok packet \<Rightarrow>
     p_header packet =
     \<lparr>h_id = 64669, h_query = False, h_opcode = StandardQuery, h_authoritative = False,
        h_truncated = False, h_recursion_desired = True, h_recursion_available = True,
        h_authenticated_data = False, h_checking_disabled = False,
        h_response_code = NoError, h_questions = 1, h_answers = 6, h_nameservers = 2,
        h_additional = 2\<rparr> \<and>
     length (p_questions packet) = 1 \<and>
     qtype (p_questions packet ! 0) = Q_A \<and>
     qclass (p_questions packet ! 0) = QC_IN \<and>
     prints bo (qname (p_questions packet ! 0)) (ascii ''cdn.sstatic.net'') \<and>
     length (p_answers packet) = 6 \<and>
     prints bo (rr_name (p_answers packet ! 0)) (ascii ''cdn.sstatic.net'') \<and>
     rr_cls (p_answers packet ! 0) = C_IN \<and>
     rr_ttl (p_answers packet ! 0) = 102 \<and>
     (case rr_rdata (p_answers packet ! 0) of
        RR_CNAME cname \<Rightarrow> prints bo cname (ascii ''sstatic.net'')
      | _ \<Rightarrow> False) \<and>
     (let ips =
       [Ipv4Addr_new 104 16 103 204,
        Ipv4Addr_new 104 16 107 204,
        Ipv4Addr_new 104 16 104 204,
        Ipv4Addr_new 104 16 106 204,
        Ipv4Addr_new 104 16 105 204] in
     list_all (\<lambda>i.
       prints bo (rr_name (p_answers packet ! i)) (ascii ''sstatic.net'') \<and>
       rr_cls (p_answers packet ! i) = C_IN \<and>
       rr_ttl (p_answers packet ! i) = 102 \<and>
       (case rr_rdata (p_answers packet ! i) of
        RR_A addr \<Rightarrow> addr = ips ! (i - 1)
      | _ \<Rightarrow> False)) [1..<6])
   | _ \<Rightarrow> False)"

definition packet_test_parse_example_query_edns :: "byteorder \<Rightarrow> bool" where
  "packet_test_parse_example_query_edns bo =
   (let query =
     [149, 206, 1, 0, 0, 1, 0, 0, 0, 0, 0, 1, 6, 103, 111, 111, 103, 108, 101, 3, 99, 111, 109,
      0, 0, 1, 0, 1, 0, 0, 41, 16, 0, 0, 0, 0, 0, 0, 0] in
   case packet_parse bo query of
     Ok packet \<Rightarrow>
     p_header packet =
     \<lparr>h_id = 38350, h_query = True, h_opcode = StandardQuery, h_authoritative = False,
        h_truncated = False, h_recursion_desired = True, h_recursion_available = False,
        h_authenticated_data = False, h_checking_disabled = False,
        h_response_code = NoError, h_questions = 1, h_answers = 0, h_nameservers = 0,
        h_additional = 1\<rparr> \<and>
     length (p_questions packet) = 1 \<and>
     qtype (p_questions packet ! 0) = Q_A \<and>
     qclass (p_questions packet ! 0) = QC_IN \<and>
     prints bo (qname (p_questions packet ! 0)) (ascii ''google.com'') \<and>
     length (p_answers packet) = 0 \<and>
     (case p_opt packet of
        Some opt \<Rightarrow> opt_udp opt = 4096 \<and> opt_extrcode opt = 0 \<and> opt_version opt = 0 \<and> opt_flags opt = 0
      | None \<Rightarrow> False)
   | _ \<Rightarrow> False)"

text \<open>All of them.\<close>

definition dns_tests :: "(byteorder \<Rightarrow> bool) list" where
  "dns_tests =
    [name_test_parse_badpointer_same_offset,
     name_test_parse_badpointer_forward_offset,
     name_test_nested_names,
     header_test_parse_example_query,
     header_test_parse_example_response,
     header_test_parse_query_with_ad_set,
     header_test_parse_query_with_cd_set,
     packet_test_parse_example_query,
     packet_test_parse_example_response,
     packet_test_parse_txt_response_multiple_strings,
     packet_test_parse_response_with_multicast_unique,
     packet_test_parse_ns_response,
     packet_test_parse_soa_response,
     packet_test_parse_ptr_response,
     packet_test_parse_additional_record_response,
     packet_test_parse_multiple_answers,
     packet_test_parse_srv_query,
     packet_test_parse_multicast_prefer_unicast_query,
     packet_test_parse_srv_response,
     packet_test_parse_mx_response,
     packet_test_parse_aaaa_response,
     packet_test_parse_cname_response,
     packet_test_parse_example_query_edns]"

section \<open>The tests pass\<close>

text \<open>
  What the \<^verbatim>\<open>byteorder\<close> crate documents fixes the whole interface, so that a fact about one
  big-endian byte order is a fact about every one.
\<close>

lemma big_endian_network_eq:
  assumes "big_endian bo"
  shows "bo = network"
proof -
  have "bo_read_u16 bo bs = bo_read_u16 network bs" for bs
    by (cases "length bs < 2")
      (simp_all add: big_endian.short_read_u16 big_endian.long_read_u16 assms network.big_endian_axioms)
  moreover have "bo_read_u32 bo bs = bo_read_u32 network bs" for bs
    by (cases "length bs < 4")
      (simp_all add: big_endian.short_read_u32 big_endian.long_read_u32 assms network.big_endian_axioms)
  moreover have "bo_write_u16 bo bs v = bo_write_u16 network bs v" for bs v
    by (cases "length bs < 2")
      (simp_all add: big_endian.short_write_u16 big_endian.long_write_u16 assms network.big_endian_axioms)
  ultimately show ?thesis by (intro byteorder.equality) (auto intro!: ext)
qed

named_theorems test_passes

lemma name_test_parse_badpointer_same_offset_passes [test_passes]: "name_test_parse_badpointer_same_offset network"
  by code_simp

lemma name_test_parse_badpointer_forward_offset_passes [test_passes]: "name_test_parse_badpointer_forward_offset network"
  by code_simp

lemma name_test_nested_names_passes [test_passes]: "name_test_nested_names network"
  by code_simp

lemma header_test_parse_example_query_passes [test_passes]: "header_test_parse_example_query network"
  by code_simp

lemma header_test_parse_example_response_passes [test_passes]: "header_test_parse_example_response network"
  by code_simp

lemma header_test_parse_query_with_ad_set_passes [test_passes]: "header_test_parse_query_with_ad_set network"
  by code_simp

lemma header_test_parse_query_with_cd_set_passes [test_passes]: "header_test_parse_query_with_cd_set network"
  by code_simp

lemma packet_test_parse_example_query_passes [test_passes]: "packet_test_parse_example_query network"
  by code_simp

lemma packet_test_parse_example_response_passes [test_passes]: "packet_test_parse_example_response network"
  by code_simp

lemma packet_test_parse_txt_response_multiple_strings_passes [test_passes]: "packet_test_parse_txt_response_multiple_strings network"
  by code_simp

lemma packet_test_parse_response_with_multicast_unique_passes [test_passes]: "packet_test_parse_response_with_multicast_unique network"
  by code_simp

lemma packet_test_parse_ns_response_passes [test_passes]: "packet_test_parse_ns_response network"
  by code_simp

lemma packet_test_parse_soa_response_passes [test_passes]: "packet_test_parse_soa_response network"
  by code_simp

lemma packet_test_parse_ptr_response_passes [test_passes]: "packet_test_parse_ptr_response network"
  by code_simp

lemma packet_test_parse_additional_record_response_passes [test_passes]: "packet_test_parse_additional_record_response network"
  by code_simp

lemma packet_test_parse_multiple_answers_passes [test_passes]: "packet_test_parse_multiple_answers network"
  by code_simp

lemma packet_test_parse_srv_query_passes [test_passes]: "packet_test_parse_srv_query network"
  by code_simp

lemma packet_test_parse_multicast_prefer_unicast_query_passes [test_passes]: "packet_test_parse_multicast_prefer_unicast_query network"
  by code_simp

lemma packet_test_parse_srv_response_passes [test_passes]: "packet_test_parse_srv_response network"
  by code_simp

lemma packet_test_parse_mx_response_passes [test_passes]: "packet_test_parse_mx_response network"
  by code_simp

lemma packet_test_parse_aaaa_response_passes [test_passes]: "packet_test_parse_aaaa_response network"
  by code_simp

lemma packet_test_parse_cname_response_passes [test_passes]: "packet_test_parse_cname_response network"
  by code_simp

lemma packet_test_parse_example_query_edns_passes [test_passes]: "packet_test_parse_example_query_edns network"
  by code_simp

section \<open>Properties\<close>

text \<open>
  The parser passes every unit test that the repository has for it: the headers, compressed
  names, and packets with address, alias, name-server, mail, service, text, pointer, start-of-authority
  and OPT records are read exactly as the tests assert, and the two malformed pointers are refused.
\<close>

theorem dns_tests_pass:
  assumes "big_endian bo"
  shows "list_all (\<lambda>t. t bo) dns_tests"
  by (simp add: dns_tests_def big_endian_network_eq [OF assms] test_passes)

theorem dns_tests_pass_witness: "list_all (\<lambda>t. t network) dns_tests"
  by (rule dns_tests_pass [OF network.big_endian_axioms])

end
