(* ===== verification/Dns_Types.thy ===== *)
theory Dns_Types
  imports Dns_Packet
begin

text \<open>
  What the Rust types of \<^verbatim>\<open>dns_parser/structs.rs\<close> promise of a parsed packet beyond their fields: a
  \<^verbatim>\<open>Name\<close> can be displayed, a \<^verbatim>\<open>String\<close> is UTF-8, the lifetime of the packet is that of the buffer its
  names point into, a TTL is a signed 32-bit number that is not negative.  The judgements below say
  this of every part of a packet, and \<^verbatim>\<open>Packet::parse\<close> is shown to return well-typed packets only.
\<close>

section \<open>Well-typed parts of a packet\<close>

definition name_ok :: "byteorder \<Rightarrow> bytes \<Rightarrow> name \<Rightarrow> bool" where
  "name_ok bo data n \<longleftrightarrow> original n = data \<and> 0 < byte_len n \<and>
     (case name_to_string bo n of Some (Ok s) \<Rightarrow> is_ascii s | _ \<Rightarrow> False)"

fun rr_data_ok :: "byteorder \<Rightarrow> bytes \<Rightarrow> rr_data \<Rightarrow> bool" where
  "rr_data_ok bo data (RR_CNAME n) = name_ok bo data n"
| "rr_data_ok bo data (RR_NS n) = name_ok bo data n"
| "rr_data_ok bo data (RR_PTR n) = name_ok bo data n"
| "rr_data_ok bo data (RR_SRV _ _ _ n) = name_ok bo data n"
| "rr_data_ok bo data (RR_MX _ n) = name_ok bo data n"
| "rr_data_ok bo data (RR_SOA s) = (name_ok bo data (primary_ns s) \<and> name_ok bo data (mailbox s))"
| "rr_data_ok bo data (RR_TXT t) = utf8 t"
| "rr_data_ok bo data (RR_Unknown b) = (length b < 65536)"
| "rr_data_ok bo data (RR_A _) = True"
| "rr_data_ok bo data (RR_AAAA _) = True"

definition question_ok :: "byteorder \<Rightarrow> bytes \<Rightarrow> question \<Rightarrow> bool" where
  "question_ok bo data q \<longleftrightarrow> name_ok bo data (qname q)"

definition record_ok :: "byteorder \<Rightarrow> bytes \<Rightarrow> resource_record \<Rightarrow> bool" where
  "record_ok bo data r \<longleftrightarrow> name_ok bo data (rr_name r) \<and> 0 \<le> sint (rr_ttl r) \<and> rr_data_ok bo data (rr_rdata r)"

definition opt_ok :: "opt_record \<Rightarrow> bool" where
  "opt_ok opt \<longleftrightarrow> (case opt_data opt of RR_Unknown b \<Rightarrow> length b < 65536 | _ \<Rightarrow> False)"

definition packet_ok :: "byteorder \<Rightarrow> bytes \<Rightarrow> packet \<Rightarrow> bool" where
  "packet_ok bo data p \<longleftrightarrow>
     wf_header (p_header p) \<and> list_all (question_ok bo data) (p_questions p) \<and>
     list_all (record_ok bo data) (p_answers p) \<and> list_all (record_ok bo data) (p_nameservers p) \<and>
     list_all (record_ok bo data) (p_additional p) \<and> pred_option opt_ok (p_opt p)"

section \<open>The parsers return well-typed parts\<close>

lemma decodes_ascii: "decodes orig m data t \<Longrightarrow> is_ascii (wire_text dot t)"
  by (induction arbitrary: dot rule: decodes.induct) (auto simp: is_ascii_def)

lemma small_sint_nonneg:
  fixes w :: u32
  assumes "w \<le> 0x7FFFFFFF"
  shows "0 \<le> sint w"
proof -
  have "unat w < 2 ^ 31" using assms by (simp add: word_le_nat_alt)
  then have "uint w < 2 ^ 31" by (metis nat_uint_eq of_nat_less_iff of_nat_numeral of_nat_power of_nat_unat)
  then have "signed_take_bit 31 (uint w) = uint w" using uint_ge_0 [of w] by (intro signed_take_bit_int_eq_self) linarith+
  moreover have "sint w = signed_take_bit 31 (uint w)" by (simp only: sint_uint len_num1 len_bit0 len_bit1) simp
  ultimately show ?thesis by simp
qed

lemma slice_range_length: "(slice_range xs a b :: ('e, 'b list) res) = Ok ys \<Longrightarrow> length ys = b - a"
  by (auto simp: slice_range_def split: if_splits)

lemma unat_u16_less [simp]: "unat (n :: u16) < 65536"
  using unsigned_less [of n] by simp

text \<open>An entry parser that returns entries of which \<open>P\<close> holds fills a section with such entries.\<close>

locale typed_entry = entry_parser p len
  for p :: "nat \<Rightarrow> (dns_error, 'r \<times> nat) res" and len :: nat +
  fixes P :: "'r \<Rightarrow> bool"
  assumes entry_typed: "off \<le> len \<Longrightarrow> p off = Ok (r, off') \<Longrightarrow> P r"
begin

lemma section_typed:
  "off \<le> len \<Longrightarrow> parse_section p n off = Ok (rs, off') \<Longrightarrow> list_all P rs"
proof (induction n arbitrary: off rs)
  case (Suc n)
  from Suc.prems(2) obtain r o1 rs' where
    "p off = Ok (r, o1)" "parse_section p n o1 = Ok (rs', off')" "rs = r # rs'"
    by (auto simp: outcome_simps)
  with Suc.prems(1) Suc.IH [of o1 rs'] entry_advances [of off r o1] entry_typed [of off r o1]
  show ?case by auto
qed simp

end

context big_endian
begin

lemma name_scan_typed:
  assumes "name_scan bo d data = Ok n"
  shows "name_ok bo data n"
proof -
  obtain t where t: "decodes data (length data) d t" "n = \<lparr>labels = take (wire_len t) d, original = data\<rparr>"
    using assms by (auto simp: name_scan_Ok_iff)
  obtain t' where "decodes data (length data) d t'" "name_to_string bo n = Some (Ok (wire_text False t'))"
    using display_scanned [OF assms] by blast
  then show ?thesis using t name_scan_byte_len [OF assms] decodes_ascii [of data "length data" d t' False]
    by (simp add: name_ok_def)
qed

lemma rrdata_parse_typed:
  assumes "rrdata_parse bo typ rd data = Ok d" "length rd < 65536"
  shows "rr_data_ok bo data d"
proof (cases "typ")
  case T_TXT
  then obtain cs where cs: "list_all txt_chunk cs" "d = RR_TXT (concat cs)"
    using assms(1) txt_parse_iff [of bo rd data d] by auto
  from cs(1) have "utf8 (concat cs)" by (induction cs) (auto simp: utf8_append txt_chunk_def utf8_ascii is_ascii_def)
  then show ?thesis by (simp add: cs(2))
qed (use assms in \<open>auto simp: rrdata_parse_def parse_a_eq parse_aaaa_def parse_mx_def parse_srv_def parse_soa_def
      outcome_simps Let_def name_scan_typed split: if_splits\<close>)

lemma parse_question_typed:
  "parse_question bo data off = Ok (q, off') \<Longrightarrow> question_ok bo data q"
  by (auto simp: parse_question_def question_ok_def outcome_simps Let_def name_scan_typed
      split: if_splits prod.splits)

lemma parse_record_typed:
  assumes "off \<le> length data" "parse_record bo data off = Ok (r, off')"
  shows "record_ok bo data r"
proof -
  have "name_ok bo data (rr_name r)"
    using assms(2) by (auto simp: parse_record_def outcome_simps Let_def name_scan_typed
      split: if_splits prod.splits)
  moreover have "\<exists>ty rd. rrdata_parse bo ty rd data = Ok (rr_rdata r) \<and> length rd < 65536"
    using assms(2) by (auto simp: parse_record_def outcome_simps Let_def
      split: if_splits prod.splits dest!: slice_range_length; metis unat_u16_less)
  moreover have "0 \<le> sint (rr_ttl r)"
    by (rule small_sint_nonneg) (use parse_record_advances [OF assms] in simp)
  ultimately show ?thesis by (auto simp: record_ok_def rrdata_parse_typed)
qed

lemma parse_opt_record_typed:
  assumes "parse_opt_record bo data off = Ok (r, off')"
  shows "opt_ok r"
proof -
  have "\<exists>rd. rrdata_parse bo T_OPT rd data = Ok (opt_data r) \<and> length rd < 65536"
    using assms by (auto simp: parse_opt_record_def outcome_simps Let_def
      split: if_splits dest!: slice_range_length; metis unat_u16_less)
  then show ?thesis by (auto simp: rrdata_parse_def opt_ok_def split: rr_data.splits)
qed

end

sublocale big_endian \<subseteq> typed_record:
  typed_entry "parse_record bo data" "length data" "record_ok bo data" for data
  by unfold_locales (rule parse_record_typed)

sublocale big_endian \<subseteq> typed_question:
  typed_entry "parse_question bo data" "length data" "question_ok bo data" for data
  by unfold_locales (rule parse_question_typed)

interpretation network_typed: typed_entry "parse_record network data" "length data" "record_ok network data" for data
  by (rule network.typed_record.typed_entry_axioms)

context big_endian
begin

lemma parse_additional_typed:
  "off \<le> length data \<Longrightarrow> parse_additional bo data n off add opt = Ok (add', opt', off') \<Longrightarrow>
   list_all (record_ok bo data) add \<Longrightarrow> pred_option opt_ok opt \<Longrightarrow>
   list_all (record_ok bo data) add' \<and> pred_option opt_ok opt'"
proof (induction n arbitrary: off add opt)
  case (Suc n)
  consider (opt) o1 off1 where "parse_opt_record bo data off = Ok (o1, off1)"
      "parse_additional bo data n off1 add (Some o1) = Ok (add', opt', off')"
    | (rec) r off1 where "parse_record bo data off = Ok (r, off1)"
      "parse_additional bo data n off1 (add @ [r]) opt = Ok (add', opt', off')"
    using Suc.prems(2) by (auto simp: outcome_simps split: if_splits)
  then show ?case
  proof cases
    case opt
    with parse_opt_record_advances [OF opt(1)] parse_opt_record_typed [OF opt(1)]
      Suc.IH [OF _ opt(2) Suc.prems(3)] show ?thesis by simp
  next
    case rec
    with parse_record_advances [OF Suc.prems(1) rec(1)] parse_record_typed [OF Suc.prems(1) rec(1)]
      Suc.IH [OF _ rec(2) _ Suc.prems(4)] Suc.prems(3) show ?thesis by simp
  qed
qed simp

lemma packet_parse_ok:
  assumes "packet_parse bo data = Ok p"
  shows "packet_ok bo data p"
proof -
  from assms obtain h qs o1 ans o2 nss o3 add opt o4 where
    h: "header_parse bo data = Ok h" and
    qs: "parse_section (parse_question bo data) (unat (h_questions h)) header_size = Ok (qs, o1)" and
    ans: "parse_section (parse_record bo data) (unat (h_answers h)) o1 = Ok (ans, o2)" and
    nss: "parse_section (parse_record bo data) (unat (h_nameservers h)) o2 = Ok (nss, o3)" and
    add: "parse_additional bo data (unat (h_additional h)) o3 [] None = Ok (add, opt, o4)" and
    p: "p = \<lparr>p_header = h, p_questions = qs, p_answers = ans, p_nameservers = nss,
            p_additional = add, p_opt = opt\<rparr>"
    by (rule packet_parse_OkE)
  have hs: "header_size \<le> length data" using header_parse_Ok_D(1) [OF h] by (simp add: header_size_def)
  have o1: "o1 \<le> length data" using question_entry.section_advances [OF hs qs] by simp
  have o2: "o2 \<le> length data" using record_entry.section_advances [OF o1 ans] by simp
  have o3: "o3 \<le> length data" using record_entry.section_advances [OF o2 nss] by simp
  show ?thesis
    using header_parse_Ok_D(2) [OF h] typed_question.section_typed [OF hs qs]
      typed_record.section_typed [OF o1 ans] typed_record.section_typed [OF o2 nss]
      parse_additional_typed [OF o3 add]
    by (simp add: packet_ok_def p)
qed

end

section \<open>Properties\<close>

text \<open>
  C36: \<^verbatim>\<open>Packet::parse\<close> returns well-typed packets only: every name of it, in questions, in records and
  inside record data, points into the parsed buffer and can be displayed as ASCII text without a
  panic; every text is UTF-8; no TTL is negative when it is read as a signed number (RFC 2181); and
  the opcode and the response code fit their four bits.
\<close>

theorem packet_parse_well_typed:
  assumes "big_endian bo" "packet_parse bo data = Ok p"
  shows "packet_ok bo data p"
  by (rule big_endian.packet_parse_ok [OF assms])

theorem packet_parse_well_typed_witness: "packet_ok network example_response example_packet"
  by (rule packet_parse_well_typed [OF network.big_endian_axioms example_response_parse])

end
