(* ===== verification/Dns_Mac.thy ===== *)
theory Dns_Mac
  imports Dns_Lookup
begin

text \<open>
  \<^verbatim>\<open>dns.rs\<close>: the client for macOS, which leaves the lookup to CoreFoundation.  A lookup crosses two
  threads: \<^verbatim>\<open>start_lookup\<close> sends a message with a raw pointer to the host name through a message port,
  \<^verbatim>\<open>port_cb\<close> on the run loop of the second thread starts the resolution with a raw pointer to a boxed
  request as its context, \<^verbatim>\<open>resolv_cb\<close> stores the address into the request and sends the pointer through
  a channel, and \<^verbatim>\<open>check_result\<close> takes the box back from the pointer.

  The boxes live in an explicit store; reading or freeing a box that is not there is undefined
  behaviour, the value \<^const>\<open>None\<close> of the operations below.  CoreFoundation is not part of the sources: what
  its calls return (whether a string can be made, a port opened, a request sent; the outcome of a
  resolution) is an argument of the definitions, and the order in which the run loop delivers messages
  and finished resolutions is left open by the step relation.

  The two threads meet at the box of a request: \<^verbatim>\<open>resolv_cb\<close> sends the pointer and drops the box only when
  it returns, and \<^verbatim>\<open>check_result\<close> first receives the pointer and then uses the box.  Both are therefore two
  steps each, \<open>resolv_begin\<close> and \<open>resolv_end\<close>, \<open>check_recv\<close> and \<open>check_use\<close>, between which the other
  thread may go on; one thread runs one callback or one call at a time.

  One client is modelled.  All clients use the same port name: a message that \<^verbatim>\<open>start_lookup\<close> sends to the
  port of another client or another process leaves the model, and messages that others send to this
  client's port do not occur in it.
\<close>

section \<open>Messages, boxes and the state of the two threads\<close>

type_synonym addr = nat

record thread_msg =
  tm_id :: usize
  tm_gen :: usize
  tm_host :: "addr option"
  tm_resp :: ip_addr

definition no_address :: ip_addr where "no_address = V4 0"

definition thread_msg_default :: thread_msg where
  "thread_msg_default = \<lparr>tm_id = 0, tm_gen = 0, tm_host = None, tm_resp = no_address\<rparr>"

text \<open>What a box holds: the \<^verbatim>\<open>String\<close> of a host, or a request.\<close>

datatype box = StrBox bytes | MsgBox thread_msg

text \<open>
  The store of boxes with the next fresh address, the message port, the contexts of the resolutions
  that run, the channel of \<^verbatim>\<open>ThreadResp\<close>s with whether its receiver is still there, whether the
  second thread has set its \<^verbatim>\<open>TX\<close>, and whether its run loop runs; the box that a \<^verbatim>\<open>resolv_cb\<close> in progress
  has yet to drop, and the pointer that a \<^verbatim>\<open>check_result\<close> in progress has received.
\<close>

record mac_dns =
  m_heap :: "addr \<rightharpoonup> box"
  m_next :: addr
  m_port :: "thread_msg list"
  m_lookups :: "(bytes \<times> addr) list"
  m_chan :: "addr list"
  m_rx :: bool
  m_tx :: bool
  m_running :: bool
  m_ending :: "addr option"
  m_taken :: "addr option"

definition box_new :: "mac_dns \<Rightarrow> box \<Rightarrow> mac_dns \<times> addr" where
  "box_new s b = (s\<lparr>m_heap := (m_heap s)(m_next s \<mapsto> b), m_next := m_next s + 1\<rparr>, m_next s)"

definition box_drop :: "mac_dns \<Rightarrow> addr \<Rightarrow> mac_dns" where
  "box_drop s a = s\<lparr>m_heap := (m_heap s)(a := None)\<rparr>"

text \<open>
  What the calls of CoreFoundation answer: whether a string can be made, the local port created, a remote port
  found and whether it is that of this client, and the code of sending.
\<close>

record cf_env =
  cf_string :: "bytes \<Rightarrow> bool"
  cf_local :: bool
  cf_remote :: bool
  cf_ours :: bool
  cf_send :: int

text \<open>An address as CoreFoundation stores it, in network order, by its \<^verbatim>\<open>sa_family\<close>.\<close>

datatype sockaddr = Inet u8 u8 u8 u8 | Inet6 bytes | OtherFamily int

record resolution =
  rs_error :: int
  rs_resolved :: bool
  rs_addrs :: "sockaddr list"

section \<open>Operations\<close>

definition port_name :: bytes where
  "port_name = [99, 111, 109, 46, 101, 97, 115, 121, 102, 105, 98, 101, 114, 115, 46, 100, 110, 115]"

definition mac_new :: mac_dns where
  "mac_new = \<lparr>m_heap = Map.empty, m_next = 0, m_port = [], m_lookups = [], m_chan = [],
     m_rx = True, m_tx = False, m_running = False, m_ending = None, m_taken = None\<rparr>"

definition mac_lookup_on :: "sock \<Rightarrow> nat \<Rightarrow> bytes \<Rightarrow> (io_error, unit) res" where
  "mac_lookup_on _ _ _ = Ok ()"

text \<open>
  \<^verbatim>\<open>check_result\<close>: \<^verbatim>\<open>try_recv\<close>, then the box made from the pointer received, which is dropped at the end.
\<close>

definition check_recv :: "mac_dns \<Rightarrow> mac_dns" where
  "check_recv s = (case m_chan s of [] \<Rightarrow> s | r # rs \<Rightarrow> s\<lparr>m_chan := rs, m_taken := Some r\<rparr>)"

definition check_use :: "mac_dns \<Rightarrow> (mac_dns \<times> (usize \<times> usize \<times> ip_addr) option) option" where
  "check_use s =
     (case m_taken s of
        None \<Rightarrow> Some (s, None)
      | Some r \<Rightarrow>
         (case m_heap s r of
            Some (MsgBox req) \<Rightarrow>
              Some ((box_drop s r)\<lparr>m_taken := None\<rparr>,
                if tm_resp req \<noteq> no_address then Some (tm_id req, tm_gen req, tm_resp req) else None)
          | _ \<Rightarrow> None))"

definition mac_check_result :: "mac_dns \<Rightarrow> (mac_dns \<times> (usize \<times> usize \<times> ip_addr) option) option" where
  "mac_check_result s = check_use (check_recv s)"

definition mac_start_lookup ::
  "cf_env \<Rightarrow> usize \<Rightarrow> usize \<Rightarrow> bytes \<Rightarrow> mac_dns \<Rightarrow> mac_dns \<times> (io_error, sock option) res" where
  "mac_start_lookup cf i g host s =
     (if cf_string cf port_name then
        if \<not> cf_remote cf then (s, Err (IoError OtherKind ''port create failed''))
        else
          (let (s, h) = box_new s (StrBox host);
               msg = \<lparr>tm_id = i, tm_gen = g, tm_host = Some h, tm_resp = no_address\<rparr> in
           if cf_send cf \<noteq> 0 then (s, Err (IoError OtherKind ''can not send port''))
           else (if cf_ours cf then s\<lparr>m_port := m_port s @ [msg]\<rparr> else s, Ok None))
      else (s, Ok None))"

text \<open>\<^verbatim>\<open>Drop for Dns\<close>: ask the thread to end, then the receiver goes away with what is in the channel.\<close>

definition mac_drop :: "cf_env \<Rightarrow> mac_dns \<Rightarrow> mac_dns" where
  "mac_drop cf s = (fst (mac_start_lookup cf 0 0 [] s))\<lparr>m_rx := False, m_chan := []\<rparr>"

text \<open>
  The function of the second thread: without the string the thread ends at once; a local port that could not be
  created is passed on as a null pointer, which CoreFoundation does not define.
\<close>

definition mac_thread_func :: "cf_env \<Rightarrow> mac_dns \<Rightarrow> mac_dns option" where
  "mac_thread_func cf s =
     (let s = s\<lparr>m_tx := True\<rparr> in
      if cf_string cf port_name then if cf_local cf then Some (s\<lparr>m_running := True\<rparr>) else None
      else Some s)"

definition port_cb :: "cf_env \<Rightarrow> thread_msg \<Rightarrow> mac_dns \<Rightarrow> mac_dns option" where
  "port_cb cf msg s =
     (case tm_host msg of
        None \<Rightarrow> None
      | Some h \<Rightarrow>
         (case m_heap s h of
            Some (StrBox host) \<Rightarrow>
              if length host = 0 then Some (box_drop (s\<lparr>m_running := False\<rparr>) h)
              else
                (let (s, info) = box_new s (MsgBox
                       \<lparr>tm_id = tm_id msg, tm_gen = tm_gen msg, tm_host = None, tm_resp = no_address\<rparr>) in
                 if cf_string cf host
                 then Some (box_drop (s\<lparr>m_lookups := m_lookups s @ [(host, info)]\<rparr>) h)
                 else Some (box_drop (box_drop s info) h))
          | _ \<Rightarrow> None))"

definition read_in6 :: "byteorder \<Rightarrow> bytes \<Rightarrow> (io_error, ipv6) res" where
  "read_in6 bo l =
     bindR (bindR (slice_from l 0) (read_u16 bo)) (\<lambda>a.
     bindR (bindR (slice_from l 2) (read_u16 bo)) (\<lambda>b.
     bindR (bindR (slice_from l 4) (read_u16 bo)) (\<lambda>c.
     bindR (bindR (slice_from l 6) (read_u16 bo)) (\<lambda>d.
     bindR (bindR (slice_from l 8) (read_u16 bo)) (\<lambda>e.
     bindR (bindR (slice_from l 10) (read_u16 bo)) (\<lambda>f.
     bindR (bindR (slice_from l 12) (read_u16 bo)) (\<lambda>g.
     bindR (bindR (slice_from l 14) (read_u16 bo)) (\<lambda>h.
     Ok (Ipv6 a b c d e f g h)))))))))"

text \<open>
  The loop of \<^verbatim>\<open>resolv_cb\<close> over the addresses, with \<^verbatim>\<open>req.resp\<close> as its variable: an IPv4 address ends
  it, an IPv6 address does not.
\<close>

fun choose_addr :: "byteorder \<Rightarrow> sockaddr list \<Rightarrow> ip_addr \<Rightarrow> (io_error, ip_addr) res" where
  "choose_addr bo [] resp = Ok resp"
| "choose_addr bo (Inet a b c d # as) resp = Ok (V4 (be32 a b c d))"
| "choose_addr bo (Inet6 l # as) resp = bindR (read_in6 bo l) (\<lambda>ip. choose_addr bo as (V6 ip))"
| "choose_addr bo (OtherFamily n # as) resp = choose_addr bo as resp"

text \<open>
  \<^verbatim>\<open>resolv_cb\<close> takes the box from the context, chooses the address and sends the context's pointer; the box is
  dropped when the callback returns.
\<close>

definition resolv_begin :: "byteorder \<Rightarrow> resolution \<Rightarrow> addr \<Rightarrow> mac_dns \<Rightarrow> mac_dns option" where
  "resolv_begin bo res info s =
     (case m_heap s info of
        Some (MsgBox req) \<Rightarrow>
          (case (if rs_error res = 0 \<and> rs_resolved res then choose_addr bo (rs_addrs res) (tm_resp req)
                 else Ok (tm_resp req)) of
             Ok ip \<Rightarrow>
               (let s = s\<lparr>m_heap := (m_heap s)(info \<mapsto> MsgBox (req\<lparr>tm_resp := ip\<rparr>))\<rparr>;
                    s = (if m_tx s \<and> m_rx s then s\<lparr>m_chan := m_chan s @ [info]\<rparr> else s) in
                Some (s\<lparr>m_ending := Some info\<rparr>))
           | _ \<Rightarrow> None)
      | _ \<Rightarrow> None)"

definition resolv_end :: "mac_dns \<Rightarrow> mac_dns option" where
  "resolv_end s =
     (case m_ending s of
        None \<Rightarrow> Some s
      | Some a \<Rightarrow>
         (case m_heap s a of Some (MsgBox req) \<Rightarrow> Some ((box_drop s a)\<lparr>m_ending := None\<rparr>) | _ \<Rightarrow> None))"

definition resolv_cb :: "byteorder \<Rightarrow> resolution \<Rightarrow> addr \<Rightarrow> mac_dns \<Rightarrow> mac_dns option" where
  "resolv_cb bo res info s = Option.bind (resolv_begin bo res info s) resolv_end"

section \<open>Steps of the two threads\<close>

text \<open>
  The program calls \<^verbatim>\<open>start_lookup\<close>, \<^verbatim>\<open>check_result\<close> and \<^verbatim>\<open>drop\<close>, none of them while a \<^verbatim>\<open>check_result\<close> is in
  progress; the second thread starts once; its run loop delivers any message of the port and any finished
  resolution, each once, and none while a callback is in progress.
\<close>

inductive mac_step :: "byteorder \<Rightarrow> mac_dns \<Rightarrow> mac_dns \<Rightarrow> bool" for bo where
  step_thread: "\<not> m_tx s \<Longrightarrow> mac_thread_func cf s = Some s' \<Longrightarrow> mac_step bo s s'"
| step_lookup: "m_taken s = None \<Longrightarrow> mac_start_lookup cf i g host s = (s', r) \<Longrightarrow> mac_step bo s s'"
| step_port: "m_running s \<Longrightarrow> m_ending s = None \<Longrightarrow> m_port s = xs @ msg # ys \<Longrightarrow>
     port_cb cf msg (s\<lparr>m_port := xs @ ys\<rparr>) = Some s' \<Longrightarrow> mac_step bo s s'"
| step_resolved: "m_running s \<Longrightarrow> m_ending s = None \<Longrightarrow> m_lookups s = xs @ (host, info) # ys \<Longrightarrow>
     resolv_begin bo res info (s\<lparr>m_lookups := xs @ ys\<rparr>) = Some s' \<Longrightarrow> mac_step bo s s'"
| step_returns: "m_ending s = Some a \<Longrightarrow> resolv_end s = Some s' \<Longrightarrow> mac_step bo s s'"
| step_recv: "m_taken s = None \<Longrightarrow> mac_step bo s (check_recv s)"
| step_use: "m_taken s = Some a \<Longrightarrow> check_use s = Some (s', r) \<Longrightarrow> mac_step bo s s'"
| step_drop: "m_taken s = None \<Longrightarrow> mac_step bo s (mac_drop cf s)"

inductive mac_reach :: "byteorder \<Rightarrow> mac_dns \<Rightarrow> bool" for bo where
  reach_new: "mac_reach bo mac_new"
| reach_step: "mac_reach bo s \<Longrightarrow> mac_step bo s s' \<Longrightarrow> mac_reach bo s'"

section \<open>Which pointers are alive\<close>

text \<open>
  A host that waits in the port and a request whose resolution runs have exactly one owner and are
  alive.  A pointer that has been sent and not been used is alive only while the callback that sent it is still
  in progress; the box that a callback has yet to drop is a request or has been freed already.
\<close>

definition port_alive :: "(addr \<rightharpoonup> box) \<Rightarrow> thread_msg \<Rightarrow> bool" where
  "port_alive hp msg \<longleftrightarrow> (\<exists>h host. tm_host msg = Some h \<and> hp h = Some (StrBox host))"

definition info_alive :: "(addr \<rightharpoonup> box) \<Rightarrow> bytes \<times> addr \<Rightarrow> bool" where
  "info_alive hp l \<longleftrightarrow> (\<exists>req. hp (snd l) = Some (MsgBox req))"

definition handed :: "mac_dns \<Rightarrow> addr list" where
  "handed s = (case m_taken s of None \<Rightarrow> [] | Some r \<Rightarrow> [r]) @ m_chan s"

definition handed_ok :: "mac_dns \<Rightarrow> addr \<Rightarrow> bool" where
  "handed_ok s a \<longleftrightarrow> a < m_next s \<and>
     (m_ending s = Some a \<longrightarrow> (\<exists>req. m_heap s a = Some (MsgBox req))) \<and>
     (m_ending s \<noteq> Some a \<longrightarrow> m_heap s a = None)"

definition ending_ok :: "mac_dns \<Rightarrow> addr \<Rightarrow> bool" where
  "ending_ok s a \<longleftrightarrow> a < m_next s \<and> (\<forall>host. m_heap s a \<noteq> Some (StrBox host)) \<and> a \<notin> snd ` set (m_lookups s)"

definition mac_ok :: "mac_dns \<Rightarrow> bool" where
  "mac_ok s \<longleftrightarrow>
     (\<forall>a. m_next s \<le> a \<longrightarrow> m_heap s a = None) \<and>
     (\<forall>msg \<in> set (m_port s). port_alive (m_heap s) msg) \<and> distinct (map tm_host (m_port s)) \<and>
     (\<forall>l \<in> set (m_lookups s). info_alive (m_heap s) l) \<and> distinct (map snd (m_lookups s)) \<and>
     (\<forall>a \<in> set (handed s). handed_ok s a) \<and> distinct (handed s) \<and>
     (\<forall>a. m_ending s = Some a \<longrightarrow> ending_ok s a)"

lemma mac_okD:
  assumes "mac_ok s"
  shows "m_next s \<le> a \<Longrightarrow> m_heap s a = None"
    and "msg \<in> set (m_port s) \<Longrightarrow> port_alive (m_heap s) msg"
    and "distinct (map tm_host (m_port s))"
    and "l \<in> set (m_lookups s) \<Longrightarrow> info_alive (m_heap s) l"
    and "distinct (map snd (m_lookups s))"
    and "a \<in> set (handed s) \<Longrightarrow> handed_ok s a"
    and "distinct (handed s)"
    and "m_ending s = Some a \<Longrightarrow> ending_ok s a"
  using assms by (auto simp: mac_ok_def)

lemma handed_upd [simp]:
  "handed (s\<lparr>m_heap := h\<rparr>) = handed s" "handed (s\<lparr>m_next := n\<rparr>) = handed s"
  "handed (s\<lparr>m_port := ms\<rparr>) = handed s" "handed (s\<lparr>m_lookups := ls\<rparr>) = handed s"
  "handed (s\<lparr>m_tx := b\<rparr>) = handed s" "handed (s\<lparr>m_running := b\<rparr>) = handed s"
  "handed (s\<lparr>m_ending := e\<rparr>) = handed s"
  by (simp_all add: handed_def)

lemmas mac_ok_defs = mac_ok_def handed_ok_def ending_ok_def

text \<open>A pointer stays alive when another box changes; it points to no box of the other sort.\<close>

lemma alive_upd [simp]:
  "tm_host msg \<noteq> Some a \<Longrightarrow> port_alive (hp(a := x)) msg = port_alive hp msg"
  "snd l \<noteq> a \<Longrightarrow> info_alive (hp(a := x)) l = info_alive hp l"
  by (auto simp: port_alive_def info_alive_def)

lemma alive_other:
  "port_alive hp msg \<Longrightarrow> hp a = None \<or> hp a = Some (MsgBox r) \<Longrightarrow> tm_host msg \<noteq> Some a"
  "info_alive hp l \<Longrightarrow> hp a = None \<or> hp a = Some (StrBox t) \<Longrightarrow> snd l \<noteq> a"
  by (auto simp: port_alive_def info_alive_def)

text \<open>A fresh box disturbs no pointer; a box that nothing points to may be dropped.\<close>

lemma mac_ok_box_new:
  assumes "mac_ok s" "box_new s b = (s', a)"
  shows "mac_ok s'" "m_heap s' a = Some b" "m_heap s a = None" "m_port s' = m_port s" "m_lookups s' = m_lookups s"
    "\<forall>msg \<in> set (m_port s). tm_host msg \<noteq> Some a" "\<forall>l \<in> set (m_lookups s). snd l \<noteq> a"
    "m_ending s' = m_ending s" "m_ending s \<noteq> Some a"
proof -
  have a: "a = m_next s" and s': "s' = s\<lparr>m_heap := (m_heap s)(a \<mapsto> b), m_next := a + 1\<rparr>"
    using assms(2) by (auto simp: box_new_def)
  show "m_heap s' a = Some b" "m_port s' = m_port s" "m_lookups s' = m_lookups s" "m_ending s' = m_ending s"
    by (simp_all add: s')
  show "m_ending s \<noteq> Some a" using mac_okD(8) [OF assms(1), of a] by (auto simp: a ending_ok_def)
  show fresh: "m_heap s a = None" using mac_okD(1) [OF assms(1)] by (simp add: a)
  show h: "\<forall>msg \<in> set (m_port s). tm_host msg \<noteq> Some a" and i: "\<forall>l \<in> set (m_lookups s). snd l \<noteq> a"
    using alive_other fresh mac_okD(2,4) [OF assms(1)] by blast+
  show "mac_ok s'"
    unfolding mac_ok_def using assms(1) h i by (auto simp: mac_ok_defs s' a)
qed

lemma mac_ok_box_drop:
  assumes "mac_ok s" "\<forall>msg \<in> set (m_port s). tm_host msg \<noteq> Some a" "\<forall>l \<in> set (m_lookups s). snd l \<noteq> a"
    "m_ending s \<noteq> Some a"
  shows "mac_ok (box_drop s a)"
  using assms by (auto simp: mac_ok_defs box_drop_def)

text \<open>Taking one entry out of a list with distinct keys: no other entry has its key.\<close>

lemma distinct_split:
  assumes "distinct (map f zs)" "zs = xs @ y # ys"
  shows "distinct (map f (xs @ ys))" "\<forall>z \<in> set (xs @ ys). f z \<noteq> f y"
proof -
  have "distinct (map f xs @ f y # map f ys)" using assms by simp
  then show "distinct (map f (xs @ ys))" and "\<forall>z \<in> set (xs @ ys). f z \<noteq> f y"
    by auto (metis image_eqI)+
qed

section \<open>Every operation keeps the pointers in order\<close>

lemma mac_start_lookup_ok:
  assumes "mac_ok s" "mac_start_lookup cf i g host s = (s', r)"
  shows "mac_ok s'"
proof (cases "cf_string cf port_name \<and> cf_remote cf")
  case True
  obtain s1 h where b: "box_new s (StrBox host) = (s1, h)" by (cases "box_new s (StrBox host)")
  note n = mac_ok_box_new [OF assms(1) b]
  let ?m = "\<lparr>tm_id = i, tm_gen = g, tm_host = Some h, tm_resp = no_address\<rparr>"
  have "mac_ok (s1\<lparr>m_port := m_port s1 @ [?m]\<rparr>)"
    using n(1,2,4,6) by (auto simp: mac_ok_defs port_alive_def)
  then show ?thesis using assms(2) True b n(1) by (auto simp: mac_start_lookup_def split: if_splits)
qed (use assms in \<open>auto simp: mac_start_lookup_def split: if_splits\<close>)

text \<open>The other operations of the first thread leave the callback in progress alone.\<close>

lemma mac_start_lookup_keeps:
  assumes "mac_start_lookup cf i g host s = (s', r)"
  shows "m_ending s' = m_ending s" "m_taken s' = m_taken s" "a < m_next s \<Longrightarrow> m_heap s' a = m_heap s a"
    "m_next s \<le> m_next s'"
  using assms by (auto simp: mac_start_lookup_def box_new_def split: if_splits)

lemma port_cb_ok:
  assumes "mac_ok s" "m_port s = xs @ msg # ys"
  shows "\<exists>s'. port_cb cf msg (s\<lparr>m_port := xs @ ys\<rparr>) = Some s' \<and> mac_ok s'"
proof -
  let ?s = "s\<lparr>m_port := xs @ ys\<rparr>"
  obtain h host where h: "tm_host msg = Some h" "m_heap s h = Some (StrBox host)"
    using mac_okD(2) [OF assms(1), of msg] assms(2) by (auto simp: port_alive_def)
  note d = distinct_split [OF mac_okD(3) [OF assms(1)] assms(2)]
  have ok: "mac_ok ?s" using assms d(1) by (auto simp: mac_ok_defs)
  have free: "\<forall>m \<in> set (xs @ ys). tm_host m \<noteq> Some h" "\<forall>l \<in> set (m_lookups s). snd l \<noteq> h"
    using d(2) h(1) alive_other(2) mac_okD(4) [OF assms(1)] h(2) by (simp, blast)
  have en: "m_ending s \<noteq> Some h" using mac_okD(8) [OF assms(1), of h] h(2) by (auto simp: ending_ok_def)
  let ?req = "MsgBox \<lparr>tm_id = tm_id msg, tm_gen = tm_gen msg, tm_host = None, tm_resp = no_address\<rparr>"
  obtain s1 info where b: "box_new ?s ?req = (s1, info)" by (cases "box_new ?s ?req")
  note n = mac_ok_box_new [OF ok b]
  have hi: "h \<noteq> info" using n(3) h(2) by auto
  have lk: "mac_ok (s1\<lparr>m_lookups := m_lookups s1 @ [(host, info)]\<rparr>)"
    using n(1,2,5,7,8,9) by (auto simp: mac_ok_defs info_alive_def)
  have stop: "mac_ok (?s\<lparr>m_running := False\<rparr>)" using ok by (simp add: mac_ok_defs)
  have 1: "mac_ok (box_drop (?s\<lparr>m_running := False\<rparr>) h)"
    by (rule mac_ok_box_drop [OF stop]) (use free en in simp_all)
  have 2: "mac_ok (box_drop (s1\<lparr>m_lookups := m_lookups s1 @ [(host, info)]\<rparr>) h)"
    by (rule mac_ok_box_drop [OF lk]) (use free n(4,5,8) hi en in auto)
  have 3: "mac_ok (box_drop (box_drop s1 info) h)"
    by (intro mac_ok_box_drop n(1)) (use free n(4-9) en in \<open>auto simp: box_drop_def\<close>)
  show ?thesis using h b 1 2 3 by (simp add: port_cb_def)
qed

lemma read_in6_full:
  assumes "big_endian bo" "length l = 16"
  shows "read_in6 bo l = Ok (Ipv6 (be16 (l ! 0) (l ! 1)) (be16 (l ! 2) (l ! 3)) (be16 (l ! 4) (l ! 5))
    (be16 (l ! 6) (l ! 7)) (be16 (l ! 8) (l ! 9)) (be16 (l ! 10) (l ! 11)) (be16 (l ! 12) (l ! 13))
    (be16 (l ! 14) (l ! 15)))"
  using assms(2) by (simp add: read_in6_def slice_from_in big_endian.read_u16_in [OF assms(1)])

text \<open>An \<^verbatim>\<open>in6_addr\<close> has 16 bytes.\<close>

fun sockaddr_ok :: "sockaddr \<Rightarrow> bool" where
  "sockaddr_ok (Inet6 l) \<longleftrightarrow> length l = 16"
| "sockaddr_ok _ \<longleftrightarrow> True"

lemma choose_addr_Ok:
  "big_endian bo \<Longrightarrow> list_all sockaddr_ok as \<Longrightarrow> \<exists>ip. choose_addr bo as resp = Ok ip"
  by (induction bo as resp rule: choose_addr.induct) (auto simp: read_in6_full)

text \<open>What the first half of \<^verbatim>\<open>resolv_cb\<close> does when it finds its box.\<close>

lemma resolv_begin_cases:
  assumes "resolv_begin bo res info s = Some s'"
  obtains req ip where "m_heap s info = Some (MsgBox req)"
    "s' = s\<lparr>m_heap := (m_heap s)(info \<mapsto> MsgBox (req\<lparr>tm_resp := ip\<rparr>)),
      m_chan := (if m_tx s \<and> m_rx s then m_chan s @ [info] else m_chan s), m_ending := Some info\<rparr>"
proof -
  from assms obtain req where r: "m_heap s info = Some (MsgBox req)"
    by (auto simp: resolv_begin_def split: option.splits box.splits)
  let ?c = "if rs_error res = 0 \<and> rs_resolved res then choose_addr bo (rs_addrs res) (tm_resp req) else Ok (tm_resp req)"
  obtain ip where c: "?c = Ok ip"
    using assms r unfolding resolv_begin_def by (cases ?c) (simp_all del: if_split)
  show thesis
    using assms r c that [of req ip] unfolding resolv_begin_def by (simp add: Let_def del: if_split) (auto split: if_splits)
qed

lemma resolv_begin_ok:
  assumes "mac_ok s" "m_ending s = None" "m_lookups s = xs @ (host, info) # ys"
    "resolv_begin bo res info (s\<lparr>m_lookups := xs @ ys\<rparr>) = Some s'"
  shows "mac_ok s'"
proof -
  note d = distinct_split [OF mac_okD(5) [OF assms(1)] assms(3)]
  from assms(4) obtain req ip where r: "m_heap s info = Some (MsgBox req)"
    and s': "s' = s\<lparr>m_lookups := xs @ ys, m_heap := (m_heap s)(info \<mapsto> MsgBox (req\<lparr>tm_resp := ip\<rparr>)),
      m_chan := (if m_tx s \<and> m_rx s then m_chan s @ [info] else m_chan s), m_ending := Some info\<rparr>"
  proof (rule resolv_begin_cases)
    fix req ip
    assume "m_heap (s\<lparr>m_lookups := xs @ ys\<rparr>) info = Some (MsgBox req)"
      "s' = s\<lparr>m_lookups := xs @ ys, m_heap := (m_heap (s\<lparr>m_lookups := xs @ ys\<rparr>))(info \<mapsto> MsgBox (req\<lparr>tm_resp := ip\<rparr>)),
        m_chan := (if m_tx (s\<lparr>m_lookups := xs @ ys\<rparr>) \<and> m_rx (s\<lparr>m_lookups := xs @ ys\<rparr>)
          then m_chan (s\<lparr>m_lookups := xs @ ys\<rparr>) @ [info] else m_chan (s\<lparr>m_lookups := xs @ ys\<rparr>)), m_ending := Some info\<rparr>"
    then show thesis by (intro that [of req ip]) (simp_all split: if_split)
  qed
  have lt: "info < m_next s" using mac_okD(1) [OF assms(1), of info] r by (cases "info < m_next s") auto
  have port: "\<forall>m \<in> set (m_port s). tm_host m \<noteq> Some info"
    using alive_other(1) mac_okD(2) [OF assms(1)] r by blast
  have nh: "info \<notin> set (handed s)" using mac_okD(6) [OF assms(1), of info] assms(2) r by (auto simp: handed_ok_def)
  show ?thesis
    unfolding mac_ok_def
  proof (intro conjI allI ballI impI)
    show "m_heap s' a = None" if "m_next s' \<le> a" for a using that mac_okD(1) [OF assms(1)] lt by (simp add: s')
    show "port_alive (m_heap s') msg" if "msg \<in> set (m_port s')" for msg
      using that port mac_okD(2) [OF assms(1)] by (simp add: s')
    show "distinct (map tm_host (m_port s'))" using mac_okD(3) [OF assms(1)] by (simp add: s')
    show "info_alive (m_heap s') l" if "l \<in> set (m_lookups s')" for l
      using that d(2) mac_okD(4) [OF assms(1), of l] assms(3) by (auto simp: s')
    show "distinct (map snd (m_lookups s'))" using d(1) by (simp add: s')
    show "distinct (handed s')" using mac_okD(7) [OF assms(1)] nh by (auto simp: s' handed_def split: option.splits)
    show "handed_ok s' a" if "a \<in> set (handed s')" for a
    proof (cases "a = info")
      case True
      then show ?thesis using lt by (simp add: s' handed_ok_def)
    next
      case False
      then have "handed_ok s a"
        using that mac_okD(6) [OF assms(1), of a] by (auto simp: s' handed_def split: option.splits if_splits)
      then show ?thesis using False assms(2) by (simp add: s' handed_ok_def)
    qed
    show "ending_ok s' a" if "m_ending s' = Some a" for a
      using that lt d(2) by (fastforce simp: s' ending_ok_def)
  qed
qed

lemma resolv_end_ok:
  assumes "mac_ok s" "m_ending s = Some a" "resolv_end s = Some s'"
  shows "mac_ok s'"
proof -
  from assms(2,3) obtain req where r: "m_heap s a = Some (MsgBox req)" "s' = (box_drop s a)\<lparr>m_ending := None\<rparr>"
    by (auto simp: resolv_end_def split: option.splits box.splits)
  have "\<forall>m \<in> set (m_port s). tm_host m \<noteq> Some a" "\<forall>l \<in> set (m_lookups s). snd l \<noteq> a"
    using alive_other(1) mac_okD(2) [OF assms(1)] r mac_okD(8) [OF assms(1,2)]
    by (blast, auto simp: ending_ok_def)
  then show ?thesis using assms(1,2) r by (auto simp: mac_ok_defs box_drop_def)
qed

lemma check_recv_ok:
  assumes "mac_ok s" "m_taken s = None"
  shows "mac_ok (check_recv s)"
  using assms by (cases "m_chan s") (auto simp: mac_ok_defs handed_def check_recv_def)

text \<open>A pointer received is the box that the callback in progress has yet to drop, or dangling.\<close>

lemma check_use_eq:
  assumes "mac_ok s" "m_taken s = Some r"
  shows "m_ending s \<noteq> Some r \<Longrightarrow> check_use s = None"
    and "m_ending s = Some r \<Longrightarrow> \<exists>v. check_use s = Some ((box_drop s r)\<lparr>m_taken := None\<rparr>, v)"
  using mac_okD(6) [OF assms(1), of r] assms(2) by (auto simp: handed_def handed_ok_def check_use_def)

lemma check_use_ok:
  assumes "mac_ok s" "m_taken s = Some r" "check_use s = Some (s', v)"
  shows "mac_ok s'"
proof -
  have e: "m_ending s = Some r" using check_use_eq(1) [OF assms(1,2)] assms(3) by auto
  then have s': "s' = (box_drop s r)\<lparr>m_taken := None\<rparr>" using check_use_eq(2) [OF assms(1,2)] assms(3) by auto
  obtain req where q: "m_heap s r = Some (MsgBox req)"
    using mac_okD(6) [OF assms(1), of r] assms(2) e by (auto simp: handed_def handed_ok_def)
  have "\<forall>m \<in> set (m_port s). tm_host m \<noteq> Some r" "\<forall>l \<in> set (m_lookups s). snd l \<noteq> r"
    using alive_other(1) mac_okD(2) [OF assms(1)] q mac_okD(8) [OF assms(1) e]
    by (blast, auto simp: ending_ok_def)
  then show ?thesis using assms(1,2) e by (auto simp: mac_ok_defs handed_def box_drop_def s')
qed

lemma mac_drop_ok:
  assumes "mac_ok s" "m_taken s = None"
  shows "mac_ok (mac_drop cf s)"
proof -
  obtain s1 r where l: "mac_start_lookup cf 0 0 [] s = (s1, r)" by (cases "mac_start_lookup cf 0 0 [] s")
  from mac_start_lookup_ok [OF assms(1) l] mac_start_lookup_keeps(2) [OF l] assms(2)
  show ?thesis by (simp add: mac_drop_def l mac_ok_defs handed_def)
qed

lemma mac_step_ok: "mac_step bo s s' \<Longrightarrow> mac_ok s \<Longrightarrow> mac_ok s'"
proof (induction rule: mac_step.induct)
  case (step_thread s cf s')
  then have "s' = s\<lparr>m_tx := True, m_running := True\<rparr> \<or> s' = s\<lparr>m_tx := True\<rparr>"
    by (auto simp: mac_thread_func_def Let_def split: if_splits)
  then show ?case using step_thread by (elim disjE) (simp_all add: mac_ok_defs)
next
  case (step_port s xs msg ys cf s')
  then show ?case using port_cb_ok [of s xs msg ys cf] by auto
qed (blast intro: mac_start_lookup_ok resolv_begin_ok resolv_end_ok check_recv_ok check_use_ok mac_drop_ok)+

lemma mac_reach_ok: "mac_reach bo s \<Longrightarrow> mac_ok s"
  by (induction rule: mac_reach.induct) (auto simp: mac_step_ok, simp add: mac_ok_defs handed_def mac_new_def)

text \<open>
  A callback whose box has been freed under it stays in progress: nothing that the program does makes
  its drop defined again.
\<close>

definition stuck :: "mac_dns \<Rightarrow> addr \<Rightarrow> bool" where
  "stuck s a \<longleftrightarrow> mac_ok s \<and> m_ending s = Some a \<and> m_heap s a = None"

lemma stuck_end: "stuck s a \<Longrightarrow> resolv_end s = None"
  by (simp add: stuck_def resolv_end_def)

lemma stuck_step: "mac_step bo s s' \<Longrightarrow> stuck s a \<Longrightarrow> stuck s' a"
proof -
  assume step: "mac_step bo s s'" and st: "stuck s a"
  then have ok: "mac_ok s" "mac_ok s'" and e: "m_ending s = Some a" "m_heap s a = None"
    using mac_step_ok [OF step] by (auto simp: stuck_def)
  have lt: "a < m_next s" using mac_okD(8) [OF ok(1) e(1)] by (simp add: ending_ok_def)
  from step have "m_ending s' = Some a \<and> m_heap s' a = None"
  proof cases
    case (step_thread cf)
    then show ?thesis using e by (auto simp: mac_thread_func_def Let_def split: if_splits)
  next
    case (step_lookup cf i g host r)
    then show ?thesis using e lt mac_start_lookup_keeps [OF step_lookup(2)] by auto
  next
    case (step_recv)
    then show ?thesis using e by (simp add: check_recv_def split: list.split)
  next
    case (step_use r v)
    then show ?thesis using check_use_eq [OF ok(1) step_use(1)] e by (cases "r = a") (auto simp: check_use_def)
  next
    case (step_drop cf)
    obtain s1 r where l: "mac_start_lookup cf 0 0 [] s = (s1, r)" by (cases "mac_start_lookup cf 0 0 [] s")
    show ?thesis using mac_start_lookup_keeps [OF l] e lt by (simp add: step_drop(1) mac_drop_def l)
  qed (use e stuck_end [OF st] in simp_all)
  then show ?thesis using ok(2) by (simp add: stuck_def)
qed

lemma stuck_steps: "(mac_step bo)\<^sup>*\<^sup>* s s' \<Longrightarrow> stuck s a \<Longrightarrow> stuck s' a"
  by (induction rule: rtranclp_induct) (auto intro: stuck_step)

section \<open>The address a lookup reports\<close>

text \<open>
  A definition without the loop: the first IPv4 address if there is one, else the last IPv6 address,
  else the address the request had.
\<close>

definition in6 :: "bytes \<Rightarrow> ipv6" where
  "in6 l = Ipv6 (be16 (l ! 0) (l ! 1)) (be16 (l ! 2) (l ! 3)) (be16 (l ! 4) (l ! 5)) (be16 (l ! 6) (l ! 7))
     (be16 (l ! 8) (l ! 9)) (be16 (l ! 10) (l ! 11)) (be16 (l ! 12) (l ! 13)) (be16 (l ! 14) (l ! 15))"

fun v4_of :: "sockaddr \<Rightarrow> ip_addr option" where
  "v4_of (Inet a b c d) = Some (V4 (be32 a b c d))"
| "v4_of _ = None"

fun v6_of :: "sockaddr \<Rightarrow> ip_addr option" where
  "v6_of (Inet6 l) = Some (V6 (in6 l))"
| "v6_of _ = None"

definition preferred_addr :: "sockaddr list \<Rightarrow> ip_addr \<Rightarrow> ip_addr" where
  "preferred_addr as resp =
     (case List.map_filter v4_of as of
        ip # _ \<Rightarrow> ip
      | [] \<Rightarrow> (case List.map_filter v6_of as of [] \<Rightarrow> resp | ips \<Rightarrow> last ips))"

lemma preferred_addr_simps [simp]:
  "preferred_addr [] resp = resp"
  "preferred_addr (Inet a b c d # as) resp = V4 (be32 a b c d)"
  "preferred_addr (Inet6 l # as) resp = preferred_addr as (V6 (in6 l))"
  "preferred_addr (OtherFamily n # as) resp = preferred_addr as resp"
  by (auto simp: preferred_addr_def map_filter_simps split: list.splits)

lemma choose_addr_preferred:
  "big_endian bo \<Longrightarrow> list_all sockaddr_ok as \<Longrightarrow> choose_addr bo as resp = Ok (preferred_addr as resp)"
  by (induction bo as resp rule: choose_addr.induct) (auto simp: read_in6_full in6_def)

section \<open>Properties\<close>

text \<open>
  C30: the loop of \<^verbatim>\<open>resolv_cb\<close> over the addresses of a host picks the address that the definition
  without a loop names: the first IPv4 address wins over every IPv6 address, wherever it stands; among
  IPv6 addresses the last one wins; without any the request keeps its address.
\<close>

theorem choose_addr_reference:
  assumes "big_endian bo" "list_all sockaddr_ok as"
  shows "choose_addr bo as resp = Ok (preferred_addr as resp)"
  by (rule choose_addr_preferred [OF assms])

theorem choose_addr_reference_witness:
  "choose_addr network [Inet6 (replicate 16 1), OtherFamily 16, Inet6 (replicate 16 2), Inet 10 0 0 1, Inet 8 8 8 8]
     no_address
   = Ok (preferred_addr [Inet6 (replicate 16 1), OtherFamily 16, Inet6 (replicate 16 2), Inet 10 0 0 1, Inet 8 8 8 8]
     no_address)"
  by (rule choose_addr_reference) (simp_all add: network.big_endian_axioms)

text \<open>
  C31: whatever lookups the program starts, in whatever order the run loop delivers messages and
  finished resolutions, and however the two threads interleave, the callbacks start from boxes that are alive:
  the host of a message in the port and the request of a running resolution are there.  A \<^verbatim>\<open>resolv_cb\<close> that is
  not interrupted ends well; and one that is interrupted still drops a live box as long as the pointer that
  it has sent is in the channel, or received by a \<^verbatim>\<open>check_result\<close> that has not used it yet.
\<close>

theorem mac_callbacks_safe:
  assumes "big_endian bo" "mac_reach bo s"
  shows "(m_port s = xs @ msg # ys \<longrightarrow> port_cb cf msg (s\<lparr>m_port := xs @ ys\<rparr>) \<noteq> None) \<and>
    (m_lookups s = ls @ (host, info) # ms \<and> list_all sockaddr_ok (rs_addrs res) \<longrightarrow>
      resolv_begin bo res info (s\<lparr>m_lookups := ls @ ms\<rparr>) \<noteq> None \<and>
      resolv_cb bo res info (s\<lparr>m_lookups := ls @ ms\<rparr>) \<noteq> None) \<and>
    (m_ending s = Some a \<and> (a \<in> set (m_chan s) \<or> m_taken s = Some a) \<longrightarrow> resolv_end s \<noteq> None)"
proof -
  note ok = mac_reach_ok [OF assms(2)]
  have "resolv_begin bo res info (s\<lparr>m_lookups := ls @ ms\<rparr>) \<noteq> None \<and>
      resolv_cb bo res info (s\<lparr>m_lookups := ls @ ms\<rparr>) \<noteq> None"
    if l: "m_lookups s = ls @ (host, info) # ms" "list_all sockaddr_ok (rs_addrs res)"
  proof -
    obtain req where "m_heap s info = Some (MsgBox req)"
      using mac_okD(4) [OF ok, of "(host, info)"] l(1) by (auto simp: info_alive_def)
    with choose_addr_preferred [OF assms(1) l(2)] show ?thesis
      by (simp add: resolv_begin_def resolv_cb_def resolv_end_def Let_def)
  qed
  moreover have "resolv_end s \<noteq> None" if "m_ending s = Some a" "a \<in> set (m_chan s) \<or> m_taken s = Some a"
    using that mac_okD(6) [OF ok, of a] by (auto simp: handed_def handed_ok_def resolv_end_def)
  ultimately show ?thesis using port_cb_ok [OF ok] by fastforce
qed

text \<open>A lookup of \<^verbatim>\<open>"a"\<close> by fiber 7, from the start of the thread to the end of the resolution.\<close>

definition mac_cf :: cf_env where
  "mac_cf = \<lparr>cf_string = (\<lambda>_. True), cf_local = True, cf_remote = True, cf_ours = True, cf_send = 0\<rparr>"

definition mac_asked :: mac_dns where
  "mac_asked = fst (mac_start_lookup mac_cf 7 1 [97] (the (mac_thread_func mac_cf mac_new)))"

definition mac_running_lookup :: mac_dns where
  "mac_running_lookup = the (port_cb mac_cf (hd (m_port mac_asked)) (mac_asked\<lparr>m_port := []\<rparr>))"

definition mac_resolution :: resolution where
  "mac_resolution = \<lparr>rs_error = 0, rs_resolved = True, rs_addrs = [Inet 10 0 0 1]\<rparr>"

definition mac_sent :: mac_dns where
  "mac_sent = the (resolv_begin network mac_resolution 1 (mac_running_lookup\<lparr>m_lookups := []\<rparr>))"

lemmas mac_run_defs = mac_cf_def mac_asked_def mac_running_lookup_def mac_resolution_def mac_sent_def
  mac_start_lookup_def mac_thread_func_def mac_new_def port_cb_def resolv_begin_def resolv_end_def
  check_recv_def box_new_def box_drop_def Let_def

lemma mac_asked_port: "m_port mac_asked = [] @ hd (m_port mac_asked) # []" "m_running mac_asked" "m_ending mac_asked = None"
  by (simp_all add: mac_run_defs)

lemma mac_running_lookups:
  "m_lookups mac_running_lookup = [] @ ([97], 1) # []" "m_running mac_running_lookup" "m_ending mac_running_lookup = None"
  by (simp_all add: mac_run_defs)

lemma mac_asked_reach: "mac_reach network mac_asked"
proof -
  have "mac_reach network (the (mac_thread_func mac_cf mac_new))"
    by (rule reach_step [OF reach_new step_thread [of _ mac_cf]]) (simp_all add: mac_run_defs)
  then show ?thesis
    by (rule reach_step, intro step_lookup [of _ mac_cf 7 1 "[97]"]) (simp_all add: mac_run_defs)
qed

lemma mac_running_reach: "mac_reach network mac_running_lookup"
  by (rule reach_step [OF mac_asked_reach step_port [OF mac_asked_port(2,3,1), of mac_cf]])
    (simp add: mac_run_defs)

lemma mac_sent_reach: "mac_reach network mac_sent"
  by (rule reach_step [OF mac_running_reach
        step_resolved [OF mac_running_lookups(2,3,1), of network mac_resolution]])
    (simp add: mac_run_defs)

text \<open>The result received while the callback is in progress, and after it has returned.\<close>

lemma mac_received_reach: "mac_reach network (check_recv mac_sent)"
  by (rule reach_step [OF mac_sent_reach step_recv]) (simp add: mac_run_defs)

lemma mac_late_reach: "mac_reach network (check_recv (the (resolv_end mac_sent)))"
proof -
  have "mac_reach network (the (resolv_end mac_sent))"
    by (rule reach_step [OF mac_sent_reach step_returns [of _ 1]]) (simp_all add: mac_run_defs)
  then show ?thesis by (rule reach_step [OF _ step_recv]) (simp add: mac_run_defs)
qed

theorem mac_callbacks_safe_witness:
  "resolv_cb network mac_resolution 1 (mac_running_lookup\<lparr>m_lookups := []\<rparr>) \<noteq> None \<and>
   port_cb mac_cf (hd (m_port mac_asked)) (mac_asked\<lparr>m_port := []\<rparr>) \<noteq> None \<and>
   resolv_end (check_recv mac_sent) \<noteq> None"
proof (intro conjI)
  show "resolv_cb network mac_resolution 1 (mac_running_lookup\<lparr>m_lookups := []\<rparr>) \<noteq> None"
    using mac_callbacks_safe [OF network.big_endian_axioms mac_running_reach,
        of _ _ _ _ "[]" "[97]" 1 "[]" mac_resolution] mac_running_lookups
    by (simp add: mac_resolution_def)
  show "port_cb mac_cf (hd (m_port mac_asked)) (mac_asked\<lparr>m_port := []\<rparr>) \<noteq> None"
    using mac_callbacks_safe [OF network.big_endian_axioms mac_asked_reach,
        of "[]" "hd (m_port mac_asked)" "[]" mac_cf] mac_asked_port
    by simp
  have "m_ending (check_recv mac_sent) = Some 1" "m_taken (check_recv mac_sent) = Some 1"
    by (simp_all add: mac_run_defs)
  then show "resolv_end (check_recv mac_sent) \<noteq> None"
    using mac_callbacks_safe [OF network.big_endian_axioms mac_received_reach, where a = 1] by simp
qed

text \<open>
  C32: on macOS every lookup that reports a result has undefined behaviour.  \<^verbatim>\<open>resolv_cb\<close> sends the pointer to
  the request through the channel and then drops the box it made from that pointer.  In every state that the two
  threads can reach and in which \<^verbatim>\<open>check_result\<close> has received a pointer: if the callback that sent it has
  returned, the box that \<^verbatim>\<open>check_result\<close> makes is one of freed memory; if not, \<^verbatim>\<open>check_result\<close> reads and frees the
  box, and the drop at the end of the callback is a double free, whatever the threads do in between.
\<close>

theorem mac_results_dangle:
  assumes "mac_reach bo s" and "m_taken s = Some r"
  shows "(m_ending s \<noteq> Some r \<longrightarrow> check_use s = None) \<and>
    (m_ending s = Some r \<longrightarrow> (\<exists>s' v. check_use s = Some (s', v) \<and>
       (\<forall>s''. (mac_step bo)\<^sup>*\<^sup>* s' s'' \<longrightarrow> m_ending s'' = Some r \<and> resolv_end s'' = None)))"
proof -
  note ok = mac_reach_ok [OF assms(1)]
  have "\<exists>s' v. check_use s = Some (s', v) \<and>
       (\<forall>s''. (mac_step bo)\<^sup>*\<^sup>* s' s'' \<longrightarrow> m_ending s'' = Some r \<and> resolv_end s'' = None)" if e: "m_ending s = Some r"
  proof -
    let ?s = "(box_drop s r)\<lparr>m_taken := None\<rparr>"
    obtain v where v: "check_use s = Some (?s, v)" using check_use_eq(2) [OF ok assms(2) e] by blast
    have "stuck ?s r" using check_use_ok [OF ok assms(2) v] e by (simp add: stuck_def box_drop_def)
    then have "m_ending s'' = Some r \<and> resolv_end s'' = None" if "(mac_step bo)\<^sup>*\<^sup>* ?s s''" for s''
      using stuck_steps [OF that] stuck_end by (auto simp: stuck_def)
    with v show ?thesis by blast
  qed
  then show ?thesis using check_use_eq(1) [OF ok assms(2)] by blast
qed

theorem mac_results_dangle_witness:
  "check_use (check_recv (the (resolv_end mac_sent))) = None \<and>
   (\<exists>s' v. check_use (check_recv mac_sent) = Some (s', v) \<and> resolv_end s' = None)"
proof
  have "m_ending (check_recv (the (resolv_end mac_sent))) = None"
    and t: "m_taken (check_recv (the (resolv_end mac_sent))) = Some 1"
    by (simp_all add: mac_run_defs)
  then show "check_use (check_recv (the (resolv_end mac_sent))) = None"
    using mac_results_dangle [OF mac_late_reach t] by simp
  have "m_ending (check_recv mac_sent) = Some 1" and t: "m_taken (check_recv mac_sent) = Some 1"
    by (simp_all add: mac_run_defs)
  then show "\<exists>s' v. check_use (check_recv mac_sent) = Some (s', v) \<and> resolv_end s' = None"
    using mac_results_dangle [OF mac_received_reach t] by blast
qed

end
