(* ===== verification/Spec2Isabelle.thy ===== *)
theory Spec2Isabelle
  imports Http_Start Dns_Conformance Dns_Types Dns_Mac
begin

text \<open>
  \<^bold>\<open>A verification of easyfibers.\<close>

  easyfibers runs cooperative fibers on one thread.  Each fiber has a stack of its own and works on a socket, or on
  none; an operation that would block switches to the main stack, where the program polls for events and runs the
  fibers that can go on.  The parts of the program, bottom up, and the theories that model them:

  \<^item> \<^verbatim>\<open>dns_parser/\<close>, a parser and builder for DNS packets.  Theories \<open>Byte_Order\<close> (big-endian access, an interface that
    stands for the crate \<^verbatim>\<open>byteorder\<close>), \<open>Dns_Enums\<close> (\<^verbatim>\<open>enums.rs\<close>, \<^verbatim>\<open>error.rs\<close>), \<open>Dns_Header\<close> (\<^verbatim>\<open>header.rs\<close>), \<open>Dns_Name\<close>
    (\<^verbatim>\<open>name.rs\<close>), \<open>Dns_RRData\<close> (\<^verbatim>\<open>rrdata.rs\<close>, \<^verbatim>\<open>structs.rs\<close>), \<open>Dns_Packet\<close> (\<^verbatim>\<open>parser.rs\<close>), \<open>Dns_Builder\<close> (\<^verbatim>\<open>builder.rs\<close>),
    \<open>Dns_Types\<close> (what a well-typed packet is) and \<open>Dns_Conformance\<close> (the unit tests at the end of the parser's files).
    Shown: parsing never panics on any input, returns well-typed packets only and as many entries as announced; names are
    accepted exactly if well-formed, and displaying one terminates although names hold pointers; headers and queries are
    read back as written; what the builder does when its buffer is short.  As a check of the model, the 23 unit tests of the
    parser are evaluated on it.
  \<^item> \<^verbatim>\<open>dns.rs\<close>, the DNS client.  Theories \<open>Io_Model\<close> (sockets and files as an interface), \<open>Ip_Text\<close> (the textual form of
    addresses), \<open>Dns_Lookup\<close> (servers from the configuration file, queries, responses), \<open>Dns_Mac\<close> (the client for macOS: two threads, a message
    port, callbacks and a channel, over a store of boxes, with every interleaving that the run loop allows; a callback
    that has sent its result and not yet dropped its box, and a call that has received a result and not yet used it, are states
    of their own).  Shown: servers are read in order and asked in turn until one accepts a datagram; a usual response gives its
    address; what the client makes of any other datagram; which address the macOS client chooses; that its callbacks start from
    live boxes; and that every result it receives is a use after free or leads to a double free.
  \<^item> \<^verbatim>\<open>builder.rs\<close> and \<^verbatim>\<open>wheel.rs\<close>, the timer wheel.  Theories \<open>Clock\<close> (instants and durations in nanoseconds),
    \<open>Timer_Config\<close>, \<open>Slab_Store\<close> (the interface of the crate \<^verbatim>\<open>slab\<close> as a locale, with an instance), \<open>Timer_Wheel\<close> (the
    operations, on linked lists threaded through the slab), \<open>Wheel_Links\<close>, \<open>Wheel_Invariant\<close>, \<open>Wheel_Ops\<close> and
    \<open>Wheel_Poll\<close> (the invariant and its preservation), \<open>Timer_Service\<close> (a timer service as a finite map from tokens to
    timers, as a locale), \<open>Wheel_Spec\<close> (the wheel refines it), \<open>Wheel_Properties\<close>.  Shown: every reachable wheel
    is well-formed; polling terminates, does not panic, and returns exactly the due timers.
  \<^item> \<^verbatim>\<open>poller.rs\<close>, the poller of a thread, which turns socket events, due timers and lookup results into entries of the
    work queues of up to 20 runners.  Theory \<open>Poller\<close>.  Shown: a poll delivers exactly what happened; a
    registered timer is delivered by the first poll at or after its tick and by none before, whatever else happens to the poller.
  \<^item> \<^verbatim>\<open>fiber.rs\<close>, the sockets and the state of a fiber.  Theories \<open>Fiber_Sock\<close> and \<open>Fiber_State\<close>.  The body of a fiber is
    a possibly infinite tree of calls of the library, given by a table from function names and parameters; a suspended
    fiber is the point of the library where it switched, with the rest of the tree.
  \<^item> \<^verbatim>\<open>runner.rs\<close>, the runner, which owns fibers and switches to them.  Theories \<open>Runner_State\<close> (registration, timers,
    lookups, results), \<open>Runner_Io\<close> (the blocking operations; one iteration of each loop, up to the switch to the main
    stack, is a turn), \<open>Runner\<close> (switching and the loop of \<^verbatim>\<open>run\<close>), \<open>Runner_Lemmas\<close>, \<open>Runner_Life\<close> and \<open>Runner_Stream\<close>
    (how a fiber lives), \<open>Runner_Invariant\<close> (an invariant that every operation keeps, whatever the fibers do).
  \<^item> \<^verbatim>\<open>tls.c\<close> and the types \<^verbatim>\<open>Runner\<close>, \<^verbatim>\<open>Poller\<close>, \<^verbatim>\<open>FiberRef\<close> and \<^verbatim>\<open>TimerRef\<close>: the state of a thread and the calls
    of the program on the main stack.  Theories \<open>Thread_Api\<close> and \<open>Thread_Properties\<close>; \<open>Fiber_Properties\<close> and
    \<open>Fiber_Exchange\<close> have the properties of fibers.  Shown: every reachable thread is well-formed; a fiber is brought to its end by a call of \<^verbatim>\<open>run\<close>
    and its results arrive in order; a read that blocks arms its timeout, is delivered to the timeout queue by the first poll
    at or after it, and goes on with a time-out error; timers deliver their responses; what \<^verbatim>\<open>get_child\<close> does to
    children, and that the result of a child reaches its parent; that the answer of the main stack reaches the fiber that
    called it; how a resolved address becomes a connection; and how hibernation, stale references, restarted runners and timed-out lookups go wrong.

  \<^item> \<^verbatim>\<open>lib.rs\<close>, the program that tests the library, a web proxy.  Theories \<open>Http_Proxy\<close> (its three fiber functions as
    bodies given by control points, and its loop on the main stack), \<open>Http_Client\<close>, \<open>Http_Server\<close> and \<open>Http_Start\<close>.  Shown, on the
    runner and poller above: what the program has registered and queued when its loop begins; a client started by the program streams the page that its socket delivers and waits with its timeout
    armed (a chunk is a slice of the client's buffer, which its next read overwrites), ends with \<^verbatim>\<open>Done\<close> when it times out and panics when its server closes; the loop over the responses ends and counts;
    the listener gives every waiting connection a fiber; and the proxy forwards the chunks of its child.

  \<open>Easy_Prelude\<close> holds what all parts share.  An operation returns its result and the new state; an outcome is a value,
  an error or a panic (\<open>res\<close>), so that every \<^verbatim>\<open>unwrap\<close>, index and arithmetic overflow that can panic in a checked build
  is a branch of the model.  Machine integers are words where their width matters.  The only sum taken to wrap is the
  generation of a slot, which would have to be used 2^64 times.

  \<^bold>\<open>Parameters.\<close>  Code outside the repository is an argument of the definitions: the slab (a record of operations, whose
  laws are the locale \<open>slab\<close>), big-endian access (locale in \<open>Byte_Order\<close>), the operating system with its sockets, TLS,
  readiness registration and clock (a record of operations on an abstract world, of which nothing is assumed but what a
  theorem states), execution stacks, and the bodies of fibers.  Each of them has an instance, on which the witnesses of
  the theorems are computed.

  \<^bold>\<open>Loops.\<close>  Loops that end are total functions.  The loop of the wheel's \<^verbatim>\<open>poll\<close>, the loops of the poller, the vectored TLS
  write, the execution of a body and the loops of the runner are partial functions whose value \<open>None\<close> means that they
  do not return; that they do return is proved where a theorem says so, and that one does not is proved for the TLS write.
  No fuel is used; the loop of the test program, which runs as long as requests remain, takes the sequence of its polls
  as an argument.

  \<^bold>\<open>Limits.\<close>  Theorems about timers hold while the clock is within 2^32 ticks of 250 ms from the start of the wheel (34
  years), the width to which \<^verbatim>\<open>set_timeout\<close> truncates a tick; theorems about identifiers for up to 2^32 fibers per runner,
  the width that \<^verbatim>\<open>split_id\<close> keeps.

  \<^bold>\<open>Not modelled.\<close>  The declarations of foreign functions, module roots and the build script; the variants of
  \<^verbatim>\<open>get_dns_servers\<close> for macOS and Windows (the first is never compiled, the second does not type-check); printing; the clients of \<^verbatim>\<open>dns.rs\<close> for macOS of other threads and processes, which share one port name; where data lies in memory, and with it that \<^verbatim>\<open>context_function\<close>
  and \<^verbatim>\<open>Drop for Runner\<close> hold references into vectors that can move or be freed; the closing of sockets when they are
  dropped; handles of a fiber that are passed on to another fiber and used there; runners of different types on one
  thread (the model takes one type of parameters and results for all).
\<close>

end
